(* ===== verification/Prelude.thy ===== *)
theory Prelude
  imports Main "HOL-Library.Word" "HOL-Library.List_Lexorder"
begin

section \<open>Prelude: bytes, errors, the error-state monad\<close>

text \<open>
  What every component shares.  Go byte slices are lists of \<open>8 word\<close>; Go strings are HOL
  strings (a \<open>char\<close> is a byte).  An error value is a constructor of \<open>err\<close>; a call that may
  fail and changes state is a function \<open>'s \<Rightarrow> (err + 'a) \<times> 's\<close>: the state is returned also
  when the call fails, because a Go handler that returns an error has already written what it
  wrote (undoing it is the work of the transaction runner, outside this repository).
\<close>

named_theorems monad_simps \<open>evaluation of the monad's operations on a state\<close>
named_theorems frame_rules \<open>how a step relation is carried through the monad's operations\<close>

type_synonym byte = "8 word"
type_synonym bytes = "byte list"
type_synonym u32 = "32 word"
type_synonym u64 = "64 word"

subsection \<open>Errors\<close>

text \<open>
  \<open>nix_err\<close> is the list of registered errors of \<open>types/errors.go\<close>.  \<open>Wrap\<close> and \<open>Wrapf\<close> keep
  the identity of the registered error and only add text, so the model keeps the constructor.
  \<open>Std\<close> is a plain \<open>fmt.Errorf\<close> of this repository, \<open>Ext\<close> an error of a package it calls,
  \<open>Panic\<close> a Go panic.
\<close>

datatype nix_err =
    ErrInvalidProof | ErrNullifierSpent | ErrInvalidMerkleRoot | ErrTreeFull
  | ErrInvalidCommitment | ErrInsufficientFunds | ErrInvalidDenom | ErrInvalidAuditorKey
  | ErrAuditorDataMissing | ErrVKNotFound | ErrInvalidPublicInputs | ErrNotRegistered
  | ErrAuditorDataTooLarge | ErrDuplicateCommitment | ErrInvalidNullifier | ErrInvalidWithdraw

text \<open>The code each error is registered under.\<close>

fun nix_err_code :: "nix_err \<Rightarrow> nat" where
  "nix_err_code ErrInvalidProof = 2"
| "nix_err_code ErrNullifierSpent = 3"
| "nix_err_code ErrInvalidMerkleRoot = 4"
| "nix_err_code ErrTreeFull = 5"
| "nix_err_code ErrInvalidCommitment = 6"
| "nix_err_code ErrInsufficientFunds = 7"
| "nix_err_code ErrInvalidDenom = 8"
| "nix_err_code ErrInvalidAuditorKey = 9"
| "nix_err_code ErrAuditorDataMissing = 10"
| "nix_err_code ErrVKNotFound = 11"
| "nix_err_code ErrInvalidPublicInputs = 12"
| "nix_err_code ErrNotRegistered = 13"
| "nix_err_code ErrAuditorDataTooLarge = 14"
| "nix_err_code ErrDuplicateCommitment = 15"
| "nix_err_code ErrInvalidNullifier = 16"
| "nix_err_code ErrInvalidWithdraw = 17"

datatype err = Nix nix_err | Std string | Ext string | Panic string

subsection \<open>Results without state\<close>

definition bindE :: "err + 'a \<Rightarrow> ('a \<Rightarrow> err + 'b) \<Rightarrow> err + 'b" where
  "bindE r f = (case r of Inl e \<Rightarrow> Inl e | Inr x \<Rightarrow> f x)"

definition guardE :: "bool \<Rightarrow> err \<Rightarrow> err + unit" where
  "guardE b e = (if b then Inr () else Inl e)"

text \<open>\<open>if err != nil { return X.Wrap(err.Error()) }\<close>: an error value is replaced by \<open>X\<close>; a panic
  passes through.\<close>

fun is_panic :: "err \<Rightarrow> bool" where
  "is_panic (Panic p) \<longleftrightarrow> True"
| "is_panic _ \<longleftrightarrow> False"

definition wrap_err :: "nix_err \<Rightarrow> err \<Rightarrow> err" where
  "wrap_err x e = (if is_panic e then e else Nix x)"

definition wrapE :: "nix_err \<Rightarrow> err + 'a \<Rightarrow> err + 'a" where
  "wrapE x r = (case r of Inl e \<Rightarrow> Inl (wrap_err x e) | Inr v \<Rightarrow> Inr v)"

lemma bindE_simps [simp]:
  "bindE (Inl e) f = Inl e" "bindE (Inr x) f = f x"
  by (simp_all add: bindE_def)

lemma bindE_cong [fundef_cong]:
  "r = r' \<Longrightarrow> (\<And>x. r' = Inr x \<Longrightarrow> f x = g x) \<Longrightarrow> bindE r f = bindE r' g"
  by (cases r') simp_all

lemma bindE_Inr_iff: "bindE r f = Inr y \<longleftrightarrow> (\<exists>x. r = Inr x \<and> f x = Inr y)"
  by (cases r) simp_all

lemma guardE_Inr [simp]: "guardE b e = Inr u \<longleftrightarrow> b"
  by (simp add: guardE_def)

lemma guardE_Inl [simp]: "guardE b e = Inl e' \<longleftrightarrow> \<not> b \<and> e' = e"
  by (auto simp: guardE_def)

lemma wrapE_Inr [simp]: "wrapE x r = Inr v \<longleftrightarrow> r = Inr v"
  by (cases r) (simp_all add: wrapE_def)

lemma wrapE_Inl [simp]: "wrapE x (Inl e) = Inl (wrap_err x e)"
  by (simp add: wrapE_def)

lemma wrapE_Inr_eq [simp]: "wrapE x (Inr v) = Inr v"
  by (simp add: wrapE_def)

lemma wrap_err_simps [simp]:
  "wrap_err x (Nix y) = Nix x" "wrap_err x (Std t) = Nix x" "wrap_err x (Ext t) = Nix x"
  "wrap_err x (Panic t) = Panic t"
  by (simp_all add: wrap_err_def)

text \<open>A loop over a slice that stops at the first error; indexing and slicing, which panic out of
  range.\<close>

fun mapE :: "('x \<Rightarrow> err + 'a) \<Rightarrow> 'x list \<Rightarrow> err + 'a list" where
  "mapE f [] = Inr []"
| "mapE f (x # xs) = bindE (f x) (\<lambda>y. bindE (mapE f xs) (\<lambda>ys. Inr (y # ys)))"

definition index_at :: "'a list \<Rightarrow> nat \<Rightarrow> err + 'a" where
  "index_at xs i = (if i < length xs then Inr (xs ! i) else Inl (Panic ''index out of range''))"

definition go_slice :: "'a list \<Rightarrow> nat \<Rightarrow> nat \<Rightarrow> err + 'a list" where
  "go_slice d i j = (if i \<le> j \<and> j \<le> length d then Inr (take (j - i) (drop i d))
     else Inl (Panic ''slice bounds out of range''))"

lemma mapE_Inr_iff: "mapE f xs = Inr ys \<longleftrightarrow> list_all2 (\<lambda>x y. f x = Inr y) xs ys"
proof (induction xs arbitrary: ys)
  case Nil
  then show ?case by (cases ys) simp_all
next
  case (Cons x xs)
  then show ?case by (cases ys) (auto simp: bindE_Inr_iff)
qed

lemma mapE_cong: "(\<And>x. x \<in> set xs \<Longrightarrow> f x = g x) \<Longrightarrow> mapE f xs = mapE g xs"
  by (induction xs) simp_all

lemma index_at_Inr_iff [simp]: "index_at xs i = Inr x \<longleftrightarrow> i < length xs \<and> xs ! i = x"
  by (simp add: index_at_def)

lemma index_at_simps [simp]: "i < length xs \<Longrightarrow> index_at xs i = Inr (xs ! i)"
  by (simp add: index_at_def)

lemma go_slice_Inr_iff [simp]:
  "go_slice d i j = Inr b \<longleftrightarrow> i \<le> j \<and> j \<le> length d \<and> b = take (j - i) (drop i d)"
  by (auto simp: go_slice_def)

lemma go_slice_simps [simp]:
  "i \<le> j \<Longrightarrow> j \<le> length d \<Longrightarrow> go_slice d i j = Inr (take (j - i) (drop i d))"
  by (simp add: go_slice_def)

subsection \<open>The error-state monad\<close>

type_synonym ('s, 'a) M = "'s \<Rightarrow> (err + 'a) \<times> 's"

definition returnM :: "'a \<Rightarrow> ('s, 'a) M" where
  "returnM x s = (Inr x, s)"

definition throwM :: "err \<Rightarrow> ('s, 'a) M" where
  "throwM e s = (Inl e, s)"

definition bindM :: "('s, 'a) M \<Rightarrow> ('a \<Rightarrow> ('s, 'b) M) \<Rightarrow> ('s, 'b) M" where
  "bindM m f s = (case m s of (Inl e, s') \<Rightarrow> (Inl e, s') | (Inr x, s') \<Rightarrow> f x s')"

definition readM :: "('s \<Rightarrow> err + 'a) \<Rightarrow> ('s, 'a) M" where
  "readM g s = (g s, s)"

definition liftE :: "err + 'a \<Rightarrow> ('s, 'a) M" where
  "liftE r s = (r, s)"

definition modifyM :: "('s \<Rightarrow> 's) \<Rightarrow> ('s, unit) M" where
  "modifyM f s = (Inr (), f s)"

definition wrapM :: "nix_err \<Rightarrow> ('s, 'a) M \<Rightarrow> ('s, 'a) M" where
  "wrapM x m s = (case m s of (r, s') \<Rightarrow> (wrapE x r, s'))"

fun forM :: "'x list \<Rightarrow> ('x \<Rightarrow> ('s, unit) M) \<Rightarrow> ('s, unit) M" where
  "forM [] f = returnM ()"
| "forM (x # xs) f = bindM (f x) (\<lambda>_. forM xs f)"

text \<open>A call on a part of the state.\<close>

definition zoomM :: "('s \<Rightarrow> 't) \<Rightarrow> ('t \<Rightarrow> 's \<Rightarrow> 's) \<Rightarrow> ('t, 'a) M \<Rightarrow> ('s, 'a) M" where
  "zoomM g p m s = (case m (g s) of (r, t) \<Rightarrow> (r, p t s))"

lemma monad_eval [simp, monad_simps]:
  "returnM x s = (Inr x, s)"
  "throwM e s = (Inl e, s)"
  "readM g s = (g s, s)"
  "liftE r s = (r, s)"
  "modifyM h s = (Inr (), h s)"
  by (simp_all add: returnM_def throwM_def readM_def liftE_def modifyM_def)

lemma bindM_Inr: "m s = (Inr x, s1) \<Longrightarrow> bindM m f s = f x s1"
  by (simp add: bindM_def)

lemma bindM_Inl: "m s = (Inl e, s1) \<Longrightarrow> bindM m f s = (Inl e, s1)"
  by (simp add: bindM_def)

lemma bindM_return [simp]: "bindM (returnM x) f s = f x s"
  by (simp add: bindM_def)

lemma bindM_throw [simp]: "bindM (throwM e) f s = (Inl e, s)"
  by (simp add: bindM_def)

lemma bindM_modify [simp]: "bindM (modifyM h) f s = f () (h s)"
  by (simp add: bindM_def)

lemma bindM_read [simp]:
  "bindM (readM g) f s = (case g s of Inl e \<Rightarrow> (Inl e, s) | Inr x \<Rightarrow> f x s)"
  by (simp add: bindM_def split: sum.split)

lemma bindM_lift [simp]:
  "bindM (liftE r) f s = (case r of Inl e \<Rightarrow> (Inl e, s) | Inr x \<Rightarrow> f x s)"
  by (simp add: bindM_def split: sum.split)

lemma bindM_assoc: "bindM (bindM m f) g s = bindM m (\<lambda>x. bindM (f x) g) s"
  by (simp add: bindM_def split: prod.split sum.split)

text \<open>Inversion of a successful call: every step succeeded, with the states between them.\<close>

lemma bindM_Inr_iff:
  "bindM m f s = (Inr y, s') \<longleftrightarrow> (\<exists>x s1. m s = (Inr x, s1) \<and> f x s1 = (Inr y, s'))"
  by (auto simp: bindM_def split: prod.splits sum.splits)

lemma bindM_InrE [elim]:
  assumes "bindM m f s = (Inr y, s')"
  obtains x s1 where "m s = (Inr x, s1)" "f x s1 = (Inr y, s')"
  using assms by (auto simp: bindM_Inr_iff)

lemma wrapM_Inr_iff [simp]: "wrapM x m s = (Inr y, s') \<longleftrightarrow> m s = (Inr y, s')"
  by (cases "m s") (auto simp: wrapM_def)

lemma snd_wrapM [simp]: "snd (wrapM x m s) = snd (m s)"
  by (cases "m s") (simp add: wrapM_def)

lemma zoomM_Inr_iff: "zoomM g p m s = (r, s') \<longleftrightarrow> (\<exists>t. m (g s) = (r, t) \<and> s' = p t s)"
  by (auto simp: zoomM_def split: prod.splits)

subsection \<open>Step relations carried through a call\<close>

text \<open>
  \<open>stable R m\<close>: every run of \<open>m\<close>, failed or not, ends in a state \<open>R\<close>-related to the one it
  started in.  For a reflexive and transitive \<open>R\<close> it follows from the same fact about the
  parts of \<open>m\<close>; the locale states this once, each frame or monotonicity property of the
  development is an interpretation of it.
\<close>

definition stable :: "('s \<Rightarrow> 's \<Rightarrow> bool) \<Rightarrow> ('s, 'a) M \<Rightarrow> bool" where
  "stable R m \<longleftrightarrow> (\<forall>s. R s (snd (m s)))"

lemma stableD: "stable R m \<Longrightarrow> m s = (r, s') \<Longrightarrow> R s s'"
  by (metis snd_conv stable_def)

locale step_relation =
  fixes R :: "'s \<Rightarrow> 's \<Rightarrow> bool"
  assumes R_refl: "R s s"
    and R_trans: "R s t \<Longrightarrow> R t u \<Longrightarrow> R s u"
begin

lemma stable_return [frame_rules]: "stable R (returnM x)"
  by (simp add: stable_def R_refl)

lemma stable_throw [frame_rules]: "stable R (throwM e)"
  by (simp add: stable_def R_refl)

lemma stable_read [frame_rules]: "stable R (readM g)"
  by (simp add: stable_def R_refl)

lemma stable_lift [frame_rules]: "stable R (liftE r)"
  by (simp add: stable_def R_refl)

lemma stable_modify: "(\<And>s. R s (h s)) \<Longrightarrow> stable R (modifyM h)"
  by (simp add: stable_def)

lemma stable_bind [frame_rules]:
  assumes "stable R m" and "\<And>x. stable R (f x)"
  shows "stable R (bindM m f)"
  unfolding stable_def
proof
  fix s
  obtain r t where m: "m s = (r, t)" by (cases "m s")
  with assms(1) have 1: "R s t" by (rule stableD)
  show "R s (snd (bindM m f s))"
  proof (cases r)
    case (Inl e)
    with m 1 show ?thesis by (simp add: bindM_def)
  next
    case (Inr x)
    have "R t (snd (f x t))" using assms(2) by (simp add: stable_def)
    with m 1 Inr show ?thesis by (auto simp: bindM_def intro: R_trans)
  qed
qed

lemma stable_wrap [frame_rules]: "stable R m \<Longrightarrow> stable R (wrapM x m)"
  by (simp add: stable_def)

lemma stable_for [frame_rules]: "(\<And>x. stable R (f x)) \<Longrightarrow> stable R (forM xs f)"
  by (induction xs) (simp_all add: stable_return stable_bind)

lemma stable_if [frame_rules]:
  "(b \<Longrightarrow> stable R m) \<Longrightarrow> (\<not> b \<Longrightarrow> stable R n) \<Longrightarrow> stable R (if b then m else n)"
  by simp

lemma stable_option [frame_rules]:
  "stable R m \<Longrightarrow> (\<And>x. stable R (f x)) \<Longrightarrow> stable R (case v of None \<Rightarrow> m | Some x \<Rightarrow> f x)"
  by (simp split: option.split)

lemma stable_prod [frame_rules]:
  "(\<And>a b. stable R (f a b)) \<Longrightarrow> stable R (case v of (a, b) \<Rightarrow> f a b)"
  by (simp split: prod.split)

end

text \<open>Equality of a view of the state is such a relation: the frame of a call.\<close>

definition same :: "('s \<Rightarrow> 'v) \<Rightarrow> 's \<Rightarrow> 's \<Rightarrow> bool" where
  "same view s t \<longleftrightarrow> view t = view s"

interpretation frame: step_relation "same view" for view :: "'s \<Rightarrow> 'v"
  by unfold_locales (auto simp: same_def)

subsection \<open>Big-endian numbers\<close>

text \<open>
  \<open>be_nat\<close> reads a byte string as an unsigned big-endian number (\<open>big.Int.SetBytes\<close>,
  \<open>binary.BigEndian.Uint64\<close>); \<open>be_bytes n\<close> writes the low \<open>n\<close> bytes of a number.
\<close>

fun be_nat_acc :: "nat \<Rightarrow> bytes \<Rightarrow> nat" where
  "be_nat_acc a [] = a"
| "be_nat_acc a (b # bs) = be_nat_acc (a * 256 + unat b) bs"

definition be_nat :: "bytes \<Rightarrow> nat" where
  "be_nat bs = be_nat_acc 0 bs"

fun be_bytes :: "nat \<Rightarrow> nat \<Rightarrow> bytes" where
  "be_bytes 0 v = []"
| "be_bytes (Suc n) v = be_bytes n (v div 256) @ [word_of_nat (v mod 256)]"

lemma be_nat_acc: "be_nat_acc a bs = a * 256 ^ length bs + be_nat bs"
proof (induction bs arbitrary: a)
  case Nil
  then show ?case by (simp add: be_nat_def)
next
  case (Cons b bs)
  have "be_nat (b # bs) = unat b * 256 ^ length bs + be_nat bs"
    using Cons [of "unat b"] by (simp add: be_nat_def)
  with Cons [of "a * 256 + unat b"] show ?case by (simp add: algebra_simps)
qed

lemma be_nat_Nil [simp]: "be_nat [] = 0"
  by (simp add: be_nat_def)

lemma be_nat_Cons: "be_nat (b # bs) = unat b * 256 ^ length bs + be_nat bs"
  using be_nat_acc [of "unat b" bs] by (simp add: be_nat_def)

lemma be_nat_snoc: "be_nat (bs @ [b]) = be_nat bs * 256 + unat b"
  by (induction bs) (simp_all add: be_nat_Cons algebra_simps)

lemma be_nat_append: "be_nat (xs @ ys) = be_nat xs * 256 ^ length ys + be_nat ys"
  by (induction xs) (simp_all add: be_nat_Cons power_add algebra_simps)

lemma length_be_bytes [simp]: "length (be_bytes n v) = n"
  by (induction n arbitrary: v) simp_all

lemma unat_byte_mod: "unat (word_of_nat (v mod 256) :: byte) = v mod 256"
  by (simp add: unat_of_nat take_bit_eq_mod)

lemma be_nat_be_bytes: "be_nat (be_bytes n v) = v mod 256 ^ n"
proof (induction n arbitrary: v)
  case 0
  then show ?case by simp
next
  case (Suc n)
  have "be_nat (be_bytes (Suc n) v) = (v div 256 mod 256 ^ n) * 256 + v mod 256"
    by (simp add: be_nat_snoc Suc.IH unat_byte_mod del: of_nat_mod)
  also have "\<dots> = v mod (256 * 256 ^ n)"
    by (simp add: mod_mult2_eq)
  finally show ?case by simp
qed

lemma be_nat_less: "be_nat bs < 256 ^ length bs"
proof (induction bs rule: rev_induct)
  case Nil
  then show ?case by simp
next
  case (snoc b bs)
  have "unat b < 256" using unsigned_less [of b] by simp
  with snoc show ?case by (simp add: be_nat_snoc)
qed

lemma be_bytes_be_nat: "be_bytes (length bs) (be_nat bs) = bs"
proof (induction bs rule: rev_induct)
  case Nil
  then show ?case by simp
next
  case (snoc b bs)
  have "unat b < 256" using unsigned_less [of b] by simp
  with snoc show ?case by (simp add: be_nat_snoc)
qed

lemma be_nat_inj: "length xs = length ys \<Longrightarrow> be_nat xs = be_nat ys \<Longrightarrow> xs = ys"
  by (metis be_bytes_be_nat)

lemma be_bytes_inj:
  "x < 256 ^ n \<Longrightarrow> y < 256 ^ n \<Longrightarrow> be_bytes n x = be_bytes n y \<Longrightarrow> x = y"
  by (metis be_nat_be_bytes mod_less)

text \<open>A slice that may be nil.  \<open>len\<close>, \<open>range\<close> and \<open>bytes.Equal\<close> do not distinguish a nil slice from an empty one.\<close>

definition slice :: "bytes option \<Rightarrow> bytes" where
  "slice v = (case v of None \<Rightarrow> [] | Some b \<Rightarrow> b)"

lemma slice_simps [simp]: "slice None = []" "slice (Some b) = b"
  by (simp_all add: slice_def)

text \<open>\<open>binary.BigEndian.PutUint64\<close>, \<open>PutUint32\<close> and \<open>Uint64\<close>; the last reads the first
  eight bytes and panics on a shorter slice.\<close>

definition be64 :: "u64 \<Rightarrow> bytes" where
  "be64 w = be_bytes 8 (unat w)"

definition be32 :: "u32 \<Rightarrow> bytes" where
  "be32 w = be_bytes 4 (unat w)"

definition dec64 :: "bytes \<Rightarrow> err + u64" where
  "dec64 bs = (if length bs < 8 then Inl (Panic ''index out of range'')
               else Inr (word_of_nat (be_nat (take 8 bs))))"

lemma length_be64 [simp]: "length (be64 w) = 8"
  by (simp add: be64_def)

lemma length_be32 [simp]: "length (be32 w) = 4"
  by (simp add: be32_def)

lemma dec64_be64 [simp]: "dec64 (be64 w) = Inr w"
proof -
  have "unat w < 256 ^ 8" using unsigned_less [of w] by simp
  then show ?thesis by (simp add: dec64_def be64_def be_nat_be_bytes)
qed

lemma be64_inj [simp]: "be64 v = be64 w \<longleftrightarrow> v = w"
  by (metis dec64_be64 sum.inject(2))

lemma be32_inj [simp]: "be32 v = be32 w \<longleftrightarrow> v = w"
proof
  have "unat x < 256 ^ 4" for x :: u32 using unsigned_less [of x] by simp
  then show "be32 v = be32 w \<Longrightarrow> v = w"
    unfolding be32_def by (metis be_bytes_inj unsigned_word_eqI)
qed simp

lemma be64_not_Nil [simp]: "be64 w \<noteq> []"
  by (metis length_be64 list.size(3) zero_neq_numeral)

subsection \<open>Strings and their bytes\<close>

definition bytes_of :: "string \<Rightarrow> bytes" where
  "bytes_of s = map (\<lambda>c. word_of_nat (of_char c)) s"

lemma bytes_of_inj [simp]: "bytes_of s = bytes_of t \<longleftrightarrow> s = t"
proof
  have "inj (\<lambda>c::char. word_of_nat (of_char c) :: byte)"
  proof (rule injI)
    fix c d :: char
    assume eq: "(word_of_nat (of_char c) :: byte) = word_of_nat (of_char d)"
    have lt: "(of_char x :: nat) < 256" for x :: char by (rule nat_of_char_less_256)
    have "unat (word_of_nat (of_char x) :: byte) = of_char x" for x :: char
      using lt [of x] by (simp add: unat_of_nat take_bit_eq_mod)
    with eq have "(of_char c :: nat) = of_char d" by metis
    then show "c = d" by simp
  qed
  then show "bytes_of s = bytes_of t \<Longrightarrow> s = t"
    by (simp add: bytes_of_def inj_map_eq_map)
qed simp

text \<open>\<open>string(bz)\<close>, the inverse conversion.\<close>

definition string_of :: "bytes \<Rightarrow> string" where
  "string_of bs = map (\<lambda>b. char_of (unat b)) bs"

lemma string_of_bytes_of [simp]: "string_of (bytes_of s) = s"
proof -
  have "unat (word_of_nat (of_char c) :: byte) = of_char c" for c :: char
    using nat_of_char_less_256 [of c] by (simp add: unat_of_nat take_bit_eq_mod)
  then show ?thesis by (simp add: string_of_def bytes_of_def comp_def)
qed

lemma bytes_of_string_of [simp]: "bytes_of (string_of bs) = bs"
proof -
  have "word_of_nat (of_char (char_of (unat b) :: char)) = b" for b :: byte
  proof -
    have "unat b < 256" using unsigned_less [of b] by simp
    then have "unat b mod 256 = unat b" by (rule mod_less)
    then show ?thesis by (simp add: of_char_of)
  qed
  then show ?thesis by (simp add: string_of_def bytes_of_def comp_def map_idI)
qed

lemma length_bytes_of [simp]: "length (bytes_of s) = length s"
  by (simp add: bytes_of_def)

subsection \<open>Words and lists\<close>

lemma unat_of_nat_u64: "i < 2 ^ 64 \<Longrightarrow> unat (of_nat i :: u64) = i"
  by (simp add: unat_of_nat take_bit_eq_mod)

lemma unat_u64_less: "unat (n :: u64) < 2 ^ 64"
  using unsigned_less [of n] by simp

lemma unat_u32_less: "unat (n :: u32) < 2 ^ 32"
  using unsigned_less [of n] by simp

lemma unat_of_nat_u32: "i < 2 ^ 32 \<Longrightarrow> unat (of_nat i :: u32) = i"
  by (simp add: unat_of_nat take_bit_eq_mod)

lemma unat_of_nat_below: "i < unat (n :: u64) \<Longrightarrow> unat (of_nat i :: u64) = i"
  using unat_u64_less [of n] by (simp add: unat_of_nat_u64)

lemma of_nat_u64_inj:
  "i < unat (n :: u64) \<Longrightarrow> j < unat n \<Longrightarrow> (of_nat i :: u64) = of_nat j \<longleftrightarrow> i = j"
  by (metis unat_of_nat_below)

lemma fold_concat_lists: "fold f (concat xss) s = fold (fold f) xss s"
  by (induction xss arbitrary: s) simp_all

lemma word_less_of_nat: "(x :: u64) < n \<longleftrightarrow> (\<exists>i < unat n. x = of_nat i)"
proof
  assume "x < n"
  then show "\<exists>i < unat n. x = of_nat i"
    by (intro exI [of _ "unat x"]) (simp add: word_less_nat_alt)
qed (auto simp: word_less_nat_alt unat_of_nat_below)

end
