(* ===== verification/Field.thy ===== *)
theory Field
  imports Prelude
begin

section \<open>The scalar field: elements, their bytes, canonical encodings\<close>

text \<open>
  \<open>fr.Element\<close> of gnark-crypto is an element of the BN254 scalar field, the integers modulo
  the prime \<open>fr_modulus\<close>.  What the repository uses of it and documents: \<open>SetBytes\<close> and
  \<open>SetBigInt\<close> reduce modulo the prime, \<open>Bytes\<close> writes the 32-byte big-endian canonical form,
  \<open>==\<close> and \<open>Equal\<close> compare elements, \<open>Add\<close> and \<open>Sub\<close> are the field's.
\<close>

definition fr_modulus :: int where
  "fr_modulus = 21888242871839275222246405745257275088548364400416034343698204186575808495617"

lemma fr_modulus_pos [simp]: "0 < fr_modulus"
  by (simp add: fr_modulus_def)

lemma fr_modulus_bytes: "fr_modulus < 256 ^ 32"
  by (simp add: fr_modulus_def)

typedef fr = "{i :: int. 0 \<le> i \<and> i < fr_modulus}"
  morphisms fr_val Abs_fr
  by (rule exI [of _ 0]) simp

setup_lifting type_definition_fr

lift_definition fr_of_int :: "int \<Rightarrow> fr" is "\<lambda>i. i mod fr_modulus"
  by simp

lemma fr_val_bounds [simp]: "0 \<le> fr_val x" "fr_val x < fr_modulus"
  using fr_val [of x] by simp_all

lemma fr_val_of_int: "fr_val (fr_of_int i) = i mod fr_modulus"
  by (rule fr_of_int.rep_eq)

lemma fr_of_int_val [simp]: "fr_of_int (fr_val x) = x"
  by (metis fr_val_bounds fr_val_inject fr_val_of_int mod_pos_pos_trivial)

lemma fr_of_int_eq_iff: "fr_of_int i = fr_of_int j \<longleftrightarrow> i mod fr_modulus = j mod fr_modulus"
  by (metis fr_val_inject fr_val_of_int)

instantiation fr :: equal
begin

definition equal_fr :: "fr \<Rightarrow> fr \<Rightarrow> bool" where
  "equal_fr x y \<longleftrightarrow> fr_val x = fr_val y"

instance
  by standard (simp add: equal_fr_def fr_val_inject)

end

instantiation fr :: linorder
begin

definition less_eq_fr :: "fr \<Rightarrow> fr \<Rightarrow> bool" where
  "less_eq_fr x y \<longleftrightarrow> fr_val x \<le> fr_val y"

definition less_fr :: "fr \<Rightarrow> fr \<Rightarrow> bool" where
  "less_fr x y \<longleftrightarrow> fr_val x < fr_val y"

instance
  by standard (auto simp: less_eq_fr_def less_fr_def fr_val_inject)

end

instantiation fr :: ab_group_add
begin

lift_definition zero_fr :: fr is 0
  by simp

lift_definition plus_fr :: "fr \<Rightarrow> fr \<Rightarrow> fr" is "\<lambda>a b. (a + b) mod fr_modulus"
  by simp

lift_definition minus_fr :: "fr \<Rightarrow> fr \<Rightarrow> fr" is "\<lambda>a b. (a - b) mod fr_modulus"
  by simp

lift_definition uminus_fr :: "fr \<Rightarrow> fr" is "\<lambda>a. (- a) mod fr_modulus"
  by simp

instance
proof
  fix a b c :: fr
  show "a + b + c = a + (b + c)"
    by transfer (simp add: mod_simps add.assoc)
  show "a + b = b + a"
    by transfer (simp add: add.commute)
  show "0 + a = a"
    by transfer simp
  show "- a + a = 0"
    by transfer (simp add: mod_simps)
  show "a - b = a + - b"
    by transfer (simp add: mod_simps)
qed

end

subsection \<open>\<open>SetBytes\<close>, \<open>Bytes\<close>\<close>

definition SetBytes :: "bytes \<Rightarrow> fr" where
  "SetBytes b = fr_of_int (int (be_nat b))"

definition frBytes :: "fr \<Rightarrow> bytes" where
  "frBytes x = be_bytes 32 (nat (fr_val x))"

definition canonical :: "bytes \<Rightarrow> bool" where
  "canonical b \<longleftrightarrow> length b = 32 \<and> int (be_nat b) < fr_modulus"

lemma length_frBytes [simp]: "length (frBytes x) = 32"
  by (simp add: frBytes_def)

lemma frBytes_not_Nil [simp]: "frBytes x \<noteq> []"
  by (metis length_frBytes list.size(3) zero_neq_numeral)

lemma be_nat_frBytes [simp]: "be_nat (frBytes x) = nat (fr_val x)"
proof -
  have "fr_val x < 256 ^ 32" using fr_val_bounds [of x] fr_modulus_bytes by linarith
  then have "nat (fr_val x) < 256 ^ 32" by (simp add: nat_less_iff)
  then show ?thesis by (simp add: frBytes_def be_nat_be_bytes)
qed

lemma SetBytes_frBytes [simp]: "SetBytes (frBytes x) = x"
  by (simp add: SetBytes_def)

lemma frBytes_inj [simp]: "frBytes x = frBytes y \<longleftrightarrow> x = y"
  by (metis SetBytes_frBytes)

lemma canonical_frBytes [simp]: "canonical (frBytes x)"
  by (simp add: canonical_def)

lemma SetBytes_eq_iff:
  "SetBytes b = SetBytes c \<longleftrightarrow> int (be_nat b) mod fr_modulus = int (be_nat c) mod fr_modulus"
  by (simp add: SetBytes_def fr_of_int_eq_iff)

lemma fr_val_SetBytes: "fr_val (SetBytes b) = int (be_nat b) mod fr_modulus"
  by (simp add: SetBytes_def fr_val_of_int)

lemma frBytes_SetBytes [simp]: "canonical b \<Longrightarrow> frBytes (SetBytes b) = b"
proof -
  assume c: "canonical b"
  then have "nat (fr_val (SetBytes b)) = be_nat b"
    by (simp add: canonical_def fr_val_SetBytes)
  with c show ?thesis
    by (metis be_bytes_be_nat canonical_def frBytes_def)
qed

lemma canonical_iff: "canonical b \<longleftrightarrow> frBytes (SetBytes b) = b"
  by (metis canonical_frBytes frBytes_SetBytes)

lemma SetBytes_eq_canonical: "canonical b \<Longrightarrow> SetBytes b = x \<longleftrightarrow> b = frBytes x"
  by (metis SetBytes_frBytes frBytes_SetBytes)

lemma canonical_inj: "canonical b \<Longrightarrow> canonical c \<Longrightarrow> SetBytes b = SetBytes c \<longleftrightarrow> b = c"
  by (metis frBytes_SetBytes)

lemma SetBytes_Nil [simp]: "SetBytes [] = 0"
  by (simp add: SetBytes_def zero_fr_def fr_of_int_def)

lemma fr_val_zero [simp]: "fr_val 0 = 0"
  by (rule zero_fr.rep_eq)

end
