(* ===== verification/Keys.thy ===== *)
theory Keys
  imports Field "HOL-Library.Sublist"
begin

section \<open>Store keys\<close>

text \<open>
  \<open>types/keys.go\<close>: the byte layout of the store.  Each Go constructor is a definition of the
  same name.  \<open>skey\<close> lists the logical slots of the store (a slot named after a field element
  is named by the element, not by one of its encodings) and \<open>skey_bytes\<close> places each slot at
  the key the Go constructors build; different slots have different keys.
\<close>

definition MaxRootHistory :: u64 where
  "MaxRootHistory = 100"

definition MaxAuditorDataSize :: nat where
  "MaxAuditorDataSize = 4096"

definition ModuleName :: string where
  "ModuleName = ''nixpool''"

definition StoreKey :: string where
  "StoreKey = ModuleName"

definition ModuleAccountName :: string where
  "ModuleAccountName = ModuleName"

subsection \<open>Prefixes\<close>

definition commitmentPrefix :: string where "commitmentPrefix = ''nixpool/c/''"
definition frontierPrefix :: string where "frontierPrefix = ''nixpool/f/''"
definition rootHistoryPrefix :: string where "rootHistoryPrefix = ''nixpool/rh/''"
definition treeRootPrefix :: string where "treeRootPrefix = ''nixpool/tr/''"
definition rootIndexPrefix :: string where "rootIndexPrefix = ''nixpool/ri/''"
definition treeNextIndexPrefix :: string where "treeNextIndexPrefix = ''nixpool/ti/''"
definition activeTreeIdKey :: string where "activeTreeIdKey = ''nixpool/atid''"
definition treeCountKey :: string where "treeCountKey = ''nixpool/tc''"
definition regCommitmentPrefix :: string where "regCommitmentPrefix = ''nixpool/reg/c/''"
definition regFrontierPrefix :: string where "regFrontierPrefix = ''nixpool/reg/f/''"
definition regRootKey :: string where "regRootKey = ''nixpool/reg/root''"
definition regNextIndexKey :: string where "regNextIndexKey = ''nixpool/reg/ni''"
definition commitmentUsedPrefix :: string where "commitmentUsedPrefix = ''nixpool/used/''"
definition regCommitmentUsedPrefix :: string where "regCommitmentUsedPrefix = ''nixpool/reg/used/''"
definition nullifierPrefix :: string where "nullifierPrefix = ''nixpool/n/''"
definition paramsKey :: string where "paramsKey = ''nixpool/params''"
definition vkPrefix :: string where "vkPrefix = ''nixpool/vk/''"
definition auditorDataPrefix :: string where "auditorDataPrefix = ''nixpool/ad/''"

lemmas prefix_defs =
  commitmentPrefix_def frontierPrefix_def rootHistoryPrefix_def treeRootPrefix_def
  rootIndexPrefix_def treeNextIndexPrefix_def activeTreeIdKey_def treeCountKey_def
  regCommitmentPrefix_def regFrontierPrefix_def regRootKey_def regNextIndexKey_def
  commitmentUsedPrefix_def regCommitmentUsedPrefix_def nullifierPrefix_def paramsKey_def
  vkPrefix_def auditorDataPrefix_def

subsection \<open>Helpers: every one allocates a fresh slice\<close>

definition copyBytes :: "bytes \<Rightarrow> bytes" where
  "copyBytes src = src"

definition appendUint64 :: "bytes \<Rightarrow> u64 \<Rightarrow> bytes" where
  "appendUint64 pre v = pre @ be64 v"

definition appendUint32 :: "bytes \<Rightarrow> u32 \<Rightarrow> bytes" where
  "appendUint32 pre v = pre @ be32 v"

definition appendBytes :: "bytes \<Rightarrow> bytes \<Rightarrow> bytes" where
  "appendBytes pre suf = pre @ suf"

definition CanonicalFieldBytes :: "bytes \<Rightarrow> bytes" where
  "CanonicalFieldBytes b = (let e = SetBytes b; out = frBytes e in out)"

subsection \<open>Key constructors\<close>

definition ActiveTreeIdKey :: bytes where
  "ActiveTreeIdKey = copyBytes (bytes_of activeTreeIdKey)"

definition TreeCountKey :: bytes where
  "TreeCountKey = copyBytes (bytes_of treeCountKey)"

definition RegRootKeyBytes :: bytes where
  "RegRootKeyBytes = copyBytes (bytes_of regRootKey)"

definition RegNextIndexKeyBytes :: bytes where
  "RegNextIndexKeyBytes = copyBytes (bytes_of regNextIndexKey)"

definition ParamsKeyBytes :: bytes where
  "ParamsKeyBytes = copyBytes (bytes_of paramsKey)"

definition CommitmentKey :: "u64 \<Rightarrow> u64 \<Rightarrow> bytes" where
  "CommitmentKey treeId index = bytes_of commitmentPrefix @ be64 treeId @ be64 index"

definition FrontierKey :: "u64 \<Rightarrow> u32 \<Rightarrow> bytes" where
  "FrontierKey treeId level = bytes_of frontierPrefix @ be64 treeId @ be32 level"

definition RootHistoryKey :: "u64 \<Rightarrow> u64 \<Rightarrow> bytes" where
  "RootHistoryKey treeId slot = bytes_of rootHistoryPrefix @ be64 treeId @ be64 slot"

definition TreeRootKey :: "u64 \<Rightarrow> bytes" where
  "TreeRootKey treeId = appendUint64 (bytes_of treeRootPrefix) treeId"

definition RootIndexKey :: "bytes \<Rightarrow> bytes" where
  "RootIndexKey root = appendBytes (bytes_of rootIndexPrefix) (CanonicalFieldBytes root)"

definition TreeNextIndexKey :: "u64 \<Rightarrow> bytes" where
  "TreeNextIndexKey treeId = appendUint64 (bytes_of treeNextIndexPrefix) treeId"

definition RegCommitmentKey :: "u64 \<Rightarrow> bytes" where
  "RegCommitmentKey index = appendUint64 (bytes_of regCommitmentPrefix) index"

definition RegFrontierKey :: "u32 \<Rightarrow> bytes" where
  "RegFrontierKey level = appendUint32 (bytes_of regFrontierPrefix) level"

definition CommitmentUsedKey :: "bytes \<Rightarrow> bytes" where
  "CommitmentUsedKey c = appendBytes (bytes_of commitmentUsedPrefix) (CanonicalFieldBytes c)"

definition RegCommitmentUsedKey :: "bytes \<Rightarrow> bytes" where
  "RegCommitmentUsedKey c = appendBytes (bytes_of regCommitmentUsedPrefix) (CanonicalFieldBytes c)"

definition NullifierKey :: "bytes \<Rightarrow> bytes" where
  "NullifierKey hash = appendBytes (bytes_of nullifierPrefix) (CanonicalFieldBytes hash)"

definition VKKey :: "string \<Rightarrow> bytes" where
  "VKKey circuitName = appendBytes (bytes_of vkPrefix) (bytes_of circuitName)"

definition AuditorDataKey :: "bytes \<Rightarrow> bytes" where
  "AuditorDataKey txHash = appendBytes (bytes_of auditorDataPrefix) txHash"

definition RootIndexPrefix :: bytes where
  "RootIndexPrefix = copyBytes (bytes_of rootIndexPrefix)"

definition NullifierPrefix :: bytes where
  "NullifierPrefix = copyBytes (bytes_of nullifierPrefix)"

definition CommitmentUsedPrefix :: bytes where
  "CommitmentUsedPrefix = copyBytes (bytes_of commitmentUsedPrefix)"

definition AuditorDataPrefix :: bytes where
  "AuditorDataPrefix = copyBytes (bytes_of auditorDataPrefix)"

definition VKPrefix :: bytes where
  "VKPrefix = copyBytes (bytes_of vkPrefix)"

definition CommitmentPrefix :: bytes where
  "CommitmentPrefix = copyBytes (bytes_of commitmentPrefix)"

definition FrontierPrefixAll :: bytes where
  "FrontierPrefixAll = copyBytes (bytes_of frontierPrefix)"

definition RootHistoryPrefixAll :: bytes where
  "RootHistoryPrefixAll = copyBytes (bytes_of rootHistoryPrefix)"

definition TreeRootPrefixAll :: bytes where
  "TreeRootPrefixAll = copyBytes (bytes_of treeRootPrefix)"

definition TreeNextIndexPrefixAll :: bytes where
  "TreeNextIndexPrefixAll = copyBytes (bytes_of treeNextIndexPrefix)"

definition RegCommitmentPrefix :: bytes where
  "RegCommitmentPrefix = copyBytes (bytes_of regCommitmentPrefix)"

definition RegFrontierPrefix :: bytes where
  "RegFrontierPrefix = copyBytes (bytes_of regFrontierPrefix)"

definition RegCommitmentUsedPrefix :: bytes where
  "RegCommitmentUsedPrefix = copyBytes (bytes_of regCommitmentUsedPrefix)"

subsection \<open>The slots of the store and their keys\<close>

datatype skey =
    KCommitment u64 u64 | KFrontier u64 u32 | KRootHistory u64 u64 | KTreeRoot u64
  | KRootIndex fr | KTreeNextIndex u64 | KActiveTreeId | KTreeCount
  | KRegCommitment u64 | KRegFrontier u32 | KRegRoot | KRegNextIndex
  | KCommitmentUsed fr | KRegCommitmentUsed fr | KNullifier fr
  | KParams | KVK string | KAuditorData bytes

fun skey_prefix :: "skey \<Rightarrow> string" where
  "skey_prefix (KCommitment t i) = commitmentPrefix"
| "skey_prefix (KFrontier t l) = frontierPrefix"
| "skey_prefix (KRootHistory t i) = rootHistoryPrefix"
| "skey_prefix (KTreeRoot t) = treeRootPrefix"
| "skey_prefix (KRootIndex r) = rootIndexPrefix"
| "skey_prefix (KTreeNextIndex t) = treeNextIndexPrefix"
| "skey_prefix KActiveTreeId = activeTreeIdKey"
| "skey_prefix KTreeCount = treeCountKey"
| "skey_prefix (KRegCommitment i) = regCommitmentPrefix"
| "skey_prefix (KRegFrontier l) = regFrontierPrefix"
| "skey_prefix KRegRoot = regRootKey"
| "skey_prefix KRegNextIndex = regNextIndexKey"
| "skey_prefix (KCommitmentUsed c) = commitmentUsedPrefix"
| "skey_prefix (KRegCommitmentUsed c) = regCommitmentUsedPrefix"
| "skey_prefix (KNullifier n) = nullifierPrefix"
| "skey_prefix KParams = paramsKey"
| "skey_prefix (KVK n) = vkPrefix"
| "skey_prefix (KAuditorData h) = auditorDataPrefix"

fun skey_suffix :: "skey \<Rightarrow> bytes" where
  "skey_suffix (KCommitment t i) = be64 t @ be64 i"
| "skey_suffix (KFrontier t l) = be64 t @ be32 l"
| "skey_suffix (KRootHistory t i) = be64 t @ be64 i"
| "skey_suffix (KTreeRoot t) = be64 t"
| "skey_suffix (KRootIndex r) = frBytes r"
| "skey_suffix (KTreeNextIndex t) = be64 t"
| "skey_suffix (KRegCommitment i) = be64 i"
| "skey_suffix (KRegFrontier l) = be32 l"
| "skey_suffix (KCommitmentUsed c) = frBytes c"
| "skey_suffix (KRegCommitmentUsed c) = frBytes c"
| "skey_suffix (KNullifier n) = frBytes n"
| "skey_suffix (KVK n) = bytes_of n"
| "skey_suffix (KAuditorData h) = h"
| "skey_suffix _ = []"

definition skey_bytes :: "skey \<Rightarrow> bytes" where
  "skey_bytes k = bytes_of (skey_prefix k) @ skey_suffix k"

lemma bytes_of_prefix: "prefix (bytes_of p) (bytes_of q) \<longleftrightarrow> prefix p q"
proof
  assume "prefix (bytes_of p) (bytes_of q)"
  then have "bytes_of p = take (length p) (bytes_of q)"
    by (auto simp: prefix_def bytes_of_def)
  also have "\<dots> = bytes_of (take (length p) q)"
    by (simp add: bytes_of_def take_map)
  finally show "prefix p q" by (metis bytes_of_inj take_is_prefix)
next
  assume "prefix p q"
  then show "prefix (bytes_of p) (bytes_of q)"
    by (auto simp: prefix_def bytes_of_def)
qed

lemma bytes_of_append_clash:
  "\<not> prefix p q \<Longrightarrow> \<not> prefix q p \<Longrightarrow> bytes_of p @ x \<noteq> bytes_of q @ y"
proof
  assume np: "\<not> prefix p q" "\<not> prefix q p" and eq: "bytes_of p @ x = bytes_of q @ y"
  have "prefix (bytes_of p) (bytes_of q @ y)" by (simp flip: eq)
  moreover have "prefix (bytes_of q) (bytes_of q @ y)" by simp
  ultimately have "prefix p q \<or> prefix q p"
    using prefix_same_cases bytes_of_prefix by blast
  with np show False by blast
qed

definition store_prefixes :: "string list" where
  "store_prefixes =
     [commitmentPrefix, frontierPrefix, rootHistoryPrefix, treeRootPrefix, rootIndexPrefix,
      treeNextIndexPrefix, activeTreeIdKey, treeCountKey, regCommitmentPrefix,
      regFrontierPrefix, regRootKey, regNextIndexKey, commitmentUsedPrefix,
      regCommitmentUsedPrefix, nullifierPrefix, paramsKey, vkPrefix, auditorDataPrefix]"

lemma store_prefixes_free:
  "list_all (\<lambda>p. list_all (\<lambda>q. prefix p q \<longrightarrow> p = q) store_prefixes) store_prefixes"
  by code_simp

lemma skey_prefix_in: "skey_prefix k \<in> set store_prefixes"
  by (cases k) (simp_all add: store_prefixes_def)

lemma skey_prefix_clash:
  "skey_prefix k \<noteq> skey_prefix k' \<Longrightarrow> \<not> prefix (skey_prefix k) (skey_prefix k')"
  using store_prefixes_free skey_prefix_in [of k] skey_prefix_in [of k']
  by (auto simp: list_all_iff)

fun key_index :: "skey \<Rightarrow> nat" where
  "key_index (KCommitment t i) = 0"
| "key_index (KFrontier t l) = 1"
| "key_index (KRootHistory t i) = 2"
| "key_index (KTreeRoot t) = 3"
| "key_index (KRootIndex r) = 4"
| "key_index (KTreeNextIndex t) = 5"
| "key_index KActiveTreeId = 6"
| "key_index KTreeCount = 7"
| "key_index (KRegCommitment i) = 8"
| "key_index (KRegFrontier l) = 9"
| "key_index KRegRoot = 10"
| "key_index KRegNextIndex = 11"
| "key_index (KCommitmentUsed c) = 12"
| "key_index (KRegCommitmentUsed c) = 13"
| "key_index (KNullifier n) = 14"
| "key_index KParams = 15"
| "key_index (KVK n) = 16"
| "key_index (KAuditorData h) = 17"

lemma store_prefixes_distinct: "distinct store_prefixes"
  by code_simp

lemma skey_prefix_nth: "skey_prefix k = store_prefixes ! key_index k"
  by (cases k) (simp_all add: store_prefixes_def)

lemma key_index_prefix: "skey_prefix k = skey_prefix k' \<Longrightarrow> key_index k = key_index k'"
proof -
  have "key_index x < length store_prefixes" for x
    by (cases x) (simp_all add: store_prefixes_def)
  then show "skey_prefix k = skey_prefix k' \<Longrightarrow> key_index k = key_index k'"
    by (simp add: skey_prefix_nth nth_eq_iff_index_eq store_prefixes_distinct)
qed

lemma skey_same_prefix:
  "skey_prefix k = skey_prefix k' \<Longrightarrow> skey_suffix k = skey_suffix k' \<Longrightarrow> k = k'"
proof -
  assume p: "skey_prefix k = skey_prefix k'" and s: "skey_suffix k = skey_suffix k'"
  from p have "key_index k = key_index k'" by (rule key_index_prefix)
  with s show "k = k'" by (cases k; cases k') simp_all
qed

lemma skey_bytes_inj [simp]: "skey_bytes k = skey_bytes k' \<longleftrightarrow> k = k'"
proof
  assume eq: "skey_bytes k = skey_bytes k'"
  have "skey_prefix k = skey_prefix k'"
  proof (rule ccontr)
    assume ne: "skey_prefix k \<noteq> skey_prefix k'"
    then have "skey_bytes k \<noteq> skey_bytes k'"
      unfolding skey_bytes_def
      by (intro bytes_of_append_clash skey_prefix_clash) simp_all
    with eq show False by simp
  qed
  with eq show "k = k'"
    by (intro skey_same_prefix) (simp_all add: skey_bytes_def)
qed simp

text \<open>A prefix of the store selects exactly the slots placed under it.\<close>

lemma prefix_skey_bytes:
  assumes "p \<in> set store_prefixes" and "prefix (bytes_of p) (skey_bytes k)"
  shows "skey_prefix k = p"
proof (rule ccontr)
  assume ne: "skey_prefix k \<noteq> p"
  from assms(2) obtain z where z: "skey_bytes k = bytes_of p @ z" by (auto simp: prefix_def)
  have "\<not> prefix (skey_prefix k) p" "\<not> prefix p (skey_prefix k)"
    using store_prefixes_free skey_prefix_in [of k] assms(1) ne by (auto simp: list_all_iff)
  from bytes_of_append_clash [OF this] z show False by (simp add: skey_bytes_def)
qed

lemma prefix_skey_bytes_self: "prefix (bytes_of (skey_prefix k)) (skey_bytes k)"
  by (simp add: skey_bytes_def)

text \<open>Every Go key constructor builds the key of its slot: the form the proofs compute with.\<close>

lemma key_simps [simp]:
  "ActiveTreeIdKey = skey_bytes KActiveTreeId"
  "TreeCountKey = skey_bytes KTreeCount"
  "RegRootKeyBytes = skey_bytes KRegRoot"
  "RegNextIndexKeyBytes = skey_bytes KRegNextIndex"
  "ParamsKeyBytes = skey_bytes KParams"
  "CommitmentKey t i = skey_bytes (KCommitment t i)"
  "FrontierKey t l = skey_bytes (KFrontier t l)"
  "RootHistoryKey t i = skey_bytes (KRootHistory t i)"
  "TreeRootKey t = skey_bytes (KTreeRoot t)"
  "RootIndexKey r = skey_bytes (KRootIndex (SetBytes r))"
  "TreeNextIndexKey t = skey_bytes (KTreeNextIndex t)"
  "RegCommitmentKey i = skey_bytes (KRegCommitment i)"
  "RegFrontierKey l = skey_bytes (KRegFrontier l)"
  "CommitmentUsedKey c = skey_bytes (KCommitmentUsed (SetBytes c))"
  "RegCommitmentUsedKey c = skey_bytes (KRegCommitmentUsed (SetBytes c))"
  "NullifierKey n = skey_bytes (KNullifier (SetBytes n))"
  "VKKey nm = skey_bytes (KVK nm)"
  "AuditorDataKey h = skey_bytes (KAuditorData h)"
  by (simp_all add: skey_bytes_def copyBytes_def appendUint64_def appendUint32_def
    appendBytes_def CanonicalFieldBytes_def ActiveTreeIdKey_def TreeCountKey_def
    RegRootKeyBytes_def RegNextIndexKeyBytes_def ParamsKeyBytes_def CommitmentKey_def
    FrontierKey_def RootHistoryKey_def TreeRootKey_def RootIndexKey_def TreeNextIndexKey_def
    RegCommitmentKey_def RegFrontierKey_def CommitmentUsedKey_def RegCommitmentUsedKey_def
    NullifierKey_def VKKey_def AuditorDataKey_def)

subsection \<open>Canonical field bytes\<close>

lemma CanonicalFieldBytes_eq: "CanonicalFieldBytes b = frBytes (SetBytes b)"
  by (simp add: CanonicalFieldBytes_def)

lemma length_CanonicalFieldBytes [simp]: "length (CanonicalFieldBytes b) = 32"
  by (simp add: CanonicalFieldBytes_eq)

lemma residue_class: "n mod p = v \<Longrightarrow> n = v + n div p * p" for n p v :: nat
  by (metis mod_div_mult_eq)

lemma residue_inj: "0 < p \<Longrightarrow> inj_on (\<lambda>k. v + k * p) A" for p v :: nat
  by (rule inj_onI) simp

lemma encodings_bound:
  assumes "0 \<le> v" "v < fr_modulus"
  shows "v + z * fr_modulus < 2 ^ 256 \<longleftrightarrow> z < (if v < 2 ^ 256 - 5 * fr_modulus then 6 else 5)"
proof -
  consider "z \<le> 4" | "z = 5" | "6 \<le> z" by linarith
  then show ?thesis using assms unfolding fr_modulus_def by cases auto
qed

text \<open>A field element has five or six encodings of 32 bytes.\<close>

lemma card_encodings:
  "card {b. length b = 32 \<and> CanonicalFieldBytes b = frBytes x} =
     (if fr_val x < 2 ^ 256 - 5 * fr_modulus then 6 else 5)"
proof -
  let ?v = "nat (fr_val x)" and ?p = "nat fr_modulus"
  let ?N = "{n. n < (256 :: nat) ^ 32 \<and> n mod ?p = ?v}"
  have v: "?v < ?p" by (simp add: nat_less_iff)
  have p: "0 < ?p" by simp
  have eq: "CanonicalFieldBytes b = frBytes x \<longleftrightarrow> be_nat b mod ?p = ?v" for b
  proof -
    have "CanonicalFieldBytes b = frBytes x \<longleftrightarrow> fr_val (SetBytes b) = fr_val x"
      by (simp add: CanonicalFieldBytes_eq fr_val_inject)
    also have "\<dots> \<longleftrightarrow> int (be_nat b mod ?p) = int ?v"
      by (simp add: fr_val_SetBytes zmod_int less_imp_le [OF fr_modulus_pos])
    finally show ?thesis by (simp only: of_nat_eq_iff)
  qed
  have lt: "be_nat b < 256 ^ 32" if "length b = 32" for b :: bytes
    using be_nat_less [of b] that by metis
  have "bij_betw be_nat {b. length b = 32 \<and> CanonicalFieldBytes b = frBytes x} ?N"
  proof (rule bij_betw_byWitness [where f' = "be_bytes 32"])
    show "be_nat ` {b. length b = 32 \<and> CanonicalFieldBytes b = frBytes x} \<subseteq> ?N"
      using lt by (auto simp: eq)
    show "be_bytes 32 ` ?N \<subseteq> {b. length b = 32 \<and> CanonicalFieldBytes b = frBytes x}"
      by (auto simp: eq be_nat_be_bytes)
  qed (auto simp: be_nat_be_bytes, metis be_bytes_be_nat)
  then have "card {b. length b = 32 \<and> CanonicalFieldBytes b = frBytes x} = card ?N"
    by (rule bij_betw_same_card)
  also have "?N = (\<lambda>k. ?v + k * ?p) ` {k. ?v + k * ?p < 256 ^ 32}"
  proof (intro set_eqI iffI)
    fix n assume n: "n \<in> ?N"
    then have "n mod ?p = ?v" by blast
    then have "n = ?v + (n div ?p) * ?p" by (rule residue_class)
    moreover have "n < 256 ^ 32" using n by blast
    ultimately have "n div ?p \<in> {k. ?v + k * ?p < 256 ^ 32}" by (metis mem_Collect_eq)
    then show "n \<in> (\<lambda>k. ?v + k * ?p) ` {k. ?v + k * ?p < 256 ^ 32}"
      using \<open>n = ?v + (n div ?p) * ?p\<close> by (rule rev_image_eqI)
  qed (use v in auto)
  also have "card \<dots> = card {k. ?v + k * ?p < 256 ^ 32}"
    by (rule card_image [OF residue_inj]) (rule p)
  also have "{k. ?v + k * ?p < 256 ^ 32} = {..< (if fr_val x < 2 ^ 256 - 5 * fr_modulus then 6 else 5)}"
  proof -
    have le: "fr_val x < fr_modulus" "0 \<le> fr_val x" by simp_all
    have k: "?v + k * ?p < 256 ^ 32 \<longleftrightarrow> fr_val x + int k * fr_modulus < 2 ^ 256" for k
    proof -
      have "?v + k * ?p < 256 ^ 32 \<longleftrightarrow> int (?v + k * ?p) < int (256 ^ 32)" by (simp only: of_nat_less_iff)
      then show ?thesis by (simp add: fr_modulus_def)
    qed
    have "?v + k * ?p < 256 ^ 32 \<longleftrightarrow>
        k < (if fr_val x < 2 ^ 256 - 5 * fr_modulus then 6 else 5)" for k
      unfolding k encodings_bound [OF le(2,1)] by simp
    then show ?thesis by (simp only: lessThan_def)
  qed
  finally show ?thesis by simp
qed

end
