(* ===== verification/Types.thy ===== *)
theory Types
  imports Keys
begin

section \<open>Data types: parameters, messages, genesis\<close>

text \<open>
  The structs the messages of \<open>proto/\<close> generate (\<open>types/*.pb.go\<close>) and the hand-written
  \<open>types/params.go\<close> and \<open>types/genesis.go\<close>.  A slice field is a list; a slice of the
  genesis state that is stored as it is, where a nil slice makes a difference, is an \<open>option\<close>.
\<close>

record params =
  TreeDepth :: u32
  RegTreeDepth :: u32
  AuditorPubKey :: bytes
  SupportedDenoms :: "string list"
  ChainBinding :: bytes

definition DefaultTreeDepth :: u32 where
  "DefaultTreeDepth = 20"

definition DefaultRegTreeDepth :: u32 where
  "DefaultRegTreeDepth = 20"

definition DefaultParams :: params where
  "DefaultParams =
     \<lparr>TreeDepth = DefaultTreeDepth, RegTreeDepth = DefaultRegTreeDepth, AuditorPubKey = [],
      SupportedDenoms = [''anix''], ChainBinding = []\<rparr>"

definition Params_Validate :: "params \<Rightarrow> err + unit" where
  "Params_Validate p =
     (if TreeDepth p = 0 \<or> TreeDepth p > 40 then Inl (Nix ErrInvalidCommitment)
      else if RegTreeDepth p = 0 \<or> RegTreeDepth p > 40 then Inl (Nix ErrInvalidCommitment)
      else if length (AuditorPubKey p) \<noteq> 0 \<and> length (AuditorPubKey p) \<noteq> 64
        then Inl (Nix ErrInvalidPublicInputs)
      else if length (ChainBinding p) > 32 then Inl (Nix ErrInvalidPublicInputs)
      else Inr ())"

lemma Params_Validate_iff:
  "Params_Validate p = Inr () \<longleftrightarrow>
     1 \<le> TreeDepth p \<and> TreeDepth p \<le> 40 \<and> 1 \<le> RegTreeDepth p \<and> RegTreeDepth p \<le> 40 \<and>
     (AuditorPubKey p = [] \<or> length (AuditorPubKey p) = 64) \<and> length (ChainBinding p) \<le> 32"
proof -
  have nz: "1 \<le> x \<longleftrightarrow> \<not> x = 0" for x :: u32
    by (simp add: word_le_nat_alt Suc_le_eq unat_gt_0)
  have chain: "(if a then Inl x else if b then Inl y else if c then Inl z else if d then Inl w
      else Inr ()) = Inr () \<longleftrightarrow> \<not> a \<and> \<not> b \<and> \<not> c \<and> \<not> d" for a b c d and x y z w :: err
    by simp
  show ?thesis
    unfolding Params_Validate_def chain nz by (simp add: not_less conj_assoc)
qed

lemma DefaultParams_valid [simp]: "Params_Validate DefaultParams = Inr ()"
  by (simp add: Params_Validate_def DefaultParams_def DefaultTreeDepth_def
      DefaultRegTreeDepth_def)

subsection \<open>Messages\<close>

record MsgRegister =
  reg_Sender :: string
  reg_IdentityCommitment :: bytes
  reg_Proof :: bytes
  reg_PublicInputs :: bytes
  reg_AuditorEncryptedData :: bytes

record MsgDeposit =
  dep_Sender :: string
  dep_Denom :: string
  dep_Amount :: string
  dep_NoteCommitment :: bytes
  dep_Proof :: bytes
  dep_PublicInputs :: bytes
  dep_AuditorEncryptedData :: bytes

record OutputNote =
  NoteHash :: bytes
  EphemeralX :: bytes
  EphemeralY :: bytes
  EncAmount :: bytes
  EncSalt :: bytes
  AuditorEnc :: bytes
  AuditorAuthKeyX :: bytes
  AuditorAuthKeyY :: bytes
  AuditorEncRecipient :: bytes

record MsgTransact =
  tx_Sender :: string
  Nullifiers :: "bytes list"
  MerkleRoots :: "bytes list"
  Outputs :: "OutputNote list"
  WithdrawAmount :: string
  WithdrawAddress :: string
  tx_Denom :: string
  RegistrationRoot :: bytes
  RelayerFee :: string
  tx_Proof :: bytes

record MsgUpdateParams =
  up_Authority :: string
  up_Params :: "params option"

record MsgSetVerificationKey =
  svk_Authority :: string
  CircuitName :: string
  VkData :: bytes

subsection \<open>Genesis\<close>

record TreeState =
  ts_TreeId :: u64
  ts_Commitments :: "bytes option list"
  ts_Frontier :: "bytes option list"
  ts_NextIndex :: u64
  ts_MerkleRoot :: bytes
  ts_RootHistory :: "bytes list"

record GenesisState =
  gs_Params :: "params option"
  gs_Trees :: "TreeState list"
  gs_ActiveTreeId :: u64
  gs_TreeCount :: u64
  gs_RegCommitments :: "bytes option list"
  gs_RegFrontier :: "bytes option list"
  gs_RegNextIndex :: u64
  gs_RegMerkleRoot :: bytes
  gs_Nullifiers :: "bytes list"
  gs_AuditorData :: "(bytes \<times> bytes option) list"
  gs_CommitmentsUsed :: "bytes list"
  gs_VerificationKeys :: "(string \<times> bytes) list"

definition DefaultGenesisState :: GenesisState where
  "DefaultGenesisState =
     \<lparr>gs_Params = Some DefaultParams, gs_Trees = [], gs_ActiveTreeId = 0, gs_TreeCount = 0,
      gs_RegCommitments = [], gs_RegFrontier = [], gs_RegNextIndex = 0, gs_RegMerkleRoot = [],
      gs_Nullifiers = [], gs_AuditorData = [], gs_CommitmentsUsed = [],
      gs_VerificationKeys = []\<rparr>"

definition TreeState_Validate :: "TreeState \<Rightarrow> err + unit" where
  "TreeState_Validate t =
     (if (of_nat (length (ts_Commitments t)) :: u64) \<noteq> ts_NextIndex t
        then Inl (Std ''commitments length does not match next_index'')
      else if \<exists>c \<in> set (ts_Commitments t). length (slice c) \<noteq> 32
        then Inl (Std ''commitment: expected 32 bytes'')
      else Inr ())"

fun validate_all :: "('x \<Rightarrow> err + unit) \<Rightarrow> 'x list \<Rightarrow> err + unit" where
  "validate_all f [] = Inr ()"
| "validate_all f (x # xs) = bindE (f x) (\<lambda>_. validate_all f xs)"

definition GenesisState_Validate :: "GenesisState \<Rightarrow> err + unit" where
  "GenesisState_Validate gs =
     bindE (case gs_Params gs of None \<Rightarrow> Inr () | Some p \<Rightarrow> Params_Validate p) (\<lambda>_.
     bindE (validate_all TreeState_Validate (gs_Trees gs)) (\<lambda>_.
     bindE (guardE ((of_nat (length (gs_RegCommitments gs)) :: u64) = gs_RegNextIndex gs)
        (Std ''reg_commitments length does not match reg_next_index'')) (\<lambda>_.
     bindE (validate_all (\<lambda>c. guardE (length (slice c) = 32) (Std ''reg_commitment: expected 32 bytes''))
        (gs_RegCommitments gs)) (\<lambda>_.
     bindE (validate_all (\<lambda>n. guardE (length n = 32) (Std ''nullifier: expected 32 bytes''))
        (gs_Nullifiers gs)) (\<lambda>_.
     bindE (validate_all (\<lambda>c. guardE (length c = 32) (Std ''commitment_used: expected 32 bytes''))
        (gs_CommitmentsUsed gs)) (\<lambda>_.
     validate_all (\<lambda>(name, data).
        if name = [] then Inl (Std ''empty circuit name'')
        else if length data = 0 then Inl (Std ''empty vk data'')
        else Inr ()) (gs_VerificationKeys gs)))))))"

lemma validate_all_iff: "validate_all f xs = Inr () \<longleftrightarrow> (\<forall>x \<in> set xs. f x = Inr ())"
  by (induction xs) (auto simp: bindE_Inr_iff)

lemma TreeState_Validate_iff:
  "TreeState_Validate t = Inr () \<longleftrightarrow>
     of_nat (length (ts_Commitments t)) = ts_NextIndex t \<and>
     (\<forall>c \<in> set (ts_Commitments t). length (slice c) = 32)"
  by (auto simp: TreeState_Validate_def)

subsection \<open>Events\<close>

record event =
  ev_type :: string
  ev_attrs :: "(string \<times> string) list"

definition EventTypeDeposit :: string where "EventTypeDeposit = ''nixpool_deposit''"
definition EventTypeTransact :: string where "EventTypeTransact = ''nixpool_transact''"
definition EventTypeRegister :: string where "EventTypeRegister = ''nixpool_register''"
definition AttributeKeyCommitment :: string where "AttributeKeyCommitment = ''commitment''"
definition AttributeKeyNullifier :: string where "AttributeKeyNullifier = ''nullifier''"
definition AttributeKeyMerkleRoot :: string where "AttributeKeyMerkleRoot = ''merkle_root''"
definition AttributeKeyLeafIndex :: string where "AttributeKeyLeafIndex = ''leaf_index''"
definition AttributeKeyTreeId :: string where "AttributeKeyTreeId = ''tree_id''"
definition AttributeKeyWithdrawAmount :: string where
  "AttributeKeyWithdrawAmount = ''withdraw_amount''"
definition AttributeKeyWithdrawAddr :: string where
  "AttributeKeyWithdrawAddr = ''withdraw_address''"
definition AttributeKeyRelayerFee :: string where "AttributeKeyRelayerFee = ''relayer_fee''"

end
