(* ===== verification/KVStore.thy ===== *)
theory KVStore
  imports Keys "HOL-Library.RBT"
begin

section \<open>The key-value store\<close>

text \<open>
  The keeper works on the interface \<open>store.KVStore\<close>.  The repository's own implementation of
  it is \<open>memStore\<close> of \<open>keeper/doublespend_test.go\<close>: a map from keys to byte slices whose
  iterator visits the keys in ascending byte order.  The model is that map, as a search tree;
  a value is a Go slice, \<open>None\<close> being the nil slice.  \<open>memStore\<close> also turns an empty value
  into nil; no operation of the keeper can tell the two apart but \<open>Get\<close>'s nil test, and the
  keeper never stores an empty value it later tests, so the model keeps empty values.  The
  documented contract of the interface says instead that \<open>Set\<close> fails on a nil value; which of
  the two holds is the parameter \<open>nil_ok\<close> of \<open>kv_set_slice\<close>, used where a value can be nil.
\<close>

type_synonym store = "(bytes, bytes option) RBT.rbt"

definition kv_empty :: store where
  "kv_empty = RBT.empty"

definition kv_get :: "store \<Rightarrow> bytes \<Rightarrow> bytes option" where
  "kv_get s k = (case RBT.lookup s k of None \<Rightarrow> None | Some v \<Rightarrow> v)"

definition kv_has :: "store \<Rightarrow> bytes \<Rightarrow> bool" where
  "kv_has s k = (RBT.lookup s k \<noteq> None)"

definition kv_set :: "bytes \<Rightarrow> bytes \<Rightarrow> store \<Rightarrow> store" where
  "kv_set k v s = RBT.insert k (Some v) s"

definition kv_set_slice :: "bool \<Rightarrow> bytes \<Rightarrow> bytes option \<Rightarrow> store \<Rightarrow> err + store" where
  "kv_set_slice nil_ok k v s =
     (case v of
        Some b \<Rightarrow> Inr (kv_set k b s)
      | None \<Rightarrow> if nil_ok then Inr (RBT.insert k None s) else Inl (Ext ''value is nil''))"

definition kv_delete :: "bytes \<Rightarrow> store \<Rightarrow> store" where
  "kv_delete k s = RBT.delete k s"

text \<open>The pairs with a key in \<open>[start, end)\<close>, in ascending order of the keys.\<close>

definition kv_iterator :: "bytes \<Rightarrow> bytes \<Rightarrow> store \<Rightarrow> (bytes \<times> bytes option) list" where
  "kv_iterator start end s = filter (\<lambda>(k, v). \<not> k < start \<and> \<not> k \<ge> end) (RBT.entries s)"

text \<open>\<open>Get\<close> of an eight-byte counter; a key never written reads as 0.\<close>

definition kv_u64 :: "store \<Rightarrow> bytes \<Rightarrow> err + u64" where
  "kv_u64 s k = (case kv_get s k of None \<Rightarrow> Inr 0 | Some bz \<Rightarrow> dec64 bz)"

subsection \<open>The interface and its laws\<close>

locale kv_interface =
  fixes get :: "'s \<Rightarrow> 'k \<Rightarrow> 'v option"
    and has :: "'s \<Rightarrow> 'k \<Rightarrow> bool"
    and put :: "'k \<Rightarrow> 'v \<Rightarrow> 's \<Rightarrow> 's"
    and del :: "'k \<Rightarrow> 's \<Rightarrow> 's"
  assumes get_put: "get (put k v s) k' = (if k' = k then Some v else get s k')"
    and has_put: "has (put k v s) k' \<longleftrightarrow> k' = k \<or> has s k'"
    and get_del: "get (del k s) k' = (if k' = k then None else get s k')"
    and has_del: "has (del k s) k' \<longleftrightarrow> k' \<noteq> k \<and> has s k'"
begin

text \<open>Bulk writes: the last write of a key wins, other keys keep their value.\<close>

lemma get_put_all:
  "get (fold (\<lambda>(k, v). put k v) kvs s) k =
     (case map_of (rev kvs) k of None \<Rightarrow> get s k | Some v \<Rightarrow> Some v)"
proof (induction kvs arbitrary: s)
  case Nil
  then show ?case by simp
next
  case (Cons kv kvs)
  obtain k' v' where kv: "kv = (k', v')" by (cases kv)
  show ?case
    by (simp add: kv Cons.IH get_put map_add_def split: option.split)
qed

lemma has_put_all:
  "has (fold (\<lambda>(k, v). put k v) kvs s) k \<longleftrightarrow> k \<in> fst ` set kvs \<or> has s k"
  by (induction kvs arbitrary: s) (auto simp: has_put split: prod.splits)

text \<open>Bulk deletion.\<close>

lemma get_del_all: "get (fold del ks s) k = (if k \<in> set ks then None else get s k)"
  by (induction ks arbitrary: s) (auto simp: get_del)

lemma has_del_all: "has (fold del ks s) k \<longleftrightarrow> k \<notin> set ks \<and> has s k"
  by (induction ks arbitrary: s) (auto simp: has_del)

end

lemma kv_get_set [simp]: "kv_get (kv_set k v s) k' = (if k' = k then Some v else kv_get s k')"
  by (simp add: kv_get_def kv_set_def)

lemma kv_has_set [simp]: "kv_has (kv_set k v s) k' \<longleftrightarrow> k' = k \<or> kv_has s k'"
  by (simp add: kv_has_def kv_set_def)

lemma kv_get_delete [simp]: "kv_get (kv_delete k s) k' = (if k' = k then None else kv_get s k')"
  by (simp add: kv_get_def kv_delete_def restrict_map_def)

lemma kv_has_delete [simp]: "kv_has (kv_delete k s) k' \<longleftrightarrow> k' \<noteq> k \<and> kv_has s k'"
  by (simp add: kv_has_def kv_delete_def restrict_map_def)

lemma kv_get_empty [simp]: "kv_get kv_empty k = None"
  by (simp add: kv_get_def kv_empty_def)

lemma kv_has_empty [simp]: "\<not> kv_has kv_empty k"
  by (simp add: kv_has_def kv_empty_def)

interpretation kv: kv_interface kv_get kv_has kv_set kv_delete
  by unfold_locales simp_all

lemma kv_u64_set [simp]:
  "kv_u64 (kv_set k v s) k' = (if k' = k then dec64 v else kv_u64 s k')"
  by (simp add: kv_u64_def)

lemma kv_u64_delete_other [simp]: "k' \<noteq> k \<Longrightarrow> kv_u64 (kv_delete k s) k' = kv_u64 s k'"
  by (simp add: kv_u64_def)

lemma kv_u64_empty [simp]: "kv_u64 kv_empty k = Inr 0"
  by (simp add: kv_u64_def)

subsection \<open>The iterator\<close>

lemma kv_lookup_has: "kv_has s k \<longleftrightarrow> k \<in> fst ` set (RBT.entries s)"
proof -
  have "kv_has s k \<longleftrightarrow> (\<exists>v. (k, v) \<in> set (RBT.entries s))"
    by (simp add: kv_has_def flip: RBT.lookup_in_tree)
  then show ?thesis by force
qed

lemma kv_iterator_key:
  "k \<in> fst ` set (kv_iterator a b s) \<longleftrightarrow> kv_has s k \<and> a \<le> k \<and> k < b"
  by (force simp: kv_iterator_def kv_lookup_has not_less not_le)

lemma kv_iterator_val:
  "(k, v) \<in> set (kv_iterator a b s) \<Longrightarrow> kv_get s k = v"
  unfolding kv_iterator_def kv_get_def
  by (auto simp flip: RBT.lookup_in_tree)

lemma kv_iterator_distinct: "distinct (map fst (kv_iterator a b s))"
  unfolding kv_iterator_def by (rule distinct_map_filter) (rule RBT.distinct_entries)

lemma kv_iterator_sorted: "sorted (map fst (kv_iterator a b s))"
  unfolding kv_iterator_def by (rule sorted_filter) (simp add: RBT.sorted_entries)

lemma kv_get_not_has: "\<not> kv_has s k \<Longrightarrow> kv_get s k = None"
  by (simp add: kv_has_def kv_get_def)

subsection \<open>Which slots a call touches\<close>

text \<open>
  \<open>touches K s t\<close>: from \<open>s\<close> to \<open>t\<close> only slots in \<open>K\<close> changed, and no key was added that is not
  the key of a slot.  Every keeper method has a lemma of this form; what the other components
  read is then unchanged.
\<close>

definition touches :: "skey set \<Rightarrow> store \<Rightarrow> store \<Rightarrow> bool" where
  "touches K s t \<longleftrightarrow>
     (\<forall>k. k \<notin> K \<longrightarrow> kv_get t (skey_bytes k) = kv_get s (skey_bytes k) \<and>
          kv_has t (skey_bytes k) = kv_has s (skey_bytes k)) \<and>
     (\<forall>b. b \<notin> range skey_bytes \<longrightarrow> kv_has t b \<longrightarrow> kv_has s b)"

text \<open>Every key of the store is the key of a slot.\<close>

definition slots_only :: "store \<Rightarrow> bool" where
  "slots_only s \<longleftrightarrow> (\<forall>b. kv_has s b \<longrightarrow> b \<in> range skey_bytes)"

interpretation touch: step_relation "touches K" for K
  by unfold_locales (auto simp: touches_def)

lemma touches_get: "touches K s t \<Longrightarrow> k \<notin> K \<Longrightarrow> kv_get t (skey_bytes k) = kv_get s (skey_bytes k)"
  by (simp add: touches_def)

lemma touches_has: "touches K s t \<Longrightarrow> k \<notin> K \<Longrightarrow> kv_has t (skey_bytes k) = kv_has s (skey_bytes k)"
  by (simp add: touches_def)

lemma touches_u64: "touches K s t \<Longrightarrow> k \<notin> K \<Longrightarrow> kv_u64 t (skey_bytes k) = kv_u64 s (skey_bytes k)"
  by (simp add: touches_get kv_u64_def)

lemma touches_mono: "touches K s t \<Longrightarrow> K \<subseteq> L \<Longrightarrow> touches L s t"
  by (auto simp: touches_def)

lemma touches_slots_only: "touches K s t \<Longrightarrow> slots_only s \<Longrightarrow> slots_only t"
  by (auto simp: touches_def slots_only_def)

lemma slots_only_empty [simp]: "slots_only kv_empty"
  by (simp add: slots_only_def)

lemma stable_touches_mono: "stable (touches K) m \<Longrightarrow> K \<subseteq> L \<Longrightarrow> stable (touches L) m"
  by (auto simp: stable_def intro: touches_mono)

lemma touches_set [simp]: "k \<in> K \<Longrightarrow> touches K s (kv_set (skey_bytes k) v s)"
  by (auto simp: touches_def)

lemma touches_delete [simp]: "k \<in> K \<Longrightarrow> touches K s (kv_delete (skey_bytes k) s)"
  by (auto simp: touches_def)

lemma stable_touches_set [frame_rules]:
  "k \<in> K \<Longrightarrow> stable (touches K) (modifyM (kv_set (skey_bytes k) v))"
  by (rule touch.stable_modify) simp

lemma stable_touches_delete [frame_rules]:
  "k \<in> K \<Longrightarrow> stable (touches K) (modifyM (kv_delete (skey_bytes k)))"
  by (rule touch.stable_modify) simp

end
