(* ===== verification/Ext.thy ===== *)
theory Ext
  imports Types KVStore
begin

section \<open>What the keeper calls: the packages outside the repository\<close>

text \<open>
  Each field stands for a function of a package the repository imports but does not contain.
  The model never says what these compute; a theorem that relies on their documented behaviour
  states it as a hypothesis about the field.  \<open>'vk\<close> is the type of deserialized verification
  keys, \<open>'b\<close> the state of the bank module.
\<close>

record ('vk, 'b) ext =
  \<comment> \<open>\<open>poseidon2.Hash2\<close>, \<open>poseidon2.Hash\<close>, \<open>merkle.ZeroHash\<close>\<close>
  hash2 :: "fr \<Rightarrow> fr \<Rightarrow> fr"
  hashN :: "fr list \<Rightarrow> fr"
  zeroHash :: "u32 \<Rightarrow> fr"
  \<comment> \<open>\<open>storetypes.PrefixEndBytes\<close>, and whether \<open>Set\<close> accepts a nil value\<close>
  prefixEnd :: "bytes \<Rightarrow> bytes"
  nilValueOk :: bool
  \<comment> \<open>\<open>json.Marshal\<close> and \<open>json.Unmarshal\<close> at type \<open>Params\<close>\<close>
  marshalParams :: "params \<Rightarrow> err + bytes"
  unmarshalParams :: "bytes \<Rightarrow> err + params"
  \<comment> \<open>\<open>ultrahonk.DeserializeVK\<close>, \<open>DeserializeVKFromBarretenberg\<close>, \<open>SerializeVK\<close>, \<open>Verify\<close>\<close>
  deserializeVK :: "bytes \<Rightarrow> err + 'vk"
  deserializeBB :: "bytes \<Rightarrow> err + 'vk"
  serializeVK :: "'vk \<Rightarrow> err + bytes"
  ultraVerify :: "'vk \<Rightarrow> bytes \<Rightarrow> fr list \<Rightarrow> err + bool"
  \<comment> \<open>\<open>math.NewIntFromString\<close>, \<open>sdk.ValidateDenom\<close>, \<open>sdk.NewCoins(sdk.NewCoin(denom, amt))\<close>\<close>
  parseInt :: "string \<Rightarrow> int option"
  validateDenom :: "string \<Rightarrow> err + unit"
  newCoins :: "string \<Rightarrow> int \<Rightarrow> err + (string \<times> int) list"
  \<comment> \<open>\<open>sdk.AccAddressFromBech32\<close>, the address codec, \<open>authtypes.NewModuleAddress\<close> of the pool\<close>
  accAddress :: "string \<Rightarrow> err + bytes"
  addrToBytes :: "string \<Rightarrow> err + bytes"
  moduleAddress :: bytes
  \<comment> \<open>\<open>BankKeeper\<close>\<close>
  sendToModule :: "bytes \<Rightarrow> string \<Rightarrow> (string \<times> int) list \<Rightarrow> ('b, unit) M"
  sendFromModule :: "string \<Rightarrow> bytes \<Rightarrow> (string \<times> int) list \<Rightarrow> ('b, unit) M"
  \<comment> \<open>\<open>sha256.Sum256\<close>; the gas meter, by the charges it accepts; \<open>Keeper.authority\<close>\<close>
  sha256 :: "bytes \<Rightarrow> bytes"
  gasOk :: "(nat \<times> string) list \<Rightarrow> bool"
  authority :: bytes

text \<open>Documented behaviour a theorem may assume of the hashes: the zero subtrees of the Merkle
  package are the hashes of the zero leaf (at the levels a tree with a 64-bit index can have).\<close>

definition zero_hash_laws :: "('vk, 'b) ext \<Rightarrow> bool" where
  "zero_hash_laws E \<longleftrightarrow> zeroHash E 0 = 0 \<and>
     (\<forall>L < 64. zeroHash E (of_nat (Suc L)) = hash2 E (zeroHash E (of_nat L)) (zeroHash E (of_nat L)))"

text \<open>Documented behaviour of \<open>PrefixEndBytes\<close>: the range \<open>[p, PrefixEndBytes(p))\<close> holds exactly
  the keys with prefix \<open>p\<close> (for a non-empty prefix with a last byte below 255, as every prefix
  of \<open>types/keys.go\<close>).\<close>

definition prefix_end_law :: "('vk, 'b) ext \<Rightarrow> bool" where
  "prefix_end_law E \<longleftrightarrow>
     (\<forall>p k. p \<noteq> [] \<and> last p \<noteq> 255 \<longrightarrow> (p \<le> k \<and> k < prefixEnd E p \<longleftrightarrow> prefix p k))"

text \<open>Documented behaviour of \<open>encoding/json\<close> on a parameter set: reading back what was
  written.\<close>

definition json_law :: "('vk, 'b) ext \<Rightarrow> params \<Rightarrow> bool" where
  "json_law E p \<longleftrightarrow> (\<exists>bz. marshalParams E p = Inr bz \<and> unmarshalParams E bz = Inr p)"

end
