(* ===== verification/Keeper.thy ===== *)
theory Keeper
  imports Ext
begin

section \<open>Keeper: parameters and verification keys\<close>

text \<open>
  \<open>keeper/keeper.go\<close>.  The keeper's methods are functions of the packages it calls (\<open>ext\<close>) and
  of the store; a method that only reads is \<open>store \<Rightarrow> err + 'a\<close>, one that writes is in the
  error-state monad over the store.
\<close>

definition SetParams :: "('vk, 'b) ext \<Rightarrow> params \<Rightarrow> (store, unit) M" where
  "SetParams E p =
     bindM (liftE (marshalParams E p)) (\<lambda>bz.
     modifyM (kv_set ParamsKeyBytes bz))"

definition GetParams :: "('vk, 'b) ext \<Rightarrow> store \<Rightarrow> err + params" where
  "GetParams E s =
     (case kv_get s ParamsKeyBytes of
        None \<Rightarrow> Inr DefaultParams
      | Some bz \<Rightarrow> unmarshalParams E bz)"

definition SetVerificationKey :: "string \<Rightarrow> bytes \<Rightarrow> (store, unit) M" where
  "SetVerificationKey circuitName vkData = modifyM (kv_set (VKKey circuitName) vkData)"

definition GetVerificationKeyFromState :: "store \<Rightarrow> string \<Rightarrow> bytes option" where
  "GetVerificationKeyFromState s circuitName = kv_get s (VKKey circuitName)"

definition GetAuthority :: "('vk, 'b) ext \<Rightarrow> bytes" where
  "GetAuthority E = authority E"

lemma SetParams_Inr_iff:
  "SetParams E p s = (Inr u, s') \<longleftrightarrow>
     (\<exists>bz. marshalParams E p = Inr bz \<and> s' = kv_set ParamsKeyBytes bz s)"
  by (auto simp: SetParams_def split: sum.splits)

lemma GetParams_SetParams:
  "json_law E p \<Longrightarrow> SetParams E p s = (r, s') \<Longrightarrow> r = Inr () \<and> GetParams E s' = Inr p"
  by (auto simp: SetParams_def GetParams_def json_law_def)

text \<open>Parameters are read from one key only.\<close>

lemma GetParams_set_other [simp]:
  "k \<noteq> KParams \<Longrightarrow> GetParams E (kv_set (skey_bytes k) v s) = GetParams E s"
  by (simp add: GetParams_def)

lemma GetParams_delete_other [simp]:
  "k \<noteq> KParams \<Longrightarrow> GetParams E (kv_delete (skey_bytes k) s) = GetParams E s"
  by (simp add: GetParams_def)

lemma GetVK_set_other [simp]:
  "k \<noteq> KVK n \<Longrightarrow>
     GetVerificationKeyFromState (kv_set (skey_bytes k) v s) n = GetVerificationKeyFromState s n"
  by (simp add: GetVerificationKeyFromState_def)

lemma GetVK_SetVK [simp]:
  "GetVerificationKeyFromState (snd (SetVerificationKey n d s)) n' =
     (if n' = n then Some d else GetVerificationKeyFromState s n')"
  by (simp add: GetVerificationKeyFromState_def SetVerificationKey_def)

end
