(* ===== verification/Text.thy ===== *)
theory Text
  imports Prelude "HOL-Library.Sublist"
begin

section \<open>Text: hexadecimal, decimal, splitting, trimming\<close>

text \<open>
  The functions of \<open>fmt\<close>, \<open>encoding/hex\<close> and \<open>strings\<close> the repository uses.  A Go string is a
  sequence of bytes, a HOL string a list of bytes seen as characters.
\<close>

text \<open>\<open>fmt.Errorf\<close> with \<open>%w\<close>: the error is replaced, a panic is not.\<close>

definition rewrapE :: "string \<Rightarrow> err + 'a \<Rightarrow> err + 'a" where
  "rewrapE t r = (case r of Inl e \<Rightarrow> Inl (if is_panic e then e else Std t) | Inr v \<Rightarrow> Inr v)"

lemma rewrapE_Inr [simp]: "rewrapE t r = Inr v \<longleftrightarrow> r = Inr v"
  by (cases r) (simp_all add: rewrapE_def)

subsection \<open>Encodings that are read back\<close>

text \<open>What a client of an encoding relies on: reading gives back what was written.  Then different
  values have different encodings, and a list can be read element by element.\<close>

locale codec =
  fixes enc :: "'a \<Rightarrow> 'w" and dec :: "'w \<Rightarrow> err + 'a"
  assumes dec_enc: "dec (enc x) = Inr x"
begin

lemma enc_inj: "enc x = enc y \<longleftrightarrow> x = y"
  by (metis dec_enc sum.inject(2))

lemma dec_all: "mapE dec (map enc xs) = Inr xs"
  by (induction xs) (simp_all add: dec_enc)

end

interpretation be64Codec: codec be64 dec64
  by unfold_locales simp

subsection \<open>Printing: \<open>%x\<close>, \<open>%d\<close>, \<open>%064x\<close>\<close>

definition hex_digit :: "nat \<Rightarrow> char" where
  "hex_digit n = ''0123456789abcdef'' ! n"

definition fmt_hex :: "bytes \<Rightarrow> string" where
  "fmt_hex bs = concat (map (\<lambda>b. [hex_digit (unat b div 16), hex_digit (unat b mod 16)]) bs)"

fun fmt_nat :: "nat \<Rightarrow> string" where
  "fmt_nat n = (if n < 10 then [hex_digit n] else fmt_nat (n div 10) @ [hex_digit (n mod 10)])"

declare fmt_nat.simps [simp del]

text \<open>\<open>%064x\<close> of a byte slice: at least 64 digits, zeros in front.\<close>

definition fmt_hex64 :: "bytes \<Rightarrow> string" where
  "fmt_hex64 bs = replicate (64 - length (fmt_hex bs)) CHR ''0'' @ fmt_hex bs"

lemma fmt_hex_simps [simp]:
  "fmt_hex [] = []"
  "fmt_hex (b # bs) = hex_digit (unat b div 16) # hex_digit (unat b mod 16) # fmt_hex bs"
  "fmt_hex (xs @ ys) = fmt_hex xs @ fmt_hex ys"
  by (simp_all add: fmt_hex_def)

lemma length_fmt_hex [simp]: "length (fmt_hex bs) = 2 * length bs"
  by (induction bs) simp_all

lemma fmt_hex64_32 [simp]: "length bs = 32 \<Longrightarrow> fmt_hex64 bs = fmt_hex bs"
  by (simp add: fmt_hex64_def)

subsection \<open>Reading digits\<close>

definition digit_val :: "char \<Rightarrow> nat option" where
  "digit_val c = (let n = of_char c :: nat in
     if 48 \<le> n \<and> n \<le> 57 then Some (n - 48)
     else if 97 \<le> n \<and> n \<le> 102 then Some (n - 97 + 10)
     else if 65 \<le> n \<and> n \<le> 70 then Some (n - 65 + 10)
     else None)"

text \<open>\<open>hex.DecodeString\<close>: two digits a byte, an error on a byte that is no digit and on an odd
  length.\<close>

fun hexDecode :: "string \<Rightarrow> err + bytes" where
  "hexDecode [] = Inr []"
| "hexDecode [c] = Inl (Ext (case digit_val c of None \<Rightarrow> ''encoding/hex: invalid byte''
     | Some v \<Rightarrow> ''encoding/hex: odd length hex string''))"
| "hexDecode (c # d # cs) =
     (case (digit_val c, digit_val d) of
        (Some h, Some l) \<Rightarrow> bindE (hexDecode cs) (\<lambda>bs. Inr (of_nat (16 * h + l) # bs))
      | _ \<Rightarrow> Inl (Ext ''encoding/hex: invalid byte''))"

lemma digit_val_less: "digit_val c = Some n \<Longrightarrow> n < 16"
  by (auto simp: digit_val_def Let_def split: if_splits)

lemma digit_val_hex_digit [simp]: "n < 16 \<Longrightarrow> digit_val (hex_digit n) = Some n"
proof -
  have "list_all (\<lambda>n. digit_val (hex_digit n) = Some n) [0..<16]"
    by (simp add: upt_rec hex_digit_def digit_val_def)
  then show "n < 16 \<Longrightarrow> ?thesis" by (simp add: list_all_iff)
qed

lemma byte_digits:
  fixes b :: byte
  shows "unat b div 16 < 16" "unat b mod 16 < 16" "16 * (unat b div 16) + unat b mod 16 = unat b"
proof -
  have "unat b < 256" using unsigned_less [of b] by simp
  then show "unat b div 16 < 16" by simp
qed simp_all

lemma hexDecode_fmt_hex [simp]: "hexDecode (fmt_hex bs) = Inr bs"
  by (induction bs) (simp_all add: byte_digits)

interpretation hexCodec: codec fmt_hex hexDecode
  by unfold_locales simp

text \<open>What \<open>hexDecode\<close> accepts: as many digits as twice the bytes, and they are the number of
  those bytes.\<close>

definition is_hex :: "string \<Rightarrow> bool" where
  "is_hex s \<longleftrightarrow> (\<forall>c \<in> set s. digit_val c \<noteq> None)"

definition hex_num :: "string \<Rightarrow> nat" where
  "hex_num s = foldl (\<lambda>a c. a * 16 + the (digit_val c)) 0 s"

lemma is_hex_simps [simp]:
  "is_hex []" "is_hex (c # s) \<longleftrightarrow> digit_val c \<noteq> None \<and> is_hex s" "is_hex (s @ t) \<longleftrightarrow> is_hex s \<and> is_hex t"
  by (auto simp: is_hex_def)

lemma is_hex_fmt_hex [simp]: "is_hex (fmt_hex bs)"
  by (induction bs) (simp_all add: byte_digits)

lemma hex_num_snoc [simp]: "hex_num (s @ [c]) = hex_num s * 16 + the (digit_val c)"
  by (simp add: hex_num_def)

lemma hex_num_Nil [simp]: "hex_num [] = 0"
  by (simp add: hex_num_def)

lemma hex_num_zeros: "hex_num (replicate n CHR ''0'' @ s) = hex_num s"
proof -
  have "digit_val CHR ''0'' = Some 0" by (simp add: digit_val_def)
  then have "foldl (\<lambda>a c. a * 16 + the (digit_val c)) 0 (replicate n CHR ''0'') = 0"
    by (induction n) simp_all
  then show ?thesis by (simp add: hex_num_def)
qed

lemma hex_num_fmt_hex [simp]: "hex_num (fmt_hex bs) = be_nat bs"
proof (induction bs rule: rev_induct)
  case (snoc b bs)
  have regroup: "16 * h + l = n \<Longrightarrow> (v * 16 + h) * 16 + l = v * 256 + n" for h l n v :: nat by simp
  have "hex_num (fmt_hex (bs @ [b])) = hex_num ((fmt_hex bs @ [hex_digit (unat b div 16)]) @ [hex_digit (unat b mod 16)])"
    by simp
  also have "\<dots> = (be_nat bs * 16 + unat b div 16) * 16 + unat b mod 16"
    using snoc by (simp only: hex_num_snoc digit_val_hex_digit byte_digits option.sel)
  also have "\<dots> = be_nat bs * 256 + unat b" using regroup [OF byte_digits(3)] .
  finally show ?case by (simp add: be_nat_snoc)
qed simp

lemma hex_num_less: "is_hex s \<Longrightarrow> hex_num s < 16 ^ length s"
proof (induction s rule: rev_induct)
  case (snoc c s)
  then obtain v where v: "digit_val c = Some v" by auto
  from digit_val_less [OF this] snoc show ?case by (simp add: v)
qed simp

lemma same_digits:
  fixes a b m :: nat
  assumes "a * m + r = b * m + s" and "r < m" "s < m"
  shows "a = b \<and> r = s"
proof -
  have "(a * m + r) div m = a" "(b * m + s) div m = b" using assms(2,3) by simp_all
  with assms(1) show ?thesis by simp
qed

lemma hex_num_Cons: "hex_num (c # s) = the (digit_val c) * 16 ^ length s + hex_num s"
  by (induction s rule: rev_induct) (simp_all add: algebra_simps flip: append_Cons, simp add: hex_num_def)

lemma hexDecode_iff:
  "hexDecode s = Inr b \<longleftrightarrow> is_hex s \<and> length s = 2 * length b \<and> be_nat b = hex_num s"
proof (induction s arbitrary: b rule: hexDecode.induct)
  case 1
  then show ?case by auto
next
  case (2 c)
  then show ?case by (auto dest: arg_cong [where f = even])
next
  case (3 c d cs)
  show ?case
  proof (cases "\<exists>h l. digit_val c = Some h \<and> digit_val d = Some l")
    case False
    then show ?thesis by (auto split: option.splits)
  next
    case True
    then obtain h l where d: "digit_val c = Some h" "digit_val d = Some l" by blast
    have IH: "hexDecode cs = Inr b' \<longleftrightarrow> is_hex cs \<and> length cs = 2 * length b' \<and> be_nat b' = hex_num cs" for b'
      by (rule 3 [OF refl d])
    let ?n = "16 * h + l"
    have n: "?n < 256" using digit_val_less [OF d(1)] digit_val_less [OF d(2)] by simp
    then have u: "unat (of_nat ?n :: byte) = ?n" by (simp add: unat_of_nat take_bit_eq_mod del: of_nat_add of_nat_mult)
    have num: "hex_num (c # d # cs) = ?n * 16 ^ length cs + hex_num cs"
      by (simp add: hex_num_Cons d algebra_simps)
    have sixteen: "(16 :: nat) ^ (2 * k) = 256 ^ k" for k by (simp add: power_mult)
    show ?thesis
    proof
      assume "hexDecode (c # d # cs) = Inr b"
      then obtain bs where bs: "hexDecode cs = Inr bs" "b = of_nat ?n # bs"
        by (auto simp: d bindE_Inr_iff)
      from IH [THEN iffD1, OF bs(1)] have "is_hex cs \<and> length cs = 2 * length bs \<and> be_nat bs = hex_num cs" .
      with bs(2) d num show "is_hex (c # d # cs) \<and> length (c # d # cs) = 2 * length b \<and>
          be_nat b = hex_num (c # d # cs)"
        by (simp add: be_nat_Cons sixteen u del: of_nat_add of_nat_mult)
    next
      assume r: "is_hex (c # d # cs) \<and> length (c # d # cs) = 2 * length b \<and> be_nat b = hex_num (c # d # cs)"
      then obtain x bs where b: "b = x # bs" by (cases b) auto
      with r have len: "length cs = 2 * length bs" by simp
      have lt: "be_nat bs < 256 ^ length bs" "hex_num cs < 256 ^ length bs"
        using be_nat_less [of bs] hex_num_less [of cs] r len by (simp_all add: sixteen)
      have eq: "unat x * 256 ^ length bs + be_nat bs = ?n * 256 ^ length bs + hex_num cs"
        using r num by (simp add: b be_nat_Cons len sixteen)
      have "unat x = ?n \<and> be_nat bs = hex_num cs" by (rule same_digits [OF eq lt])
      then have "x = of_nat ?n" "be_nat bs = hex_num cs"
        by (metis of_nat_unat ucast_id, blast)
      moreover have "hexDecode cs = Inr bs" using r len calculation by (intro IH [THEN iffD2]) simp
      ultimately show "hexDecode (c # d # cs) = Inr b"
        using d by (simp add: b del: of_nat_add of_nat_mult)
    qed
  qed
qed

lemma hex_digits_not: "is_hex s \<Longrightarrow> digit_val c = None \<Longrightarrow> c \<notin> set s"
  by (auto simp: is_hex_def)

subsection \<open>\<open>strings.Split\<close> at one byte\<close>

fun split_at :: "char \<Rightarrow> string \<Rightarrow> string list" where
  "split_at c [] = [[]]"
| "split_at c (x # xs) =
     (if x = c then [] # split_at c xs
      else case split_at c xs of [] \<Rightarrow> [[x]] | y # ys \<Rightarrow> (x # y) # ys)"

fun join_at :: "char \<Rightarrow> string list \<Rightarrow> string" where
  "join_at c [] = []"
| "join_at c [x] = x"
| "join_at c (x # y # ys) = x @ c # join_at c (y # ys)"

lemma split_at_not_Nil [simp]: "split_at c s \<noteq> []"
  by (induction s) (auto split: list.splits)

lemma split_at_free: "c \<notin> set s \<Longrightarrow> split_at c s = [s]"
  by (induction s) auto

lemma split_at_append: "c \<notin> set s \<Longrightarrow> split_at c (s @ c # t) = s # split_at c t"
  by (induction s) auto

lemma split_at_parts: "p \<in> set (split_at c s) \<Longrightarrow> c \<notin> set p"
proof (induction s arbitrary: p)
  case (Cons x s)
  then show ?case by (cases "split_at c s") (auto split: if_splits)
qed simp

lemma join_split [simp]: "join_at c (split_at c s) = s"
proof (induction s)
  case (Cons x s)
  then show ?case by (cases "split_at c s"; cases "tl (split_at c s)") auto
qed simp

lemma split_join: "ps \<noteq> [] \<Longrightarrow> \<forall>p \<in> set ps. c \<notin> set p \<Longrightarrow> split_at c (join_at c ps) = ps"
proof (induction c ps rule: join_at.induct)
  case (2 c x)
  then show ?case by (simp add: split_at_free)
next
  case (3 c x y ys)
  then show ?case by (simp add: split_at_append)
qed simp

text \<open>A string splits into given parts exactly if it is their join and they are free of the
  separator.\<close>

lemma split_at_iff:
  "split_at c s = ps \<longleftrightarrow> ps \<noteq> [] \<and> (\<forall>p \<in> set ps. c \<notin> set p) \<and> s = join_at c ps"
  using split_at_parts join_split split_join by (metis split_at_not_Nil)

subsection \<open>\<open>strings.TrimSpace\<close>\<close>

text \<open>The encodings of the Unicode white space characters in UTF-8.\<close>

definition white_spaces :: "string list" where
  "white_spaces = [[CHR 0x09], [CHR 0x0A], [CHR 0x0B], [CHR 0x0C], [CHR 0x0D], [CHR 0x20],
     [CHR 0xC2, CHR 0x85], [CHR 0xC2, CHR 0xA0], [CHR 0xE1, CHR 0x9A, CHR 0x80],
     [CHR 0xE2, CHR 0x80, CHR 0x80], [CHR 0xE2, CHR 0x80, CHR 0x81], [CHR 0xE2, CHR 0x80, CHR 0x82],
     [CHR 0xE2, CHR 0x80, CHR 0x83], [CHR 0xE2, CHR 0x80, CHR 0x84], [CHR 0xE2, CHR 0x80, CHR 0x85],
     [CHR 0xE2, CHR 0x80, CHR 0x86], [CHR 0xE2, CHR 0x80, CHR 0x87], [CHR 0xE2, CHR 0x80, CHR 0x88],
     [CHR 0xE2, CHR 0x80, CHR 0x89], [CHR 0xE2, CHR 0x80, CHR 0x8A], [CHR 0xE2, CHR 0x80, CHR 0xA8],
     [CHR 0xE2, CHR 0x80, CHR 0xA9], [CHR 0xE2, CHR 0x80, CHR 0xAF], [CHR 0xE2, CHR 0x81, CHR 0x9F],
     [CHR 0xE3, CHR 0x80, CHR 0x80]]"

lemma white_space_not_Nil: "p \<in> set white_spaces \<Longrightarrow> p \<noteq> []"
  by (auto simp: white_spaces_def)

function trim_left :: "string \<Rightarrow> string" where
  "trim_left s = (case find (\<lambda>p. prefix p s) white_spaces of
     None \<Rightarrow> s | Some p \<Rightarrow> trim_left (drop (length p) s))"
  by pat_completeness auto
termination
proof (relation "measure length")
  fix s p assume "find (\<lambda>p. prefix p s) white_spaces = Some p"
  then have "p \<in> set white_spaces" "prefix p s" by (auto simp: find_Some_iff)
  with white_space_not_Nil [of p] show "(drop (length p) s, s) \<in> measure length"
    by (auto simp: prefix_def)
qed simp

function trim_right :: "string \<Rightarrow> string" where
  "trim_right s = (case find (\<lambda>p. suffix p s) white_spaces of
     None \<Rightarrow> s | Some p \<Rightarrow> trim_right (take (length s - length p) s))"
  by pat_completeness auto
termination
proof (relation "measure length")
  fix s p assume "find (\<lambda>p. suffix p s) white_spaces = Some p"
  then have "p \<in> set white_spaces" "suffix p s" by (auto simp: find_Some_iff)
  with white_space_not_Nil [of p] show "(take (length s - length p) s, s) \<in> measure length"
    by (auto simp: suffix_def)
qed simp

declare trim_left.simps [simp del] trim_right.simps [simp del]

definition trim_space :: "string \<Rightarrow> string" where
  "trim_space s = trim_right (trim_left s)"

lemma white_space_ends: "p \<in> set white_spaces \<Longrightarrow> digit_val (hd p) = None \<and> digit_val (last p) = None"
  by (auto simp: white_spaces_def digit_val_def)

lemma trim_space_hex [simp]: "is_hex s \<Longrightarrow> trim_space s = s"
proof -
  assume s: "is_hex s"
  have "\<not> prefix p s \<and> \<not> suffix p s" if "p \<in> set white_spaces" for p
    using white_space_not_Nil [OF that] white_space_ends [OF that] s
    by (cases p rule: rev_cases; cases p) (auto simp: prefix_def suffix_def)
  then have "find (\<lambda>p. prefix p s) white_spaces = None" "find (\<lambda>p. suffix p s) white_spaces = None"
    by (auto simp: find_None_iff)
  then show ?thesis by (simp add: trim_space_def trim_left.simps [of s] trim_right.simps [of s])
qed

end
