(* ===== verification/Context.thy ===== *)
theory Context
  imports Keeper Text
begin

section \<open>The context of a message\<close>

text \<open>
  What a handler reads and changes through \<open>sdk.Context\<close> and the bank keeper: the pool's store,
  the bank, the explicit gas charges, the events and the bytes of the transaction.  Store access
  is charged by the SDK's store wrapper, outside the repository; the log holds only the charges
  the module makes itself.
\<close>

record 'b chain =
  kv :: store
  bank :: 'b
  gasLog :: "(nat \<times> string) list"
  emitted :: "event list"
  txBytes :: bytes

definition onKV :: "(store, 'a) M \<Rightarrow> ('b chain, 'a) M" where
  "onKV m = zoomM kv (\<lambda>t s. s\<lparr>kv := t\<rparr>) m"

definition onBank :: "('b, 'a) M \<Rightarrow> ('b chain, 'a) M" where
  "onBank m = zoomM bank (\<lambda>t s. s\<lparr>bank := t\<rparr>) m"

definition readKV :: "(store \<Rightarrow> err + 'a) \<Rightarrow> ('b chain, 'a) M" where
  "readKV g = readM (\<lambda>s. g (kv s))"

text \<open>\<open>GasMeter().ConsumeGas\<close>: the charge is recorded, then the meter panics when it is over.\<close>

definition ConsumeGas :: "('vk, 'b) ext \<Rightarrow> nat \<Rightarrow> string \<Rightarrow> ('b chain, unit) M" where
  "ConsumeGas E amount descriptor =
     bindM (modifyM (\<lambda>s. s\<lparr>gasLog := gasLog s @ [(amount, descriptor)]\<rparr>)) (\<lambda>_.
     readM (\<lambda>s. guardE (gasOk E (gasLog s)) (Panic ''out of gas'')))"

definition EmitEvent :: "event \<Rightarrow> ('b chain, unit) M" where
  "EmitEvent e = modifyM (\<lambda>s. s\<lparr>emitted := emitted s @ [e]\<rparr>)"

definition fmt_u64 :: "u64 \<Rightarrow> string" where
  "fmt_u64 w = fmt_nat (unat w)"

subsection \<open>Evaluation\<close>

lemma onKV_eval [simp]:
  "onKV m s = (case m (kv s) of (r, t) \<Rightarrow> (r, s\<lparr>kv := t\<rparr>))"
  by (simp add: onKV_def zoomM_def)

lemma onBank_eval [simp]:
  "onBank m s = (case m (bank s) of (r, t) \<Rightarrow> (r, s\<lparr>bank := t\<rparr>))"
  by (simp add: onBank_def zoomM_def)

lemma bindM_onKV:
  "bindM (onKV m) f s =
     (case m (kv s) of (Inl e, t) \<Rightarrow> (Inl e, s\<lparr>kv := t\<rparr>) | (Inr x, t) \<Rightarrow> f x (s\<lparr>kv := t\<rparr>))"
  by (simp add: bindM_def split: prod.split sum.split)

lemma bindM_readKV [simp]:
  "bindM (readKV g) f s = (case g (kv s) of Inl e \<Rightarrow> (Inl e, s) | Inr x \<Rightarrow> f x s)"
  by (simp add: readKV_def)

lemma readKV_eval [simp]: "readKV g s = (g (kv s), s)"
  by (simp add: readKV_def)

lemma EmitEvent_eval [simp]: "EmitEvent e s = (Inr (), s\<lparr>emitted := emitted s @ [e]\<rparr>)"
  by (simp add: EmitEvent_def)

lemma ConsumeGas_eval:
  "ConsumeGas E g d s =
     (guardE (gasOk E (gasLog s @ [(g, d)])) (Panic ''out of gas''),
      s\<lparr>gasLog := gasLog s @ [(g, d)]\<rparr>)"
  by (simp add: ConsumeGas_def)

lemma onKV_Inr_iff: "onKV m s = (Inr x, s') \<longleftrightarrow> (\<exists>t. m (kv s) = (Inr x, t) \<and> s' = s\<lparr>kv := t\<rparr>)"
  by (auto split: prod.splits)

lemma onBank_Inr_iff: "onBank m s = (Inr x, s') \<longleftrightarrow> (\<exists>t. m (bank s) = (Inr x, t) \<and> s' = s\<lparr>bank := t\<rparr>)"
  by (auto split: prod.splits)

subsection \<open>Frames of the context\<close>

text \<open>A store relation carried to the context, and the parts a call leaves alone.\<close>

definition via_kv :: "(store \<Rightarrow> store \<Rightarrow> bool) \<Rightarrow> 'b chain \<Rightarrow> 'b chain \<Rightarrow> bool" where
  "via_kv R s t \<longleftrightarrow> R (kv s) (kv t)"

lemma stable_onKV: "stable R m \<Longrightarrow> stable (via_kv R) (onKV m)"
proof (unfold stable_def via_kv_def, intro allI)
  fix s :: "'b chain"
  assume "\<forall>s. R s (snd (m s))"
  then have "R (kv s) (snd (m (kv s)))" by blast
  then show "R (kv s) (kv (snd (onKV m s)))" by (cases "m (kv s)") simp
qed

end
