(* ===== verification/Verify.thy ===== *)
theory Verify
  imports Context
begin

section \<open>Proof verification and public inputs\<close>

text \<open>
  \<open>keeper/verify.go\<close>.  The verifier itself (\<open>ultrahonk.Verify\<close>) and the hash are parameters; what
  the chain must get right around them is modelled: which public inputs a proof is checked
  against, how they are bound to the message and to the configured parameters, and the gas
  charged for a verification whatever its outcome.
\<close>

definition GasUltraHonkVerify :: nat where "GasUltraHonkVerify = 400000"

definition DepositPICount :: nat where "DepositPICount = 8"
definition TransactPICount :: nat where "TransactPICount = 23"
definition RegisterPICount :: nat where "RegisterPICount = 9"

text \<open>Positions in the public input vectors.\<close>

definition DepositPICommitment :: nat where "DepositPICommitment = 0"
definition DepositPIAmount :: nat where "DepositPIAmount = 1"
definition DepositPITokenAddress :: nat where "DepositPITokenAddress = 2"
definition DepositPIAuditorPkX :: nat where "DepositPIAuditorPkX = 3"
definition DepositPIAuditorPkY :: nat where "DepositPIAuditorPkY = 4"
definition DepositPIAuditorEncCommit :: nat where "DepositPIAuditorEncCommit = 5"
definition DepositPIAuditorAuthKeyX :: nat where "DepositPIAuditorAuthKeyX = 6"
definition DepositPIAuditorAuthKeyY :: nat where "DepositPIAuditorAuthKeyY = 7"

definition TransactPINullifier1 :: nat where "TransactPINullifier1 = 0"
definition TransactPINullifier2 :: nat where "TransactPINullifier2 = 1"
definition TransactPIMerkleRoot1 :: nat where "TransactPIMerkleRoot1 = 2"
definition TransactPIMerkleRoot2 :: nat where "TransactPIMerkleRoot2 = 3"
definition TransactPINewNoteHash1 :: nat where "TransactPINewNoteHash1 = 4"
definition TransactPINewNoteHash2 :: nat where "TransactPINewNoteHash2 = 5"
definition TransactPIWithdrawAmount :: nat where "TransactPIWithdrawAmount = 6"
definition TransactPIWithdrawAddress :: nat where "TransactPIWithdrawAddress = 7"
definition TransactPITokenAddress :: nat where "TransactPITokenAddress = 8"
definition TransactPIChainId :: nat where "TransactPIChainId = 9"
definition TransactPIPoolAddress :: nat where "TransactPIPoolAddress = 10"
definition TransactPIRelayerFee :: nat where "TransactPIRelayerFee = 11"
definition TransactPIAuditorEnc1 :: nat where "TransactPIAuditorEnc1 = 12"
definition TransactPIAuditorAuthKey1X :: nat where "TransactPIAuditorAuthKey1X = 13"
definition TransactPIAuditorAuthKey1Y :: nat where "TransactPIAuditorAuthKey1Y = 14"
definition TransactPIAuditorEnc2 :: nat where "TransactPIAuditorEnc2 = 15"
definition TransactPIAuditorAuthKey2X :: nat where "TransactPIAuditorAuthKey2X = 16"
definition TransactPIAuditorAuthKey2Y :: nat where "TransactPIAuditorAuthKey2Y = 17"
definition TransactPIAuditorPkX :: nat where "TransactPIAuditorPkX = 18"
definition TransactPIAuditorPkY :: nat where "TransactPIAuditorPkY = 19"
definition TransactPIRegistrationRoot :: nat where "TransactPIRegistrationRoot = 20"
definition TransactPIAuditorEncRecip1 :: nat where "TransactPIAuditorEncRecip1 = 21"
definition TransactPIAuditorEncRecip2 :: nat where "TransactPIAuditorEncRecip2 = 22"

definition RegisterPICommitment :: nat where "RegisterPICommitment = 0"
definition RegisterPIChainId :: nat where "RegisterPIChainId = 1"
definition RegisterPIAuditorPkX :: nat where "RegisterPIAuditorPkX = 2"
definition RegisterPIAuditorPkY :: nat where "RegisterPIAuditorPkY = 3"
definition RegisterPIEphemeralX :: nat where "RegisterPIEphemeralX = 4"
definition RegisterPIEphemeralY :: nat where "RegisterPIEphemeralY = 5"
definition RegisterPIEncryptedAddr :: nat where "RegisterPIEncryptedAddr = 6"
definition RegisterPIEncryptedPkX :: nat where "RegisterPIEncryptedPkX = 7"
definition RegisterPIEncryptedPkY :: nat where "RegisterPIEncryptedPkY = 8"

lemmas pi_positions =
  DepositPICommitment_def DepositPIAmount_def DepositPITokenAddress_def DepositPIAuditorPkX_def
  DepositPIAuditorPkY_def TransactPINullifier1_def TransactPINullifier2_def
  TransactPIMerkleRoot1_def TransactPIMerkleRoot2_def TransactPINewNoteHash1_def
  TransactPINewNoteHash2_def TransactPIWithdrawAmount_def TransactPIWithdrawAddress_def
  TransactPITokenAddress_def TransactPIChainId_def TransactPIPoolAddress_def
  TransactPIRelayerFee_def TransactPIAuditorEnc1_def TransactPIAuditorAuthKey1X_def
  TransactPIAuditorAuthKey1Y_def TransactPIAuditorEnc2_def TransactPIAuditorAuthKey2X_def
  TransactPIAuditorAuthKey2Y_def TransactPIAuditorPkX_def TransactPIAuditorPkY_def
  TransactPIRegistrationRoot_def TransactPIAuditorEncRecip1_def TransactPIAuditorEncRecip2_def
  RegisterPICommitment_def RegisterPIChainId_def RegisterPIAuditorPkX_def RegisterPIAuditorPkY_def

lemmas pi_counts = DepositPICount_def TransactPICount_def RegisterPICount_def

subsection \<open>Verification keys\<close>

definition validCircuitNames :: "string \<Rightarrow> bool" where
  "validCircuitNames n \<longleftrightarrow> n \<in> {''deposit'', ''transact'', ''registration''}"

definition VKSerializedSize :: nat where "VKSerializedSize = 1752"
definition BBVKSize :: nat where "BBVKSize = 1760"

definition NormalizeVKData :: "('vk, 'b) ext \<Rightarrow> bytes \<Rightarrow> err + bytes" where
  "NormalizeVKData E data =
     (if length data = VKSerializedSize then
        (case deserializeVK E data of Inl e \<Rightarrow> Inl e | Inr vk \<Rightarrow> Inr data)
      else if length data = BBVKSize then
        bindE (deserializeBB E data) (\<lambda>vk.
        bindE (serializeVK E vk) (\<lambda>canonical. Inr canonical))
      else Inl (Std ''unsupported VK size''))"

definition getVerificationKey :: "('vk, 'b) ext \<Rightarrow> store \<Rightarrow> string \<Rightarrow> err + 'vk" where
  "getVerificationKey E s circuitName =
     (case GetVerificationKeyFromState s circuitName of
        None \<Rightarrow> Inl (Nix ErrVKNotFound)
      | Some vkData \<Rightarrow> deserializeVK E vkData)"

definition VerifyProof :: "('vk, 'b) ext \<Rightarrow> string \<Rightarrow> bytes \<Rightarrow> fr list \<Rightarrow> ('b chain, unit) M" where
  "VerifyProof E circuitName proof publicInputs =
     bindM (readKV (\<lambda>s. getVerificationKey E s circuitName)) (\<lambda>vk.
     bindM (ConsumeGas E GasUltraHonkVerify ''ultrahonk proof verification'') (\<lambda>_.
     bindM (wrapM ErrInvalidProof (liftE (ultraVerify E vk proof publicInputs))) (\<lambda>verified.
     if \<not> verified then throwM (Nix ErrInvalidProof) else returnM ())))"

subsection \<open>Parsing public inputs\<close>

definition parse_input :: "bytes \<Rightarrow> err + fr" where
  "parse_input chunk =
     (if int (be_nat chunk) \<ge> fr_modulus then Inl (Std ''not a canonical field element'')
      else Inr (SetBytes chunk))"

definition ParsePublicInputs :: "bytes \<Rightarrow> err + fr list" where
  "ParsePublicInputs data =
     (if length data mod 32 \<noteq> 0 then Inl (Std ''public inputs length not a multiple of 32'')
      else
        let n = length data div 32
        in mapE (\<lambda>i. bindE (go_slice data (i * 32) ((i + 1) * 32)) parse_input) [0..<n])"

subsection \<open>Strings as field elements\<close>

text \<open>The loop over the bytes in steps of 31.\<close>

fun limbs31 :: "bytes \<Rightarrow> bytes list" where
  "limbs31 [] = []"
| "limbs31 (b # bs) = take 31 (b # bs) # limbs31 (drop 31 (b # bs))"

definition string_limbs :: "string \<Rightarrow> fr list" where
  "string_limbs s =
     (let b = bytes_of s in fr_of_int (int (length b)) # map SetBytes (limbs31 b))"

definition stringToFieldElement :: "('vk, 'b) ext \<Rightarrow> string \<Rightarrow> fr" where
  "stringToFieldElement E s = hashN E (string_limbs s)"

definition DenomToFieldElement :: "('vk, 'b) ext \<Rightarrow> string \<Rightarrow> fr" where
  "DenomToFieldElement E denom = stringToFieldElement E denom"

definition AddressToFieldElement :: "('vk, 'b) ext \<Rightarrow> string \<Rightarrow> fr" where
  "AddressToFieldElement E addr = stringToFieldElement E addr"

subsection \<open>Binding public inputs to the message\<close>

definition verifyAuditorPublicInputs :: "fr \<Rightarrow> fr \<Rightarrow> bytes \<Rightarrow> err + unit" where
  "verifyAuditorPublicInputs piX piY auditorPubKey =
     (if length auditorPubKey = 0 then Inr ()
      else if length auditorPubKey < 64 then Inl (Nix ErrInvalidPublicInputs)
      else
        bindE (go_slice auditorPubKey 0 32) (\<lambda>x.
        bindE (go_slice auditorPubKey 32 64) (\<lambda>y.
        let expectedX = SetBytes x; expectedY = SetBytes y
        in if piX \<noteq> expectedX \<or> piY \<noteq> expectedY then Inl (Nix ErrInvalidPublicInputs)
           else Inr ())))"

definition VerifyRegisterPublicInputs :: "fr list \<Rightarrow> bytes \<Rightarrow> params \<Rightarrow> err + unit" where
  "VerifyRegisterPublicInputs publicInputs identityCommitment params =
     (if length publicInputs \<noteq> RegisterPICount then Inl (Nix ErrInvalidPublicInputs)
      else
        bindE (index_at publicInputs RegisterPICommitment) (\<lambda>piCommitment.
        if frBytes piCommitment \<noteq> identityCommitment then Inl (Nix ErrInvalidPublicInputs)
        else if length (ChainBinding params) = 0 then Inl (Nix ErrInvalidPublicInputs)
        else
          bindE (index_at publicInputs RegisterPIChainId) (\<lambda>piChain.
          if piChain \<noteq> SetBytes (ChainBinding params) then Inl (Nix ErrInvalidPublicInputs)
          else
            bindE (index_at publicInputs RegisterPIAuditorPkX) (\<lambda>piX.
            bindE (index_at publicInputs RegisterPIAuditorPkY) (\<lambda>piY.
            verifyAuditorPublicInputs piX piY (AuditorPubKey params))))))"

definition VerifyDepositPublicInputs ::
  "('vk, 'b) ext \<Rightarrow> fr list \<Rightarrow> bytes \<Rightarrow> int \<Rightarrow> string \<Rightarrow> params \<Rightarrow> err + unit" where
  "VerifyDepositPublicInputs E publicInputs noteCommitment amount denom params =
     (if length publicInputs \<noteq> DepositPICount then Inl (Nix ErrInvalidPublicInputs)
      else
        bindE (index_at publicInputs DepositPICommitment) (\<lambda>piCommitment.
        if frBytes piCommitment \<noteq> noteCommitment then Inl (Nix ErrInvalidPublicInputs)
        else
          bindE (index_at publicInputs DepositPIAmount) (\<lambda>piAmount.
          if piAmount \<noteq> fr_of_int amount then Inl (Nix ErrInvalidPublicInputs)
          else
            bindE (index_at publicInputs DepositPITokenAddress) (\<lambda>piToken.
            if piToken \<noteq> DenomToFieldElement E denom then Inl (Nix ErrInvalidPublicInputs)
            else
              bindE (index_at publicInputs DepositPIAuditorPkX) (\<lambda>piX.
              bindE (index_at publicInputs DepositPIAuditorPkY) (\<lambda>piY.
              verifyAuditorPublicInputs piX piY (AuditorPubKey params)))))))"

text \<open>An amount string: nothing is bound for the empty string and for \<open>0\<close>.\<close>

definition amount_element :: "('vk, 'b) ext \<Rightarrow> string \<Rightarrow> err + fr" where
  "amount_element E v =
     (if v \<noteq> '''' \<and> v \<noteq> ''0'' then
        (case parseInt E v of
           None \<Rightarrow> Inl (Std ''invalid amount'')
         | Some amt \<Rightarrow> Inr (fr_of_int amt))
      else Inr 0)"

definition AssembleTransactPublicInputs ::
  "('vk, 'b) ext \<Rightarrow> MsgTransact \<Rightarrow> params \<Rightarrow> bytes \<Rightarrow> err + fr list" where
  "AssembleTransactPublicInputs E msg params moduleAccAddr =
     (let pi = replicate TransactPICount (0 :: fr) in
     bindE (index_at (Nullifiers msg) 0) (\<lambda>n0.
     let pi = pi[TransactPINullifier1 := SetBytes n0] in
     bindE (index_at (Nullifiers msg) 1) (\<lambda>n1.
     let pi = pi[TransactPINullifier2 := SetBytes n1] in
     bindE (index_at (MerkleRoots msg) 0) (\<lambda>r0.
     let pi = pi[TransactPIMerkleRoot1 := SetBytes r0] in
     bindE (index_at (MerkleRoots msg) 1) (\<lambda>r1.
     let pi = pi[TransactPIMerkleRoot2 := SetBytes r1] in
     bindE (index_at (Outputs msg) 0) (\<lambda>o0.
     let pi = pi[TransactPINewNoteHash1 := SetBytes (NoteHash o0)] in
     bindE (index_at (Outputs msg) 1) (\<lambda>o1.
     let pi = pi[TransactPINewNoteHash2 := SetBytes (NoteHash o1)] in
     bindE (amount_element E (WithdrawAmount msg)) (\<lambda>amt.
     let pi = pi[TransactPIWithdrawAmount := amt];
         pi = (if WithdrawAddress msg \<noteq> ''''
               then pi[TransactPIWithdrawAddress := AddressToFieldElement E (WithdrawAddress msg)]
               else pi);
         pi = (if tx_Denom msg \<noteq> ''''
               then pi[TransactPITokenAddress := DenomToFieldElement E (tx_Denom msg)] else pi)
     in
     if length (ChainBinding params) = 0 then Inl (Std ''chain binding not configured'')
     else
       let pi = pi[TransactPIChainId := SetBytes (ChainBinding params)];
           pi = (if length moduleAccAddr > 0
                 then pi[TransactPIPoolAddress := SetBytes moduleAccAddr] else pi)
       in
       bindE (amount_element E (RelayerFee msg)) (\<lambda>fee.
       let pi = pi[TransactPIRelayerFee := fee];
           pi = pi[TransactPIAuditorEnc1 := SetBytes (AuditorEnc o0)];
           pi = pi[TransactPIAuditorAuthKey1X := SetBytes (AuditorAuthKeyX o0)];
           pi = pi[TransactPIAuditorAuthKey1Y := SetBytes (AuditorAuthKeyY o0)];
           pi = pi[TransactPIAuditorEnc2 := SetBytes (AuditorEnc o1)];
           pi = pi[TransactPIAuditorAuthKey2X := SetBytes (AuditorAuthKeyX o1)];
           pi = pi[TransactPIAuditorAuthKey2Y := SetBytes (AuditorAuthKeyY o1)]
       in
       bindE (if length (AuditorPubKey params) \<ge> 64 then
                bindE (go_slice (AuditorPubKey params) 0 32) (\<lambda>x.
                let pi = pi[TransactPIAuditorPkX := SetBytes x] in
                bindE (go_slice (AuditorPubKey params) 32 64) (\<lambda>y.
                Inr (pi[TransactPIAuditorPkY := SetBytes y])))
              else Inr pi) (\<lambda>pi.
       let pi = pi[TransactPIRegistrationRoot := SetBytes (RegistrationRoot msg)];
           pi = pi[TransactPIAuditorEncRecip1 := SetBytes (AuditorEncRecipient o0)];
           pi = pi[TransactPIAuditorEncRecip2 := SetBytes (AuditorEncRecipient o1)]
       in Inr pi))))))))))"

subsection \<open>Parsing\<close>

lemma chunks_concat:
  "length xs = k * n \<Longrightarrow> xs = concat (map (\<lambda>i. take k (drop (i * k) xs)) [0..<n])"
proof (induction n arbitrary: xs)
  case 0
  then show ?case by simp
next
  case (Suc n)
  have "drop k xs = concat (map (\<lambda>i. take k (drop (i * k) (drop k xs))) [0..<n])"
    using Suc.prems by (intro Suc.IH) simp
  also have "\<dots> = concat (map (\<lambda>i. take k (drop (Suc i * k) xs)) [0..<n])"
    by (simp add: add.commute)
  finally have "xs = take k xs @ concat (map (\<lambda>i. take k (drop (Suc i * k) xs)) [0..<n])"
    by (metis append_take_drop_id)
  then show ?case
    by (simp only: upt_conv_Cons [of 0 "Suc n"] zero_less_Suc list.map concat.simps
        map_Suc_upt [symmetric] map_map comp_def) simp
qed

lemma chunk_of_concat:
  "(\<And>x. x \<in> set xs \<Longrightarrow> length (f x) = k) \<Longrightarrow> i < length xs \<Longrightarrow>
     take k (drop (i * k) (concat (map f xs))) = f (xs ! i)"
proof (induction xs arbitrary: i)
  case Nil
  then show ?case by simp
next
  case (Cons x xs)
  then show ?case by (cases i) simp_all
qed

lemma parse_input_iff: "length c = 32 \<Longrightarrow> parse_input c = Inr x \<longleftrightarrow> c = frBytes x"
proof -
  assume "length c = 32"
  then have "canonical c \<longleftrightarrow> \<not> int (be_nat c) \<ge> fr_modulus" by (auto simp: canonical_def)
  then show ?thesis
    using SetBytes_eq_canonical [of c x] canonical_frBytes [of x] unfolding parse_input_def by auto
qed

lemma length_concat_frBytes: "length (concat (map frBytes xs)) = length xs * 32"
  by (induction xs) simp_all

text \<open>Every chunk lies within the data.\<close>

lemma ParsePublicInputs_chunks:
  "ParsePublicInputs data =
     (if length data mod 32 \<noteq> 0 then Inl (Std ''public inputs length not a multiple of 32'')
      else mapE (\<lambda>i. parse_input (take 32 (drop (i * 32) data))) [0..<length data div 32])"
proof -
  have "go_slice data (i * 32) ((i + 1) * 32) = Inr (take 32 (drop (i * 32) data))"
    if "i < length data div 32" for i
    using that by (subst go_slice_simps) auto
  then show ?thesis
    by (auto simp: ParsePublicInputs_def Let_def intro!: mapE_cong)
qed

lemma ParsePublicInputs_iff: "ParsePublicInputs data = Inr xs \<longleftrightarrow> data = concat (map frBytes xs)"
proof
  assume "data = concat (map frBytes xs)"
  moreover have "parse_input (take 32 (drop (i * 32) (concat (map frBytes xs)))) = Inr (xs ! i)"
    if "i < length xs" for i
    using that by (simp add: chunk_of_concat parse_input_iff)
  ultimately show "ParsePublicInputs data = Inr xs"
    by (simp add: ParsePublicInputs_chunks length_concat_frBytes mapE_Inr_iff list_all2_conv_all_nth)
next
  assume p: "ParsePublicInputs data = Inr xs"
  define n where "n = length data div 32"
  let ?c = "\<lambda>i. take 32 (drop (i * 32) data)"
  have len: "length data = 32 * n"
    using p by (auto simp: ParsePublicInputs_chunks n_def split: if_splits)
  have all: "list_all2 (\<lambda>i x. parse_input (?c i) = Inr x) [0..<n] xs"
    using p len by (simp add: ParsePublicInputs_chunks mapE_Inr_iff)
  have "map ?c [0..<n] = map frBytes xs"
  proof (rule nth_equalityI)
    show "length (map ?c [0..<n]) = length (map frBytes xs)"
      using list_all2_lengthD [OF all] by simp
    fix i assume "i < length (map ?c [0..<n])"
    then have i: "i < n" by simp
    then have "i * 32 + 32 \<le> 32 * n" by simp
    then have "length (?c i) = 32" using len by simp
    moreover have "parse_input (?c i) = Inr (xs ! i)"
      using all i by (simp add: list_all2_conv_all_nth)
    ultimately show "map ?c [0..<n] ! i = map frBytes xs ! i"
      using i list_all2_lengthD [OF all] by (simp add: parse_input_iff)
  qed
  then show "data = concat (map frBytes xs)"
    using chunks_concat [OF len] by simp
qed

subsection \<open>Strings\<close>

lemma limbs31_concat: "concat (limbs31 b) = b"
  by (induction b rule: limbs31.induct) simp_all

lemma limbs31_step: "b \<noteq> [] \<Longrightarrow> limbs31 b = take 31 b # limbs31 (drop 31 b)"
  by (cases b) simp_all

lemma be_nat_31: "length b \<le> 31 \<Longrightarrow> int (be_nat b) < fr_modulus"
proof -
  assume "length b \<le> 31"
  then have "(256::nat) ^ length b \<le> 256 ^ 31" by (rule power_increasing) simp
  then have "be_nat b < 256 ^ 31" using be_nat_less [of b] by linarith
  then have "int (be_nat b) < 256 ^ 31" by (metis of_nat_less_iff of_nat_numeral of_nat_power)
  also have "(256::int) ^ 31 < fr_modulus" by (simp add: fr_modulus_def)
  finally show ?thesis .
qed

lemma limb_inj:
  "length b = length c \<Longrightarrow> length b \<le> 31 \<Longrightarrow> SetBytes b = SetBytes c \<Longrightarrow> b = c"
  using be_nat_31 [of b] be_nat_31 [of c] by (simp add: SetBytes_eq_iff be_nat_inj)

text \<open>Strings of one length and one limb sequence are equal.\<close>

lemma limbs31_inj:
  "length b = length c \<Longrightarrow> map SetBytes (limbs31 b) = map SetBytes (limbs31 c) \<Longrightarrow> b = c"
proof (induction b arbitrary: c rule: length_induct)
  case (1 b)
  show ?case
  proof (cases "b = []")
    case True
    with 1 show ?thesis by simp
  next
    case False
    with 1 have c: "c \<noteq> []" by auto
    have "SetBytes (take 31 b) = SetBytes (take 31 c)"
      and rest: "map SetBytes (limbs31 (drop 31 b)) = map SetBytes (limbs31 (drop 31 c))"
      using 1(3) by (simp_all add: limbs31_step False c)
    then have "take 31 b = take 31 c" using 1(2) by (intro limb_inj) simp_all
    moreover have "drop 31 b = drop 31 c"
    proof (rule 1(1) [rule_format])
      show "length (drop 31 b) < length b" using False by simp
      show "length (drop 31 b) = length (drop 31 c)" using 1(2) by simp
    qed (rule rest)
    ultimately show ?thesis by (metis append_take_drop_id)
  qed
qed

lemma string_limbs_inj:
  assumes "int (length s) < fr_modulus" "int (length t) < fr_modulus"
    and eq: "string_limbs s = string_limbs t"
  shows "s = t"
proof -
  have "fr_of_int (int (length s)) = fr_of_int (int (length t))"
    using eq by (simp add: string_limbs_def Let_def)
  then have "length s = length t" using assms(1,2) by (simp add: fr_of_int_eq_iff)
  moreover have "map SetBytes (limbs31 (bytes_of s)) = map SetBytes (limbs31 (bytes_of t))"
    using eq by (simp add: string_limbs_def Let_def)
  ultimately have "bytes_of s = bytes_of t" by (intro limbs31_inj) simp_all
  then show ?thesis by simp
qed

subsection \<open>What the binding checks accept\<close>

lemma verifyAuditor_iff:
  "verifyAuditorPublicInputs x y key = Inr () \<longleftrightarrow>
     key = [] \<or> (64 \<le> length key \<and> x = SetBytes (take 32 key) \<and> y = SetBytes (take 32 (drop 32 key)))"
  by (auto simp: verifyAuditorPublicInputs_def Let_def)

lemma VerifyRegister_iff:
  "VerifyRegisterPublicInputs xs c p = Inr () \<longleftrightarrow>
     length xs = 9 \<and> c = frBytes (xs ! 0) \<and> ChainBinding p \<noteq> [] \<and>
     xs ! 1 = SetBytes (ChainBinding p) \<and>
     verifyAuditorPublicInputs (xs ! 2) (xs ! 3) (AuditorPubKey p) = Inr ()"
  by (auto simp: VerifyRegisterPublicInputs_def pi_positions pi_counts)

lemma VerifyDeposit_iff:
  "VerifyDepositPublicInputs E xs c amt denom p = Inr () \<longleftrightarrow>
     length xs = 8 \<and> c = frBytes (xs ! 0) \<and> xs ! 1 = fr_of_int amt \<and>
     xs ! 2 = DenomToFieldElement E denom \<and>
     verifyAuditorPublicInputs (xs ! 3) (xs ! 4) (AuditorPubKey p) = Inr ()"
  by (auto simp: VerifyDepositPublicInputs_def pi_positions pi_counts)

text \<open>The vector the transact circuit is checked against, written out.\<close>

definition text_element :: "('vk, 'b) ext \<Rightarrow> string \<Rightarrow> fr" where
  "text_element E v = (if v = '''' then 0 else stringToFieldElement E v)"

text \<open>The hash of a text determines the text among the texts on which the hash neither collides
  nor is zero, the value that stands for the empty text.\<close>

lemma text_element_inj:
  assumes "inj_on (hashN E) (string_limbs ` V)" and nz: "\<forall>v \<in> V. hashN E (string_limbs v) \<noteq> 0"
    and len: "\<forall>v \<in> V. length v < 2 ^ 64" and uv: "u \<in> V" "v \<in> V"
  shows "text_element E u = text_element E v \<longleftrightarrow> u = v"
proof
  assume eq: "text_element E u = text_element E v"
  show "u = v"
  proof (cases "u = [] \<or> v = []")
    case True
    with eq nz uv show ?thesis
      by (auto simp: text_element_def stringToFieldElement_def split: if_splits)
  next
    case False
    with eq have "hashN E (string_limbs u) = hashN E (string_limbs v)"
      by (simp add: text_element_def stringToFieldElement_def)
    with assms(1) uv have limbs: "string_limbs u = string_limbs v" by (auto dest: inj_onD)
    have "length u < 2 ^ 64" "length v < 2 ^ 64" using len uv by blast+
    then have "int (length u) < fr_modulus" "int (length v) < fr_modulus"
      by (simp_all add: fr_modulus_def)
    then show ?thesis using limbs by (rule string_limbs_inj)
  qed
qed simp

definition transact_vector ::
  "('vk, 'b) ext \<Rightarrow> MsgTransact \<Rightarrow> params \<Rightarrow> bytes \<Rightarrow> fr \<Rightarrow> fr \<Rightarrow> fr list" where
  "transact_vector E msg p modAddr amt fee =
     [SetBytes (Nullifiers msg ! 0), SetBytes (Nullifiers msg ! 1),
      SetBytes (MerkleRoots msg ! 0), SetBytes (MerkleRoots msg ! 1),
      SetBytes (NoteHash (Outputs msg ! 0)), SetBytes (NoteHash (Outputs msg ! 1)),
      amt, text_element E (WithdrawAddress msg), text_element E (tx_Denom msg),
      SetBytes (ChainBinding p), SetBytes modAddr, fee,
      SetBytes (AuditorEnc (Outputs msg ! 0)), SetBytes (AuditorAuthKeyX (Outputs msg ! 0)),
      SetBytes (AuditorAuthKeyY (Outputs msg ! 0)),
      SetBytes (AuditorEnc (Outputs msg ! 1)), SetBytes (AuditorAuthKeyX (Outputs msg ! 1)),
      SetBytes (AuditorAuthKeyY (Outputs msg ! 1)),
      (if 64 \<le> length (AuditorPubKey p) then SetBytes (take 32 (AuditorPubKey p)) else 0),
      (if 64 \<le> length (AuditorPubKey p) then SetBytes (take 32 (drop 32 (AuditorPubKey p))) else 0),
      SetBytes (RegistrationRoot msg),
      SetBytes (AuditorEncRecipient (Outputs msg ! 0)),
      SetBytes (AuditorEncRecipient (Outputs msg ! 1))]"

lemma amount_element_Inr_iff:
  "amount_element E v = Inr a \<longleftrightarrow>
     (if v = '''' \<or> v = ''0'' then a = 0 else \<exists>n. parseInt E v = Some n \<and> a = fr_of_int n)"
  by (auto simp: amount_element_def split: option.splits)

lemma replicate_23: "replicate TransactPICount (0::fr) =
    [0,0,0,0,0,0,0,0,0,0,0,0,0,0,0,0,0,0,0,0,0,0,0]"
  by (simp add: TransactPICount_def numeral_eq_Suc)

lemma list_update_numeral:
  "(x # xs)[numeral k := v] = x # xs[pred_numeral k := v]"
  "(x # xs)[1 := v] = x # xs[0 := v]"
  by (simp_all add: numeral_eq_Suc)

lemma update_if:
  "(if c then xs[i := x] else xs) = xs[i := (if c then x else xs ! i)]"
  "(if c then xs[i := x, j := y] else xs) =
     xs[i := (if c then x else xs ! i), j := (if c then y else xs[i := (if c then x else xs ! i)] ! j)]"
  by simp_all

lemma auditor_slices:
  "(if 64 \<le> length b then
      bindE (go_slice b 0 32) (\<lambda>x.
      let ys = xs[i := SetBytes x] in
      bindE (go_slice b 32 64) (\<lambda>y. Inr (ys[j := SetBytes y])))
    else Inr xs) =
   Inr (if 64 \<le> length b then xs[i := SetBytes (take 32 b), j := SetBytes (take 32 (drop 32 b))] else xs)"
  by simp

lemma Assemble_iff:
  "AssembleTransactPublicInputs E msg p modAddr = Inr xs \<longleftrightarrow>
     2 \<le> length (Nullifiers msg) \<and> 2 \<le> length (MerkleRoots msg) \<and> 2 \<le> length (Outputs msg) \<and>
     ChainBinding p \<noteq> [] \<and>
     (\<exists>amt fee. amount_element E (WithdrawAmount msg) = Inr amt \<and>
        amount_element E (RelayerFee msg) = Inr fee \<and>
        xs = transact_vector E msg p modAddr amt fee)"
proof -
  have two: "2 \<le> n \<longleftrightarrow> (0::nat) < n \<and> Suc 0 < n" for n :: nat by auto
  have neq: "(if v \<noteq> [] then a else b) = (if v = [] then b else a)" for v :: "'x list" and a b :: fr
    by simp
  have addr: "(if modAddr \<noteq> [] then SetBytes modAddr else 0) = SetBytes modAddr"
    "(if modAddr = [] then 0 else SetBytes modAddr) = SetBytes modAddr" by simp_all
  show ?thesis
    unfolding AssembleTransactPublicInputs_def auditor_slices bindE_simps transact_vector_def replicate_23
      pi_positions two
    by (cases "ChainBinding p = []")
      (auto simp: bindE_Inr_iff text_element_def DenomToFieldElement_def list_update_numeral
        AddressToFieldElement_def addr neq Let_def update_if cong: if_cong split del: if_split)
qed

end
