(* ===== verification/RootIndex.thy ===== *)
theory RootIndex
  imports Keeper
begin

section \<open>The root reverse index\<close>

text \<open>
  The middle part of \<open>keeper/merkle.go\<close>: a reference count per root, kept in step with the
  slots that hold roots (\<open>TreeRootKey\<close> and \<open>RootHistoryKey\<close>).  The component lemma is that the
  indexed setters keep the index equal to the number of slots that hold the root, whatever the
  roots are: canonical or not, empty, shared by several slots.
\<close>

subsection \<open>The operations\<close>

definition rootRefCount :: "store \<Rightarrow> bytes \<Rightarrow> err + u64" where
  "rootRefCount s root =
     (if length root = 0 then Inr 0
      else case kv_get s (RootIndexKey root) of
        None \<Rightarrow> Inr 0
      | Some bz \<Rightarrow> dec64 bz)"

definition rootIndexIncr :: "bytes \<Rightarrow> (store, unit) M" where
  "rootIndexIncr root =
     (if length root = 0 then returnM ()
      else
        bindM (readM (\<lambda>s. rootRefCount s root)) (\<lambda>n.
        modifyM (kv_set (RootIndexKey root) (be64 (n + 1)))))"

definition rootIndexDecr :: "bytes \<Rightarrow> (store, unit) M" where
  "rootIndexDecr root =
     (if length root = 0 then returnM ()
      else
        bindM (readM (\<lambda>s. rootRefCount s root)) (\<lambda>n.
        if n \<le> 1 then modifyM (kv_delete (RootIndexKey root))
        else modifyM (kv_set (RootIndexKey root) (be64 (n - 1)))))"

text \<open>The two setters have the same body; they differ in the slot they write.\<close>

definition setSlotIndexed :: "bytes \<Rightarrow> bytes \<Rightarrow> (store, unit) M" where
  "setSlotIndexed key newRoot =
     bindM (readM (\<lambda>s. Inr (kv_get s key))) (\<lambda>old.
     if slice old = newRoot then returnM ()
     else
       bindM (modifyM (kv_set key newRoot)) (\<lambda>_.
       bindM (rootIndexIncr newRoot) (\<lambda>_.
       rootIndexDecr (slice old))))"

definition setTreeRootIndexed :: "u64 \<Rightarrow> bytes \<Rightarrow> (store, unit) M" where
  "setTreeRootIndexed treeId newRoot = setSlotIndexed (TreeRootKey treeId) newRoot"

definition setRootHistoryIndexed :: "u64 \<Rightarrow> u64 \<Rightarrow> bytes \<Rightarrow> (store, unit) M" where
  "setRootHistoryIndexed treeId slot newRoot = setSlotIndexed (RootHistoryKey treeId slot) newRoot"

subsection \<open>Rebuilding\<close>

text \<open>\<open>counts\<close> is the Go map of \<open>RebuildRootIndex\<close>, as an association list keyed by the
  canonical bytes; \<open>record_root\<close> is its closure \<open>record\<close>.\<close>

type_synonym counts = "(bytes \<times> u64) list"

fun bump :: "bytes \<Rightarrow> counts \<Rightarrow> counts" where
  "bump k [] = [(k, 1)]"
| "bump k ((k', n) # cs) = (if k = k' then (k', n + 1) # cs else (k', n) # bump k cs)"

definition record_root :: "bytes option \<Rightarrow> counts \<Rightarrow> counts" where
  "record_root b cs = (if length (slice b) = 0 then cs
                       else bump (CanonicalFieldBytes (slice b)) cs)"

definition count_tree :: "store \<Rightarrow> u64 \<Rightarrow> counts \<Rightarrow> counts" where
  "count_tree s treeId cs =
     fold (\<lambda>slot. record_root (kv_get s (RootHistoryKey treeId slot)))
       (map of_nat [0..<unat MaxRootHistory])
       (record_root (kv_get s (TreeRootKey treeId)) cs)"

definition count_roots :: "store \<Rightarrow> u64 \<Rightarrow> counts" where
  "count_roots s count = fold (count_tree s) (map of_nat [0..<unat count]) []"

definition RebuildRootIndex :: "('vk, 'b) ext \<Rightarrow> (store, unit) M" where
  "RebuildRootIndex E =
     bindM (readM (\<lambda>s. kv_u64 s TreeCountKey)) (\<lambda>count.
     bindM (readM (\<lambda>s. Inr (map fst (kv_iterator RootIndexPrefix (prefixEnd E RootIndexPrefix) s))))
       (\<lambda>stale.
     bindM (modifyM (fold kv_delete stale)) (\<lambda>_.
     bindM (readM (\<lambda>s. Inr (count_roots s count))) (\<lambda>counts.
     modifyM (fold (\<lambda>(canonical, n). kv_set (RootIndexKey canonical) (be64 n)) counts)))))"

subsection \<open>What the index means\<close>

text \<open>
  The slots that can hold a root, the roots they hold (as elements of the field; an empty slot
  holds none) and the number of references to a root.  The index is right when it stores, for
  every root, exactly that number, and no entry for a root that no slot holds.
\<close>

datatype slot = CurrentRoot u64 | HistoryRoot u64 u64

fun slot_skey :: "slot \<Rightarrow> skey" where
  "slot_skey (CurrentRoot t) = KTreeRoot t"
| "slot_skey (HistoryRoot t i) = KRootHistory t i"

definition slot_root :: "store \<Rightarrow> slot \<Rightarrow> fr option" where
  "slot_root s sl =
     (let b = slice (kv_get s (skey_bytes (slot_skey sl)))
      in if b = [] then None else Some (SetBytes b))"

definition holders :: "store \<Rightarrow> fr \<Rightarrow> slot set" where
  "holders s r = {sl. slot_root s sl = Some r}"

definition index_entry :: "store \<Rightarrow> fr \<Rightarrow> bytes option" where
  "index_entry s r = kv_get s (skey_bytes (KRootIndex r))"

definition index_is :: "store \<Rightarrow> (fr \<Rightarrow> nat) \<Rightarrow> bool" where
  "index_is s c \<longleftrightarrow>
     (\<forall>r. index_entry s r = (if c r = 0 then None else Some (be64 (of_nat (c r)))))"

definition index_ok :: "store \<Rightarrow> bool" where
  "index_ok s \<longleftrightarrow> index_is s (\<lambda>r. card (holders s r))"

text \<open>The counts stay below the width of the counter: every live slot is one of a bounded
  number of slots.\<close>

definition slots_bounded :: "store \<Rightarrow> bool" where
  "slots_bounded s \<longleftrightarrow> card {sl. slot_root s sl \<noteq> None} < 2 ^ 64 - 1"

lemma slot_skey_inj [simp]: "slot_skey a = slot_skey b \<longleftrightarrow> a = b"
  by (cases a; cases b) simp_all

lemma slot_skey_not_index [simp]:
  "slot_skey sl \<noteq> KRootIndex r" "KRootIndex r \<noteq> slot_skey sl"
  by (cases sl; simp)+

lemma finite_slots [simp]: "finite (A :: slot set)"
proof -
  have "(UNIV :: slot set) = range CurrentRoot \<union> range (\<lambda>(t, i). HistoryRoot t i)"
  proof (rule UNIV_eq_I)
    fix x show "x \<in> range CurrentRoot \<union> range (\<lambda>(t, i). HistoryRoot t i)"
      by (cases x) (auto simp: image_iff)
  qed
  then have "finite (UNIV :: slot set)" by (metis finite finite_UnI finite_imageI)
  then show ?thesis by (rule rev_finite_subset) simp
qed

lemma slot_root_put:
  "slot_root (kv_set (skey_bytes (slot_skey sl)) b s) sl' =
     (if sl' = sl then (if b = [] then None else Some (SetBytes b)) else slot_root s sl')"
  by (simp add: slot_root_def)

lemma slot_root_other [simp]:
  "(\<And>sl. k \<noteq> slot_skey sl) \<Longrightarrow> slot_root (kv_set (skey_bytes k) b s) = slot_root s"
  "(\<And>sl. k \<noteq> slot_skey sl) \<Longrightarrow> slot_root (kv_delete (skey_bytes k) s) = slot_root s"
  by (rule ext, simp add: slot_root_def, metis)+

subsection \<open>Counting references, abstractly\<close>

text \<open>
  What a client of the index relies on: taking a reference adds one to the count of that root,
  releasing one subtracts one, as long as the counts stay within the width of the counter.
  From this alone: replacing the content of one slot, by taking the new root and releasing
  the old, keeps the counts equal to the number of slots that hold each root.
\<close>

definition count_of :: "('sl \<Rightarrow> 'r option) \<Rightarrow> 'r \<Rightarrow> nat" where
  "count_of h r = card {sl. h sl = Some r}"

definition opt_apply :: "('r \<Rightarrow> 's \<Rightarrow> 's) \<Rightarrow> 'r option \<Rightarrow> 's \<Rightarrow> 's" where
  "opt_apply f r s = (case r of None \<Rightarrow> s | Some x \<Rightarrow> f x s)"

lemma opt_apply_simps [simp]: "opt_apply f None s = s" "opt_apply f (Some x) s = f x s"
  by (simp_all add: opt_apply_def)

locale refcounted =
  fixes counts_are :: "'s \<Rightarrow> ('r \<Rightarrow> nat) \<Rightarrow> bool"
    and incr :: "'r \<Rightarrow> 's \<Rightarrow> 's"
    and decr :: "'r \<Rightarrow> 's \<Rightarrow> 's"
    and bound :: nat
    and slots :: "'sl set"
  assumes incr_counts: "counts_are s c \<Longrightarrow> c r < bound \<Longrightarrow> counts_are (incr r s) (c(r := Suc (c r)))"
    and decr_counts: "counts_are s c \<Longrightarrow> c r \<le> bound \<Longrightarrow> counts_are (decr r s) (c(r := c r - 1))"
    and finite_all: "finite (UNIV :: 'sl set)"
begin

lemma count_le: "count_of h r \<le> card {sl. h sl \<noteq> None}" for h :: "'sl \<Rightarrow> 'r option"
  unfolding count_of_def by (rule card_mono) (auto intro: rev_finite_subset [OF finite_all])

lemma count_upd_other:
  "Some r \<noteq> h sl \<Longrightarrow> Some r \<noteq> new \<Longrightarrow> count_of (h(sl := new)) r = count_of h r"
  for h :: "'sl \<Rightarrow> 'r option"
  unfolding count_of_def by (rule arg_cong [of _ _ card]) auto

lemma count_upd_new:
  "h sl \<noteq> Some r \<Longrightarrow> count_of (h(sl := Some r)) r = count_of h r + 1"
  for h :: "'sl \<Rightarrow> 'r option"
proof -
  assume ne: "h sl \<noteq> Some r"
  have "{x. (h(sl := Some r)) x = Some r} = insert sl {x. h x = Some r}" by auto
  then show ?thesis
    using ne by (simp add: count_of_def card_insert_if rev_finite_subset [OF finite_all])
qed

lemma count_upd_old:
  "h sl = Some r \<Longrightarrow> new \<noteq> Some r \<Longrightarrow> count_of (h(sl := new)) r = count_of h r - 1"
  for h :: "'sl \<Rightarrow> 'r option"
proof -
  assume old: "h sl = Some r" and ne: "new \<noteq> Some r"
  from ne have "{x. (h(sl := new)) x = Some r} = {x. h x = Some r} - {sl}" by auto
  then show ?thesis
    using old by (simp add: count_of_def rev_finite_subset [OF finite_all])
qed

lemma move_reference:
  fixes h :: "'sl \<Rightarrow> 'r option"
  assumes ci: "counts_are s (count_of h)" and bnd: "card {sl. h sl \<noteq> None} < bound"
  shows "counts_are (opt_apply decr (h sl) (opt_apply incr new s)) (count_of (h(sl := new)))"
proof -
  have lt: "count_of h r < bound" for r using count_le [of h r] bnd by linarith
  let ?c1 = "case new of None \<Rightarrow> count_of h | Some n \<Rightarrow> (count_of h)(n := Suc (count_of h n))"
  let ?c2 = "case h sl of None \<Rightarrow> ?c1 | Some q \<Rightarrow> ?c1(q := ?c1 q - 1)"
  have 1: "counts_are (opt_apply incr new s) ?c1"
    using ci lt by (cases new) (simp_all add: incr_counts)
  have "?c1 r \<le> bound" for r using lt [of r] by (cases new) auto
  with 1 have 2: "counts_are (opt_apply decr (h sl) (opt_apply incr new s)) ?c2"
    by (cases "h sl") (simp_all add: decr_counts [unfolded One_nat_def])
  have "?c2 = count_of (h(sl := new))"
  proof
    fix r
    show "?c2 r = count_of (h(sl := new)) r"
    proof (cases "h sl = new")
      case True
      then have "h(sl := new) = h" by (rule fun_upd_idem)
      with True show ?thesis by (cases new) simp_all
    next
      case False
      consider "h sl = Some r" | "new = Some r" "h sl \<noteq> Some r" | "h sl \<noteq> Some r" "new \<noteq> Some r"
        by blast
      then show ?thesis
      proof cases
        case 1
        with False count_upd_old [of h sl r new] show ?thesis by (cases new) auto
      next
        case 2
        with count_upd_new [of h sl r] show ?thesis by (cases "h sl") auto
      next
        case 3
        with count_upd_other [of r h sl new] show ?thesis by (cases "h sl"; cases new) auto
      qed
    qed
  qed
  with 2 show ?thesis by simp
qed

end

subsection \<open>The store's index is such a counter\<close>

definition ref_incr :: "fr \<Rightarrow> store \<Rightarrow> store" where
  "ref_incr r s = snd (rootIndexIncr (frBytes r) s)"

definition ref_decr :: "fr \<Rightarrow> store \<Rightarrow> store" where
  "ref_decr r s = snd (rootIndexDecr (frBytes r) s)"

lemma index_is_count:
  "index_is s c \<Longrightarrow> b \<noteq> [] \<Longrightarrow> rootRefCount s b = Inr (of_nat (c (SetBytes b)))"
  by (auto simp: index_is_def index_entry_def rootRefCount_def)

lemma index_is_incr:
  assumes "index_is s c" "b \<noteq> []"
  shows "rootIndexIncr b s = (Inr (), ref_incr (SetBytes b) s)"
  using assms index_is_count [OF assms] index_is_count [OF assms(1), of "frBytes (SetBytes b)"]
  by (simp add: rootIndexIncr_def ref_incr_def)

lemma index_is_decr:
  assumes "index_is s c" "b \<noteq> []"
  shows "rootIndexDecr b s = (Inr (), ref_decr (SetBytes b) s)"
  using assms index_is_count [OF assms] index_is_count [OF assms(1), of "frBytes (SetBytes b)"]
  by (simp add: rootIndexDecr_def ref_decr_def)

lemma index_entry_upd [simp]:
  "index_entry (kv_set (skey_bytes (KRootIndex r)) v s) r' =
     (if r' = r then Some v else index_entry s r')"
  "index_entry (kv_delete (skey_bytes (KRootIndex r)) s) r' =
     (if r' = r then None else index_entry s r')"
  by (simp_all add: index_entry_def)

lemma ref_incr_counts:
  assumes ci: "index_is s c" and bnd: "c r < 2 ^ 64 - 1"
  shows "index_is (ref_incr r s) (c(r := Suc (c r)))"
proof -
  have "ref_incr r s = kv_set (skey_bytes (KRootIndex r)) (be64 (of_nat (c r) + 1)) s"
    using index_is_count [OF ci, of "frBytes r"] by (simp add: ref_incr_def rootIndexIncr_def)
  then show ?thesis
    using ci by (simp add: index_is_def add.commute)
qed

lemma ref_decr_counts:
  assumes ci: "index_is s c" and bnd: "c r \<le> 2 ^ 64 - 1"
  shows "index_is (ref_decr r s) (c(r := c r - 1))"
proof -
  have un: "unat (of_nat (c r) :: u64) = c r"
    using bnd by (simp add: unat_of_nat take_bit_eq_mod)
  have le1: "(of_nat (c r) :: u64) \<le> 1 \<longleftrightarrow> c r \<le> 1"
    by (simp add: word_le_nat_alt un)
  have cnt: "rootRefCount s (frBytes r) = Inr (of_nat (c r))"
    using index_is_count [OF ci, of "frBytes r"] by simp
  show ?thesis
  proof (cases "c r \<le> 1")
    case True
    with le1 cnt have "ref_decr r s = kv_delete (skey_bytes (KRootIndex r)) s"
      by (simp add: ref_decr_def rootIndexDecr_def)
    with True ci show ?thesis by (simp add: index_is_def)
  next
    case False
    with le1 cnt have "ref_decr r s = kv_set (skey_bytes (KRootIndex r)) (be64 (of_nat (c r) - 1)) s"
      by (simp add: ref_decr_def rootIndexDecr_def)
    with False ci show ?thesis by (simp add: index_is_def of_nat_diff)
  qed
qed

interpretation ri: refcounted index_is ref_incr ref_decr "2 ^ 64 - 1" "UNIV :: slot set"
  by unfold_locales (simp_all only: ref_incr_counts ref_decr_counts finite_slots)

subsection \<open>The indexed setters keep the index right\<close>

definition root_opt :: "bytes \<Rightarrow> fr option" where
  "root_opt b = (if b = [] then None else Some (SetBytes b))"

lemma root_opt_simps [simp]: "root_opt [] = None" "b \<noteq> [] \<Longrightarrow> root_opt b = Some (SetBytes b)"
  by (simp_all add: root_opt_def)

lemma slot_root_opt: "slot_root s sl = root_opt (slice (kv_get s (skey_bytes (slot_skey sl))))"
  by (simp add: slot_root_def root_opt_def)

lemma index_ok_count: "index_ok s \<longleftrightarrow> index_is s (count_of (slot_root s))"
  by (simp add: index_ok_def holders_def count_of_def [abs_def])

lemma index_is_set_other [simp]:
  "(\<And>r. k \<noteq> KRootIndex r) \<Longrightarrow> index_is (kv_set (skey_bytes k) v s) c = index_is s c"
proof -
  assume ne: "\<And>r. k \<noteq> KRootIndex r"
  have "index_entry (kv_set (skey_bytes k) v s) = index_entry s"
    by (rule ext) (simp add: index_entry_def ne [symmetric])
  then show ?thesis by (simp add: index_is_def)
qed

lemma ref_upd_touches:
  "touches (range KRootIndex) s (ref_incr r s)" "touches (range KRootIndex) s (ref_decr r s)"
  unfolding ref_incr_def ref_decr_def rootIndexIncr_def rootIndexDecr_def
  by (auto simp: touch.R_refl split: sum.split)

lemma touches_slot_root:
  "touches K s t \<Longrightarrow> (\<And>sl. slot_skey sl \<notin> K) \<Longrightarrow> slot_root t = slot_root s"
  by (rule ext) (simp add: slot_root_def touches_get)

lemma opt_apply_touches:
  "touches (range KRootIndex) s (opt_apply ref_incr r s)"
  "touches (range KRootIndex) s (opt_apply ref_decr r s)"
  by (cases r; simp add: ref_upd_touches touch.R_refl)+

lemma take_reference:
  "index_is s c \<Longrightarrow> rootIndexIncr b s = (Inr (), opt_apply ref_incr (root_opt b) s)"
  by (cases "b = []") (simp_all add: index_is_incr, simp add: rootIndexIncr_def)

lemma release_reference:
  "index_is s c \<Longrightarrow> rootIndexDecr b s = (Inr (), opt_apply ref_decr (root_opt b) s)"
  by (cases "b = []") (simp_all add: index_is_decr, simp add: rootIndexDecr_def)

lemma setSlotIndexed_correct:
  assumes ok: "index_ok s" and bnd: "slots_bounded s"
  obtains s' where "setSlotIndexed (skey_bytes (slot_skey sl)) b s = (Inr (), s')"
    and "index_ok s'" and "slot_root s' = (slot_root s)(sl := root_opt b)"
    and "slice (kv_get s' (skey_bytes (slot_skey sl))) = b"
    and "touches (insert (slot_skey sl) (range KRootIndex)) s s'"
proof -
  let ?k = "skey_bytes (slot_skey sl)"
  let ?h = "slot_root s"
  define old where "old = slice (kv_get s ?k)"
  have hsl: "?h sl = root_opt old" by (simp add: slot_root_opt old_def)
  show ?thesis
  proof (cases "old = b")
    case True
    then have "setSlotIndexed ?k b s = (Inr (), s)" by (simp add: setSlotIndexed_def old_def)
    moreover have "?h = ?h(sl := root_opt b)" using True hsl by (simp add: fun_upd_idem)
    ultimately show ?thesis
      using that [of s] ok True by (simp add: old_def touch.R_refl)
  next
    case False
    let ?s1 = "kv_set ?k b s"
    let ?s2 = "opt_apply ref_incr (root_opt b) ?s1"
    let ?s3 = "opt_apply ref_decr (?h sl) ?s2"
    have i1: "index_is ?s1 (count_of ?h)" using ok by (simp add: index_ok_count)
    have bnd': "card {x. ?h x \<noteq> None} < 2 ^ 64 - 1" using bnd by (simp add: slots_bounded_def)
    have i3: "index_is ?s3 (count_of (?h(sl := root_opt b)))"
      using i1 bnd' by (rule ri.move_reference)
    have "count_of ?h r < 2 ^ 64 - 1" for r using ri.count_le [of ?h r] bnd' by linarith
    then have i2: "\<exists>c. index_is ?s2 c"
      using i1 ref_incr_counts [OF i1] by (cases "root_opt b") auto
    have t1: "touches {slot_skey sl} s ?s1" by simp
    have t: "touches (insert (slot_skey sl) (range KRootIndex)) s ?s3"
      by (meson insertI1 touch.R_trans touches_mono opt_apply_touches t1 subset_insertI
          empty_subsetI insert_subsetI)
    have roots: "slot_root ?s3 = ?h(sl := root_opt b)"
    proof -
      have "slot_root ?s3 = slot_root ?s1"
        by (rule touches_slot_root [OF touch.R_trans [OF opt_apply_touches(1) opt_apply_touches(2)]])
          auto
      also have "\<dots> = ?h(sl := root_opt b)"
        by (rule ext) (simp add: slot_root_put root_opt_def)
      finally show ?thesis .
    qed
    have get: "kv_get ?s3 ?k = Some b"
      using touches_get [OF touch.R_trans [OF opt_apply_touches(1) opt_apply_touches(2)],
          of "slot_skey sl"] by (simp add: image_iff)
    have run: "setSlotIndexed ?k b s = (Inr (), ?s3)"
      using False i2 take_reference [OF i1, of b] release_reference [of ?s2 _ old]
      by (auto simp: setSlotIndexed_def old_def [symmetric] hsl bindM_Inr)
    show ?thesis
      using that [OF run] i3 roots get t by (simp add: index_ok_count)
  qed
qed

subsection \<open>Rebuilding the index\<close>

text \<open>The slots \<open>RebuildRootIndex\<close> visits, in its order.\<close>

definition tree_slots :: "u64 \<Rightarrow> slot list" where
  "tree_slots t = CurrentRoot t # map (\<lambda>i. HistoryRoot t (of_nat i)) [0..<unat MaxRootHistory]"

definition scan_slots :: "u64 \<Rightarrow> slot list" where
  "scan_slots count = concat (map (\<lambda>t. tree_slots (of_nat t)) [0..<unat count])"

definition record_slot :: "store \<Rightarrow> slot \<Rightarrow> counts \<Rightarrow> counts" where
  "record_slot s sl = record_root (kv_get s (skey_bytes (slot_skey sl)))"

lemma count_roots_scan: "count_roots s count = fold (record_slot s) (scan_slots count) []"
proof -
  have tree: "count_tree s t = fold (record_slot s) (tree_slots t)" for t
    by (rule ext)
      (simp add: count_tree_def tree_slots_def record_slot_def fold_map comp_def)
  show ?thesis
    by (simp add: count_roots_def scan_slots_def fold_concat_lists fold_map comp_def tree)
qed

lemma MaxRootHistory_unat [simp]: "unat MaxRootHistory = 100"
  by (simp add: MaxRootHistory_def)

lemma set_tree_slots:
  "set (tree_slots t) = insert (CurrentRoot t) {HistoryRoot t i |i. i < MaxRootHistory}"
  unfolding tree_slots_def word_less_of_nat by auto

lemma set_scan_slots:
  "set (scan_slots n) =
     {CurrentRoot t |t. t < n} \<union> {HistoryRoot t i |t i. t < n \<and> i < MaxRootHistory}"
  by (auto simp: scan_slots_def set_tree_slots word_less_of_nat [of _ n])

lemma distinct_tree_slots: "distinct (tree_slots t)"
  by (auto simp: tree_slots_def distinct_map inj_on_def
      of_nat_u64_inj [of _ MaxRootHistory, simplified])

lemma distinct_scan_slots: "distinct (scan_slots n)"
proof -
  have "distinct (concat (map (\<lambda>t. tree_slots (of_nat t)) xs))"
    if "distinct xs" "set xs \<subseteq> {..<unat n}" for xs
    using that
  proof (induction xs)
    case Nil
    then show ?case by simp
  next
    case (Cons x xs)
    then show ?case
      using of_nat_u64_inj [of x n]
      by (auto simp: distinct_tree_slots set_tree_slots)
  qed
  then show ?thesis by (simp add: scan_slots_def atLeast0LessThan)
qed

text \<open>The counting loop counts, for each root, the slots of the list that hold it.\<close>

definition counts_agree :: "counts \<Rightarrow> (fr \<Rightarrow> nat) \<Rightarrow> bool" where
  "counts_agree cs c \<longleftrightarrow> distinct (map fst cs) \<and> (\<forall>k v. (k, v) \<in> set cs \<longrightarrow> canonical k) \<and>
     (\<forall>r. map_of cs (frBytes r) = (if c r = 0 then None else Some (of_nat (c r))))"

lemma map_of_bump:
  "map_of (bump k cs) k' =
     (if k' = k then Some (case map_of cs k of None \<Rightarrow> 1 | Some n \<Rightarrow> n + 1) else map_of cs k')"
  by (induction cs) auto

lemma fst_bump: "fst ` set (bump k cs) = insert k (fst ` set cs)"
  by (induction k cs rule: bump.induct) auto

lemma mem_bump: "(a, b) \<in> set (bump k cs) \<Longrightarrow> a = k \<or> (\<exists>b'. (a, b') \<in> set cs)"
  by (induction cs) (auto split: if_splits)

lemma distinct_bump: "distinct (map fst cs) \<Longrightarrow> distinct (map fst (bump k cs))"
proof (induction cs)
  case (Cons x cs)
  then show ?case using fst_bump [of k cs] by (cases x) (auto simp flip: set_map)
qed simp

lemma counts_agree_record:
  "counts_agree cs c \<Longrightarrow>
     counts_agree (record_slot s sl cs)
       (\<lambda>r. if slot_root s sl = Some r then Suc (c r) else c r)"
  by (auto simp: counts_agree_def record_slot_def record_root_def slot_root_opt root_opt_def
      CanonicalFieldBytes_eq distinct_bump map_of_bump add.commute dest!: mem_bump)

lemma counts_agree_fold:
  "counts_agree cs c \<Longrightarrow>
     counts_agree (fold (record_slot s) sls cs)
       (\<lambda>r. c r + length (filter (\<lambda>sl. slot_root s sl = Some r) sls))"
proof (induction sls arbitrary: cs c)
  case Nil
  then show ?case by simp
next
  case (Cons sl sls)
  have eq: "(\<lambda>r. (if slot_root s sl = Some r then Suc (c r) else c r) +
          length (filter (\<lambda>sl. slot_root s sl = Some r) sls)) =
        (\<lambda>r. c r + length (filter (\<lambda>x. slot_root s x = Some r) (sl # sls)))"
    by (rule ext) simp
  show ?case
    using Cons.IH [OF counts_agree_record [OF Cons.prems, of s sl]]
    unfolding eq by simp
qed

lemma count_roots_agree:
  "counts_agree (count_roots s n) (\<lambda>r. card {sl \<in> set (scan_slots n). slot_root s sl = Some r})"
proof -
  have "counts_agree [] (\<lambda>r. 0)" by (simp add: counts_agree_def)
  from counts_agree_fold [OF this, of s "scan_slots n"]
  show ?thesis
    by (simp add: count_roots_scan distinct_length_filter [OF distinct_scan_slots] Int_def
        conj_commute)
qed

text \<open>Clearing: the range of the iterator is the prefix, so exactly the index entries go.\<close>

definition stale_keys :: "('vk, 'b) ext \<Rightarrow> store \<Rightarrow> bytes list" where
  "stale_keys E s = map fst (kv_iterator RootIndexPrefix (prefixEnd E RootIndexPrefix) s)"

lemma last_RootIndexPrefix: "RootIndexPrefix \<noteq> [] \<and> last RootIndexPrefix \<noteq> 255"
  by code_simp

lemma stale_keys_slot:
  assumes "prefix_end_law E"
  shows "skey_bytes k \<in> set (stale_keys E s) \<longleftrightarrow>
    kv_has s (skey_bytes k) \<and> k \<in> range KRootIndex"
proof -
  have law: "RootIndexPrefix \<le> x \<and> x < prefixEnd E RootIndexPrefix \<longleftrightarrow> prefix RootIndexPrefix x" for x
    using assms last_RootIndexPrefix by (simp add: prefix_end_law_def)
  have "prefix RootIndexPrefix (skey_bytes k) \<longleftrightarrow> k \<in> range KRootIndex"
  proof
    assume "prefix RootIndexPrefix (skey_bytes k)"
    then have "skey_prefix k = rootIndexPrefix"
      by (intro prefix_skey_bytes) (simp_all add: RootIndexPrefix_def copyBytes_def store_prefixes_def)
    then have "key_index k = key_index (KRootIndex 0)" by (intro key_index_prefix) simp
    then show "k \<in> range KRootIndex" by (cases k) simp_all
  next
    assume "k \<in> range KRootIndex"
    then show "prefix RootIndexPrefix (skey_bytes k)"
      using prefix_skey_bytes_self [of k] by (auto simp: RootIndexPrefix_def copyBytes_def)
  qed
  then show ?thesis
    using kv_iterator_key [of "skey_bytes k" RootIndexPrefix "prefixEnd E RootIndexPrefix" s] law
    by (simp add: stale_keys_def)
qed

lemma clear_index:
  assumes "prefix_end_law E"
  shows "touches (range KRootIndex) s (fold kv_delete (stale_keys E s) s)"
    and "index_entry (fold kv_delete (stale_keys E s) s) r = None"
proof -
  show "touches (range KRootIndex) s (fold kv_delete (stale_keys E s) s)"
    using stale_keys_slot [OF assms, of _ s]
    by (simp add: touches_def kv.get_del_all kv.has_del_all)
  show "index_entry (fold kv_delete (stale_keys E s) s) r = None"
    using stale_keys_slot [OF assms, of "KRootIndex r" s]
    by (simp add: index_entry_def kv.get_del_all kv_get_not_has)
qed

lemma map_of_index_pairs:
  "\<forall>k n. (k, n) \<in> set cs \<longrightarrow> canonical k \<Longrightarrow>
     map_of (map (\<lambda>(k, n). (RootIndexKey k, be64 n)) cs) (skey_bytes (KRootIndex r)) =
       map_option be64 (map_of cs (frBytes r))"
  by (induction cs) (auto simp: SetBytes_eq_canonical)

lemma write_counts:
  assumes agree: "counts_agree cs c" and empty: "\<And>r. index_entry s r = None"
  defines "t \<equiv> fold (\<lambda>(canonical, n). kv_set (RootIndexKey canonical) (be64 n)) cs s"
  shows "index_is t c" and "touches (range KRootIndex) s t"
proof -
  let ?kvs = "map (\<lambda>(k, n). (RootIndexKey k, be64 n)) cs"
  have t: "t = fold (\<lambda>(k, v). kv_set k v) ?kvs s"
    by (simp add: t_def fold_map comp_def case_prod_unfold)
  have dist: "distinct (map fst ?kvs)"
  proof -
    have "inj_on RootIndexKey (fst ` set cs)"
    proof (rule inj_onI)
      fix a b assume "a \<in> fst ` set cs" "b \<in> fst ` set cs" "RootIndexKey a = RootIndexKey b"
      then have "canonical a" "canonical b" "SetBytes a = SetBytes b"
        using agree by (auto simp: counts_agree_def)
      then show "a = b" by (simp add: canonical_inj)
    qed
    moreover have "distinct (map fst cs)" using agree by (simp add: counts_agree_def)
    ultimately have "distinct (map RootIndexKey (map fst cs))"
      by (simp add: distinct_map [of RootIndexKey] del: map_map)
    then show ?thesis by (simp add: comp_def case_prod_unfold)
  qed
  have get: "map_of (rev ?kvs) (skey_bytes (KRootIndex r)) = map_option be64 (map_of cs (frBytes r))" for r
  proof -
    have "map_of (rev ?kvs) = map_of ?kvs"
      using dist by (intro map_of_eqI) (simp_all add: image_comp rev_map [symmetric] distinct_map_of_rev)
    moreover have "map_of ?kvs (skey_bytes (KRootIndex r)) = map_option be64 (map_of cs (frBytes r))"
      using agree by (intro map_of_index_pairs) (simp add: counts_agree_def)
    ultimately show ?thesis by simp
  qed
  have "index_entry t r = map_option be64 (map_of cs (frBytes r))" for r
    using empty [of r] get [of r]
    by (simp add: t index_entry_def kv.get_put_all split: option.split)
  then show "index_is t c"
    using agree by (simp add: index_is_def counts_agree_def)
  show "touches (range KRootIndex) s t"
    unfolding touches_def
  proof (intro conjI allI impI)
    fix b assume "b \<notin> range skey_bytes" "kv_has t b"
    moreover have "fst ` set ?kvs \<subseteq> range skey_bytes" by auto
    ultimately show "kv_has s b" by (auto simp: t kv.has_put_all)
  next
    fix k assume k: "k \<notin> range KRootIndex"
    then have "skey_bytes k \<notin> fst ` set ?kvs" by (auto simp: image_iff)
    then show "kv_get t (skey_bytes k) = kv_get s (skey_bytes k)"
      "kv_has t (skey_bytes k) = kv_has s (skey_bytes k)"
      by (simp_all add: t kv.get_put_all kv.has_put_all map_of_eq_None_iff [THEN iffD2] del: key_simps)
  qed
qed

lemma RebuildRootIndex_result:
  assumes law: "prefix_end_law E" and cnt: "kv_u64 s TreeCountKey = Inr n"
  obtains s' where "RebuildRootIndex E s = (Inr (), s')"
    and "index_is s' (\<lambda>r. card {sl \<in> set (scan_slots n). slot_root s sl = Some r})"
    and "touches (range KRootIndex) s s'"
proof -
  let ?s1 = "fold kv_delete (stale_keys E s) s"
  let ?s2 = "fold (\<lambda>(canonical, n). kv_set (RootIndexKey canonical) (be64 n)) (count_roots ?s1 n) ?s1"
  note clear = clear_index [OF law, of s]
  have roots: "slot_root ?s1 = slot_root s"
    using clear(1) by (rule touches_slot_root) auto
  have "RebuildRootIndex E s = (Inr (), ?s2)"
    using cnt by (simp add: RebuildRootIndex_def stale_keys_def)
  moreover have "index_is ?s2 (\<lambda>r. card {sl \<in> set (scan_slots n). slot_root s sl = Some r})"
    using write_counts(1) [OF count_roots_agree [of ?s1 n] clear(2)] by (simp add: roots)
  moreover have "touches (range KRootIndex) s ?s2"
    using touch.R_trans [OF clear(1) write_counts(2) [OF count_roots_agree [of ?s1 n] clear(2)]] .
  ultimately show ?thesis by (rule that)
qed

end
