(* ===== verification/MerkleSpec.thy ===== *)
theory MerkleSpec
  imports Main
begin

section \<open>Specification: the Merkle tree and its frontier\<close>

text \<open>
  What the trees of \<open>keeper/merkle.go\<close> promise, without store, bytes or words.  A tree of depth
  \<open>d\<close> over the leaves \<open>lv\<close> (a function; the leaves beyond the inserted ones are the zero leaf)
  has at level \<open>L\<close> the nodes \<open>node h lv L j\<close>.  \<open>climb\<close> is the insertion loop: it keeps one value
  per level, the frontier, instead of the tree.
\<close>

fun node :: "('a \<Rightarrow> 'a \<Rightarrow> 'a) \<Rightarrow> (nat \<Rightarrow> 'a) \<Rightarrow> nat \<Rightarrow> nat \<Rightarrow> 'a" where
  "node h lv 0 j = lv j"
| "node h lv (Suc L) j = h (node h lv L (2 * j)) (node h lv L (2 * j + 1))"

definition leaf_fun :: "'a::zero list \<Rightarrow> nat \<Rightarrow> 'a" where
  "leaf_fun ls i = (if i < length ls then ls ! i else 0)"

definition merkle_root :: "('a::zero \<Rightarrow> 'a \<Rightarrow> 'a) \<Rightarrow> nat \<Rightarrow> 'a list \<Rightarrow> 'a" where
  "merkle_root h d ls = node h (leaf_fun ls) d 0"

fun climb :: "('a \<Rightarrow> 'a \<Rightarrow> 'a) \<Rightarrow> (nat \<Rightarrow> 'a) \<Rightarrow> nat \<Rightarrow> nat \<Rightarrow> nat \<Rightarrow> 'a \<Rightarrow> (nat \<Rightarrow> 'a) \<Rightarrow> 'a \<times> (nat \<Rightarrow> 'a)"
  where
  "climb h z 0 L i c F = (c, F)"
| "climb h z (Suc n) L i c F =
     (if even i then climb h z n (Suc L) (i div 2) (h c (z L)) (F(L := c))
      else climb h z n (Suc L) (i div 2) (h (F L) c) F)"

text \<open>The frontier invariant after \<open>n\<close> insertions: at every level where the next insertion is a
  right child, the frontier holds its left sibling.\<close>

definition frontier_inv :: "('a \<Rightarrow> 'a \<Rightarrow> 'a) \<Rightarrow> (nat \<Rightarrow> 'a) \<Rightarrow> nat \<Rightarrow> nat \<Rightarrow> (nat \<Rightarrow> 'a) \<Rightarrow> bool" where
  "frontier_inv h lv n d F \<longleftrightarrow>
     (\<forall>L < d. odd (n div 2 ^ L) \<longrightarrow> F L = node h lv L (n div 2 ^ L - 1))"

lemma node_cong:
  "(\<And>i. j * 2 ^ L \<le> i \<Longrightarrow> i < Suc j * 2 ^ L \<Longrightarrow> lv i = lv' i) \<Longrightarrow> node h lv L j = node h lv' L j"
proof (induction L arbitrary: j)
  case 0
  then show ?case by simp
next
  case (Suc L)
  have "node h lv L (2 * j) = node h lv' L (2 * j)"
    by (rule Suc.IH, rule Suc.prems) (auto simp: algebra_simps)
  moreover have "node h lv L (2 * j + 1) = node h lv' L (2 * j + 1)"
    by (rule Suc.IH, rule Suc.prems) (auto simp: algebra_simps)
  ultimately show ?case by simp
qed

lemma node_zero:
  assumes "\<And>L. L < d \<Longrightarrow> z (Suc L) = h (z L) (z L)" and "L \<le> d"
    and "\<And>i. j * 2 ^ L \<le> i \<Longrightarrow> lv i = z 0"
  shows "node h lv L j = z L"
  using assms(2,3)
proof (induction L arbitrary: j)
  case 0
  then show ?case by simp
next
  case (Suc L)
  have "node h lv L (2 * j) = z L"
    by (rule Suc.IH) (use Suc.prems in \<open>auto simp: algebra_simps\<close>)
  moreover have "node h lv L (2 * j + 1) = z L"
    by (rule Suc.IH) (use Suc.prems in \<open>auto simp: algebra_simps\<close>)
  ultimately show ?case using assms(1) Suc.prems(1) by simp
qed

lemma below_block: "i < (n div 2 ^ L) * 2 ^ L \<Longrightarrow> i < n" for n :: nat
  using div_times_less_eq_dividend less_le_trans by blast

lemma beyond_block: "Suc (n div 2 ^ L) * 2 ^ L \<le> i \<Longrightarrow> n < i" for n :: nat
proof -
  have "n < Suc (n div 2 ^ L) * 2 ^ L"
    by (simp add: dividend_less_div_times)
  then show "Suc (n div 2 ^ L) * 2 ^ L \<le> i \<Longrightarrow> n < i" by simp
qed

text \<open>One insertion: the loop returns the node above the new leaf and replaces the frontier at
  exactly the levels where the new leaf is in a left child.\<close>

lemma climb_correct:
  assumes z: "\<And>L. L < d \<Longrightarrow> z (Suc L) = h (z L) (z L)"
    and rest: "\<And>i. n < i \<Longrightarrow> lv i = z 0"
    and inv: "\<And>L. L < d \<Longrightarrow> odd (n div 2 ^ L) \<Longrightarrow> F L = node h lv L (n div 2 ^ L - 1)"
    and "L \<le> d"
  shows "climb h z (d - L) L (n div 2 ^ L) (node h lv L (n div 2 ^ L)) F =
    (node h lv d (n div 2 ^ d),
     \<lambda>k. if L \<le> k \<and> k < d \<and> even (n div 2 ^ k) then node h lv k (n div 2 ^ k) else F k)"
  using \<open>L \<le> d\<close> inv
proof (induction "d - L" arbitrary: L F)
  case 0
  then have "L = d" by simp
  then show ?case by (auto simp: fun_eq_iff)
next
  case (Suc m)
  then have Ld: "L < d" and m: "m = d - Suc L" and dL: "d - L = Suc (d - Suc L)" by simp_all
  let ?i = "n div 2 ^ L"
  have half: "?i div 2 = n div 2 ^ Suc L" by (simp add: div_mult2_eq [symmetric] mult.commute)
  let ?F = "if even ?i then F(L := node h lv L ?i) else F"
  have up: "node h lv (Suc L) (?i div 2) =
      (if even ?i then h (node h lv L ?i) (z L) else h (F L) (node h lv L ?i))"
  proof (cases "even ?i")
    case True
    then have "2 * (?i div 2) = ?i" by simp
    moreover have "node h lv L (?i + 1) = z L"
      using z Ld rest beyond_block [of n L] by (intro node_zero [of d]) auto
    ultimately show ?thesis using True by simp
  next
    case False
    then have "2 * (?i div 2) = ?i - 1" and "2 * (?i div 2) + 1 = ?i"
      by (auto elim!: oddE)
    then show ?thesis using False Suc.prems(2) [OF Ld] by simp
  qed
  have inv': "\<And>k. k < d \<Longrightarrow> odd (n div 2 ^ k) \<Longrightarrow> ?F k = node h lv k (n div 2 ^ k - 1)"
    using Suc.prems(2) by auto
  have "climb h z (d - L) L ?i (node h lv L ?i) F =
      climb h z (d - Suc L) (Suc L) (n div 2 ^ Suc L) (node h lv (Suc L) (n div 2 ^ Suc L)) ?F"
    using up by (simp add: dL half)
  also have "\<dots> = (node h lv d (n div 2 ^ d),
     \<lambda>k. if Suc L \<le> k \<and> k < d \<and> even (n div 2 ^ k) then node h lv k (n div 2 ^ k) else ?F k)"
    using Suc.hyps(1) [OF m, of ?F] inv' Ld by auto
  also have "\<dots> = (node h lv d (n div 2 ^ d),
     \<lambda>k. if L \<le> k \<and> k < d \<and> even (n div 2 ^ k) then node h lv k (n div 2 ^ k) else F k)"
    using Ld by (auto simp: fun_eq_iff le_less Suc_le_eq)
  finally show ?case .
qed

lemma div_Suc_cases: "Suc n div m = n div m \<or> Suc n div m = Suc (n div m)"
  by (simp add: div_Suc)

theorem climb_insert:
  fixes h :: "'a::zero \<Rightarrow> 'a \<Rightarrow> 'a"
  assumes z: "\<And>L. L < d \<Longrightarrow> z (Suc L) = h (z L) (z L)" and z0: "z 0 = 0"
    and inv: "frontier_inv h (leaf_fun ls) (length ls) d F"
    and room: "length ls < 2 ^ d"
  obtains F' where "climb h z d 0 (length ls) x F = (merkle_root h d (ls @ [x]), F')"
    and "frontier_inv h (leaf_fun (ls @ [x])) (Suc (length ls)) d F'"
proof -
  let ?n = "length ls" and ?lv = "leaf_fun ls" and ?lv' = "leaf_fun (ls @ [x])"
  have old: "node h ?lv L (?n div 2 ^ L - 1) = node h ?lv' L (?n div 2 ^ L - 1)"
    if "odd (?n div 2 ^ L)" for L
  proof (rule node_cong)
    fix i assume "i < Suc (?n div 2 ^ L - 1) * 2 ^ L"
    moreover have "Suc (?n div 2 ^ L - 1) = ?n div 2 ^ L" using that by (simp add: odd_pos)
    ultimately have "i < ?n" by (metis below_block)
    then show "?lv i = ?lv' i" by (simp add: leaf_fun_def nth_append)
  qed
  have F: "F L = node h ?lv' L (?n div 2 ^ L - 1)" if "L < d" "odd (?n div 2 ^ L)" for L
    using inv old that by (simp add: frontier_inv_def)
  let ?F' = "\<lambda>k. if k < d \<and> even (?n div 2 ^ k) then node h ?lv' k (?n div 2 ^ k) else F k"
  have "climb h z d 0 ?n x F = (node h ?lv' d (?n div 2 ^ d), ?F')"
    using climb_correct [of d z h ?n ?lv' F 0] z z0 F by (simp add: leaf_fun_def)
  moreover have "?n div 2 ^ d = 0" using room by simp
  ultimately have run: "climb h z d 0 ?n x F = (merkle_root h d (ls @ [x]), ?F')"
    by (simp add: merkle_root_def)
  have "frontier_inv h ?lv' (Suc ?n) d ?F'"
    unfolding frontier_inv_def
  proof (intro allI impI)
    fix L assume L: "L < d" and odd: "odd (Suc ?n div 2 ^ L)"
    from div_Suc_cases [of ?n "2 ^ L"] show "?F' L = node h ?lv' L (Suc ?n div 2 ^ L - 1)"
    proof
      assume "Suc ?n div 2 ^ L = ?n div 2 ^ L"
      with odd L F show ?thesis by simp
    next
      assume "Suc ?n div 2 ^ L = Suc (?n div 2 ^ L)"
      with odd L show ?thesis by simp
    qed
  qed
  with run show ?thesis by (rule that)
qed

lemma frontier_inv_empty: "frontier_inv h lv 0 d F"
  by (simp add: frontier_inv_def)

lemma merkle_root_empty:
  assumes "\<And>L. L < d \<Longrightarrow> z (Suc L) = h (z L) (z L)" "z 0 = 0"
  shows "merkle_root h d [] = z d"
  unfolding merkle_root_def
  by (rule node_zero [of d]) (simp_all add: assms leaf_fun_def)

text \<open>The frontier invariant does not depend on the depth while the tree is not full: a deeper
  tree asks nothing of the frontier at the new levels.  At the moment the tree is full it does.\<close>

lemma frontier_inv_deeper:
  assumes "frontier_inv h lv n d F" "n < 2 ^ d"
  shows "frontier_inv h lv n d' F"
  unfolding frontier_inv_def
proof (intro allI impI)
  fix L assume "odd (n div 2 ^ L)"
  have "L < d"
  proof (rule ccontr)
    assume "\<not> L < d"
    then have "2 ^ d \<le> (2::nat) ^ L" by simp
    with assms(2) have "n div 2 ^ L = 0" by (intro div_less) linarith
    with \<open>odd (n div 2 ^ L)\<close> show False by simp
  qed
  with assms(1) \<open>odd (n div 2 ^ L)\<close> show "F L = node h lv L (n div 2 ^ L - 1)"
    by (simp add: frontier_inv_def)
qed

end
