(* ===== verification/Forest.thy ===== *)
theory Forest
  imports RootIndex MerkleSpec
begin

section \<open>The note forest\<close>

text \<open>
  The first part of \<open>keeper/merkle.go\<close>: note trees, the active tree, insertion by the frontier
  method, root history, and root validation.  Indices are \<open>64 word\<close>, levels and depths
  \<open>32 word\<close>, as in the code; the shift \<open>uint64(1) << depth\<close> is \<open>push_bit\<close>.
\<close>

subsection \<open>Reading the forest\<close>

definition zeroRootBytes :: "('vk, 'b) ext \<Rightarrow> u32 \<Rightarrow> bytes" where
  "zeroRootBytes E depth = frBytes (zeroHash E depth)"

definition GetActiveTreeId :: "store \<Rightarrow> err + u64" where
  "GetActiveTreeId s = kv_u64 s ActiveTreeIdKey"

definition setActiveTreeId :: "u64 \<Rightarrow> (store, unit) M" where
  "setActiveTreeId treeId = modifyM (kv_set ActiveTreeIdKey (be64 treeId))"

definition GetTreeCount :: "store \<Rightarrow> err + u64" where
  "GetTreeCount s = kv_u64 s TreeCountKey"

definition setTreeCount :: "u64 \<Rightarrow> (store, unit) M" where
  "setTreeCount count = modifyM (kv_set TreeCountKey (be64 count))"

definition GetTreeRoot :: "('vk, 'b) ext \<Rightarrow> store \<Rightarrow> u64 \<Rightarrow> bytes" where
  "GetTreeRoot E s treeId =
     (case kv_get s (TreeRootKey treeId) of
        None \<Rightarrow> zeroRootBytes E DefaultTreeDepth
      | Some bz \<Rightarrow> bz)"

definition GetTreeNextIndex :: "store \<Rightarrow> u64 \<Rightarrow> err + u64" where
  "GetTreeNextIndex s treeId = kv_u64 s (TreeNextIndexKey treeId)"

definition GetMerkleRoot :: "('vk, 'b) ext \<Rightarrow> store \<Rightarrow> err + bytes" where
  "GetMerkleRoot E s = bindE (GetActiveTreeId s) (\<lambda>treeId. Inr (GetTreeRoot E s treeId))"

definition GetNextIndex :: "store \<Rightarrow> err + u64" where
  "GetNextIndex s = bindE (GetActiveTreeId s) (\<lambda>treeId. GetTreeNextIndex s treeId)"

subsection \<open>Writing the forest\<close>

definition effective_depth :: "params \<Rightarrow> u32" where
  "effective_depth p = (let depth = TreeDepth p in if depth = 0 then DefaultTreeDepth else depth)"

definition levels :: "u32 \<Rightarrow> u32 list" where
  "levels depth = map of_nat [0..<unat depth]"

definition CreateTree :: "('vk, 'b) ext \<Rightarrow> (store, u64) M" where
  "CreateTree E =
     bindM (readM GetTreeCount) (\<lambda>count.
     let treeId = count in
     bindM (readM (GetParams E)) (\<lambda>params.
     let depth = effective_depth params in
     bindM (forM (levels depth) (\<lambda>level.
       modifyM (kv_set (FrontierKey treeId level) (frBytes (zeroHash E level))))) (\<lambda>_.
     let emptyRoot = zeroRootBytes E depth in
     bindM (setTreeRootIndexed treeId emptyRoot) (\<lambda>_.
     bindM (modifyM (kv_set (TreeNextIndexKey treeId) (be64 0))) (\<lambda>_.
     bindM (setTreeCount (count + 1)) (\<lambda>_.
     bindM (setActiveTreeId treeId) (\<lambda>_.
     returnM treeId)))))))"

definition EnsureTreeExists :: "('vk, 'b) ext \<Rightarrow> (store, unit) M" where
  "EnsureTreeExists E =
     bindM (readM GetTreeCount) (\<lambda>count.
     if count = 0 then bindM (CreateTree E) (\<lambda>_. returnM ())
     else returnM ())"

text \<open>The loop \<open>for level := 0; level < depth; level++\<close> of both insert functions, \<open>n\<close> levels
  to go.  The two differ in the key of a frontier slot.\<close>

fun walk_up ::
  "('vk, 'b) ext \<Rightarrow> (u32 \<Rightarrow> bytes) \<Rightarrow> nat \<Rightarrow> u32 \<Rightarrow> u64 \<Rightarrow> fr \<Rightarrow> (store, fr) M" where
  "walk_up E frontierKey 0 level idx current = returnM current"
| "walk_up E frontierKey (Suc n) level idx current =
     bindM
       (if idx mod 2 = 0 then
          bindM (modifyM (kv_set (frontierKey level) (frBytes current))) (\<lambda>_.
          returnM (hash2 E current (zeroHash E level)))
        else
          bindM (readM (\<lambda>s. Inr (kv_get s (frontierKey level)))) (\<lambda>frontierBytes.
          let left = (case frontierBytes of None \<Rightarrow> 0 | Some b \<Rightarrow> SetBytes b)
          in returnM (hash2 E left current)))
       (\<lambda>current'. walk_up E frontierKey n (level + 1) (drop_bit 1 idx) current')"

definition maxLeaves :: "u32 \<Rightarrow> u64" where
  "maxLeaves depth = push_bit (unat depth) 1"

definition insertLeafIntoTree ::
  "('vk, 'b) ext \<Rightarrow> u64 \<Rightarrow> bytes \<Rightarrow> u32 \<Rightarrow> (store, bytes \<times> u64) M" where
  "insertLeafIntoTree E treeId commitment depth =
     bindM (readM (\<lambda>s. kv_u64 s (TreeNextIndexKey treeId))) (\<lambda>index.
     if index \<ge> maxLeaves depth then throwM (Nix ErrTreeFull)
     else
       bindM (modifyM (kv_set (CommitmentKey treeId index) commitment)) (\<lambda>_.
       bindM (walk_up E (FrontierKey treeId) (unat depth) 0 index (SetBytes commitment))
         (\<lambda>current.
       let newRoot = frBytes current in
       bindM (setTreeRootIndexed treeId newRoot) (\<lambda>_.
       bindM (setRootHistoryIndexed treeId (index mod MaxRootHistory) newRoot) (\<lambda>_.
       bindM (modifyM (kv_set (TreeNextIndexKey treeId) (be64 (index + 1)))) (\<lambda>_.
       returnM (newRoot, index)))))))"

definition InsertNote :: "('vk, 'b) ext \<Rightarrow> bytes \<Rightarrow> (store, bytes \<times> u64 \<times> u64) M" where
  "InsertNote E commitment =
     bindM (EnsureTreeExists E) (\<lambda>_.
     let usedKey = CommitmentUsedKey commitment in
     bindM (readM (\<lambda>s. Inr (kv_has s usedKey))) (\<lambda>has.
     if has then throwM (Nix ErrDuplicateCommitment)
     else
       bindM (readM GetActiveTreeId) (\<lambda>activeId.
       bindM (readM (GetParams E)) (\<lambda>params.
       let depth = effective_depth params in
       bindM (readM (\<lambda>s. GetTreeNextIndex s activeId)) (\<lambda>nextIdx.
       bindM (if nextIdx \<ge> maxLeaves depth then CreateTree E else returnM activeId) (\<lambda>treeId.
       bindM (insertLeafIntoTree E treeId commitment depth) (\<lambda>(root, leafIndex).
       bindM (modifyM (kv_set usedKey [1])) (\<lambda>_.
       returnM (root, leafIndex, treeId)))))))))"

subsection \<open>Nullifiers\<close>

definition IsNullifierSpent :: "store \<Rightarrow> bytes \<Rightarrow> bool" where
  "IsNullifierSpent s nullifier = kv_has s (NullifierKey nullifier)"

definition MarkNullifierSpent :: "bytes \<Rightarrow> (store, unit) M" where
  "MarkNullifierSpent nullifier = modifyM (kv_set (NullifierKey nullifier) [1])"

subsection \<open>Root validation\<close>

definition IsKnownRoot :: "('vk, 'b) ext \<Rightarrow> store \<Rightarrow> u64 \<Rightarrow> bytes \<Rightarrow> bool" where
  "IsKnownRoot E s treeId root =
     (slice (kv_get s (TreeRootKey treeId)) = root \<or>
      (\<exists>i \<in> set [0..<unat MaxRootHistory].
         slice (kv_get s (RootHistoryKey treeId (of_nat i))) = root) \<or>
      zeroRootBytes E DefaultTreeDepth = root)"

definition IsValidRootAnyTree :: "('vk, 'b) ext \<Rightarrow> store \<Rightarrow> bytes \<Rightarrow> err + bool" where
  "IsValidRootAnyTree E s root =
     (if zeroRootBytes E DefaultTreeDepth = root then Inr True
      else bindE (rootRefCount s root) (\<lambda>n. Inr (n > 0)))"

text \<open>The scan the index replaced, kept by \<open>keeper/rootindex_test.go\<close> as its oracle.\<close>

definition scanIsValidRootAnyTree :: "('vk, 'b) ext \<Rightarrow> store \<Rightarrow> bytes \<Rightarrow> err + bool" where
  "scanIsValidRootAnyTree E s root =
     bindE (GetTreeCount s) (\<lambda>count.
     if count = 0 then Inr (zeroRootBytes E DefaultTreeDepth = root)
     else Inr (\<exists>t \<in> set [0..<unat count]. IsKnownRoot E s (of_nat t) root))"

definition StoreAuditorData :: "bytes \<Rightarrow> bytes \<Rightarrow> (store, unit) M" where
  "StoreAuditorData txHash data = modifyM (kv_set (AuditorDataKey txHash) data)"

subsection \<open>A tree in the store\<close>

text \<open>
  \<open>tree_rep\<close>: the slots under given keys represent a tree of depth \<open>d\<close> with the commitments
  \<open>cs\<close>, inserted in this order.  The keys are those of one note tree or of the registration
  tree; the locale states what both layouts provide.
\<close>

definition frontier_of :: "(u32 \<Rightarrow> skey) \<Rightarrow> store \<Rightarrow> nat \<Rightarrow> fr" where
  "frontier_of fkey s L =
     (case kv_get s (skey_bytes (fkey (of_nat L))) of None \<Rightarrow> 0 | Some b \<Rightarrow> SetBytes b)"

definition zeros :: "('vk, 'b) ext \<Rightarrow> nat \<Rightarrow> fr" where
  "zeros E L = zeroHash E (of_nat L)"

definition tree_rep ::
  "('vk, 'b) ext \<Rightarrow> (u64 \<Rightarrow> skey) \<Rightarrow> (u32 \<Rightarrow> skey) \<Rightarrow> skey \<Rightarrow> nat \<Rightarrow> store \<Rightarrow> bytes list \<Rightarrow> bool" where
  "tree_rep E ckey fkey nkey d s cs \<longleftrightarrow>
     kv_u64 s (skey_bytes nkey) = Inr (of_nat (length cs)) \<and> length cs \<le> 2 ^ d \<and>
     (\<forall>i < length cs. kv_get s (skey_bytes (ckey (of_nat i))) = Some (cs ! i)) \<and>
     frontier_inv (hash2 E) (leaf_fun (map SetBytes cs)) (length cs) d (frontier_of fkey s)"

locale tree_layout =
  fixes ckey :: "u64 \<Rightarrow> skey" and fkey :: "u32 \<Rightarrow> skey" and nkey :: skey
  assumes ckey_inj: "ckey i = ckey j \<longleftrightarrow> i = j"
    and fkey_inj: "fkey k = fkey l \<longleftrightarrow> k = l"
    and keys_apart: "ckey i \<noteq> fkey l" "ckey i \<noteq> nkey" "fkey l \<noteq> nkey"
begin

lemma frontier_of_set:
  assumes "k < 2 ^ 32" "L < 2 ^ 32"
  shows "frontier_of fkey (kv_set (skey_bytes (fkey (of_nat L))) b s) k =
    (if k = L then SetBytes b else frontier_of fkey s k)"
proof -
  have "(of_nat k :: u32) = of_nat L \<longleftrightarrow> k = L"
    using assms by (metis unat_of_nat_u32)
  then show ?thesis by (simp add: frontier_of_def fkey_inj)
qed

text \<open>The loop of the code computes what \<open>climb\<close> computes.\<close>

lemma walk_up_climb:
  assumes "L + n < 2 ^ 32" "i < 2 ^ 64" and "\<And>k. k < 2 ^ 32 \<Longrightarrow> frontier_of fkey s k = F k"
  obtains s' where
    "walk_up E (\<lambda>l. skey_bytes (fkey l)) n (of_nat L) (of_nat i) c s =
       (Inr (fst (climb (hash2 E) (zeros E) n L i c F)), s')"
    and "\<And>k. k < 2 ^ 32 \<Longrightarrow> frontier_of fkey s' k = snd (climb (hash2 E) (zeros E) n L i c F) k"
    and "touches (range fkey) s s'"
  using assms
proof (induction n arbitrary: L i c s F thesis)
  case 0
  show ?case by (rule "0.prems"(1) [of s]) (simp_all add: "0.prems" touch.R_refl)
next
  case (Suc n)
  have par: "(of_nat i :: u64) mod 2 = 0 \<longleftrightarrow> even i"
  proof -
    have "(of_nat i :: u64) mod 2 = 0 \<longleftrightarrow> unat (of_nat i :: u64) mod 2 = 0"
      by (simp add: word_eq_iff_unsigned unat_mod flip: unat_eq_0)
    then show ?thesis
      using unat_of_nat_u64 [OF Suc.prems(3)] by (simp add: even_iff_mod_2_eq_zero)
  qed
  have half: "drop_bit 1 (of_nat i :: u64) = of_nat (i div 2)"
    using unat_of_nat_u64 [OF Suc.prems(3)] unat_of_nat_u64 [of "i div 2"] Suc.prems(3)
    by (simp add: word_unat_eq_iff drop_bit_Suc drop_bit_eq_div unat_div_distrib)
  note half = half [unfolded One_nat_def]
  have zl: "zeroHash E (of_nat L) = zeros E L" by (simp add: zeros_def)
  have lev: "(of_nat L :: u32) + 1 = of_nat (Suc L)" by (simp add: add.commute)
  have L: "L < 2 ^ 32" "Suc L + n < 2 ^ 32" and i: "i div 2 < 2 ^ 64"
    using Suc.prems(2,3) by simp_all
  show ?case
  proof (cases "even i")
    case True
    let ?s = "kv_set (skey_bytes (fkey (of_nat L))) (frBytes c) s"
    have "\<And>k. k < 2 ^ 32 \<Longrightarrow> frontier_of fkey ?s k = (F(L := c)) k"
      by (simp only: frontier_of_set [OF _ L(1)] Suc.prems(4) fun_upd_apply SetBytes_frBytes)
    from Suc.IH [OF _ L(2) i this, where c = "hash2 E c (zeros E L)"] obtain s' where
      1: "walk_up E (\<lambda>l. skey_bytes (fkey l)) n (of_nat (Suc L)) (of_nat (i div 2))
           (hash2 E c (zeros E L)) ?s =
         (Inr (fst (climb (hash2 E) (zeros E) n (Suc L) (i div 2) (hash2 E c (zeros E L)) (F(L := c)))), s')"
      and 2: "\<And>k. k < 2 ^ 32 \<Longrightarrow> frontier_of fkey s' k =
         snd (climb (hash2 E) (zeros E) n (Suc L) (i div 2) (hash2 E c (zeros E L)) (F(L := c))) k"
      and 3: "touches (range fkey) ?s s'" by blast
    have "touches (range fkey) s s'"
      by (rule touch.R_trans [OF _ 3]) simp
    then show ?thesis
      using 1 2 True by (intro Suc.prems(1) [of s']) (simp_all add: par half lev zl bindM_assoc del: of_nat_Suc)
  next
    case False
    let ?c = "hash2 E (F L) c"
    have fl: "(case kv_get s (skey_bytes (fkey (of_nat L))) of None \<Rightarrow> 0 | Some b \<Rightarrow> SetBytes b) = F L"
      using Suc.prems(4) [OF L(1)] by (simp add: frontier_of_def)
    from Suc.IH [OF _ L(2) i Suc.prems(4), where c = ?c] obtain s' where
      1: "walk_up E (\<lambda>l. skey_bytes (fkey l)) n (of_nat (Suc L)) (of_nat (i div 2)) ?c s =
         (Inr (fst (climb (hash2 E) (zeros E) n (Suc L) (i div 2) ?c F)), s')"
      and 2: "\<And>k. k < 2 ^ 32 \<Longrightarrow> frontier_of fkey s' k =
         snd (climb (hash2 E) (zeros E) n (Suc L) (i div 2) ?c F) k"
      and 3: "touches (range fkey) s s'" by blast
    then show ?thesis
      using False by (intro Suc.prems(1) [of s']) (simp_all add: par half lev fl Let_def bindM_assoc del: of_nat_Suc)
  qed
qed

text \<open>One insertion, as both insert functions do it: write the leaf, walk up, write the next
  index (the root is written in between, to slots of the client).\<close>

lemma insert_rep:
  fixes c :: bytes
  assumes rep: "tree_rep E ckey fkey nkey d s cs" and laws: "zero_hash_laws E"
    and room: "length cs < 2 ^ d" and d: "d < 64"
  defines "s1 \<equiv> kv_set (skey_bytes (ckey (of_nat (length cs)))) c s"
  obtains s2 where
    "walk_up E (\<lambda>l. skey_bytes (fkey l)) d 0 (of_nat (length cs)) (SetBytes c) s1 =
       (Inr (merkle_root (hash2 E) d (map SetBytes (cs @ [c]))), s2)"
    and "touches (range fkey) s1 s2"
    and "\<And>K t. touches K s2 t \<Longrightarrow> range ckey \<inter> K = {} \<Longrightarrow> range fkey \<inter> K = {} \<Longrightarrow>
      kv_u64 t (skey_bytes nkey) = Inr (of_nat (Suc (length cs))) \<Longrightarrow>
      tree_rep E ckey fkey nkey d t (cs @ [c])"
proof -
  let ?n = "length cs" and ?ls = "map SetBytes cs"
  let ?climb = "climb (hash2 E) (zeros E) d 0 ?n (SetBytes c) (frontier_of fkey s)"
  have n64: "?n < 2 ^ 64"
    using room power_strict_increasing [OF d, of "2::nat"] by simp
  have fr1: "frontier_of fkey s1 = frontier_of fkey s"
    by (rule ext) (simp add: frontier_of_def s1_def keys_apart keys_apart(1) [symmetric])
  have z: "\<And>L. L < d \<Longrightarrow> zeros E (Suc L) = hash2 E (zeros E L) (zeros E L)" and z0: "zeros E 0 = 0"
    using laws d by (simp_all add: zero_hash_laws_def zeros_def del: of_nat_Suc)
  have inv: "frontier_inv (hash2 E) (leaf_fun ?ls) (length ?ls) d (frontier_of fkey s)"
    using rep by (simp add: tree_rep_def)
  obtain F' where climb: "?climb = (merkle_root (hash2 E) d (?ls @ [SetBytes c]), F')"
    and inv': "frontier_inv (hash2 E) (leaf_fun (?ls @ [SetBytes c])) (Suc (length ?ls)) d F'"
    using climb_insert [of d "zeros E" "hash2 E" ?ls "frontier_of fkey s" "SetBytes c"] z z0 inv room
    by auto
  have "0 + d < 2 ^ 32" using d by simp
  then obtain s2 where
    run: "walk_up E (\<lambda>l. skey_bytes (fkey l)) d (of_nat 0) (of_nat ?n) (SetBytes c) s1 =
       (Inr (fst ?climb), s2)"
    and fr2: "\<And>k. k < 2 ^ 32 \<Longrightarrow> frontier_of fkey s2 k = snd ?climb k"
    and t12: "touches (range fkey) s1 s2"
    using walk_up_climb [of 0 d ?n s1 "frontier_of fkey s"] n64 fr1 by metis
  show ?thesis
  proof (rule that [OF _ t12])
    show "walk_up E (\<lambda>l. skey_bytes (fkey l)) d 0 (of_nat ?n) (SetBytes c) s1 =
       (Inr (merkle_root (hash2 E) d (map SetBytes (cs @ [c]))), s2)"
      using run climb by simp
  next
    fix K t
    assume t: "touches K s2 t" and K: "range ckey \<inter> K = {}" "range fkey \<inter> K = {}"
      and nxt: "kv_u64 t (skey_bytes nkey) = Inr (of_nat (Suc ?n))"
    have fk: "fkey l \<notin> K" and ck: "ckey i \<notin> K" for l i using K by auto
    have leaf: "kv_get t (skey_bytes (ckey (of_nat i))) = Some ((cs @ [c]) ! i)" if "i < Suc ?n" for i
    proof -
      have "kv_get t (skey_bytes (ckey (of_nat i))) = kv_get s1 (skey_bytes (ckey (of_nat i)))"
        using touches_get [OF t ck] touches_get [OF t12] keys_apart(1) by (simp add: image_iff)
      moreover have "(of_nat i :: u64) = of_nat ?n \<longleftrightarrow> i = ?n"
        using that n64 by (metis less_Suc_eq_le order_le_less_trans unat_of_nat_u64)
      ultimately show ?thesis
        using that rep by (auto simp: s1_def ckey_inj tree_rep_def nth_append less_Suc_eq)
    qed
    have "frontier_inv (hash2 E) (leaf_fun (?ls @ [SetBytes c])) (Suc ?n) d (frontier_of fkey t)"
    proof -
      have "frontier_of fkey t k = F' k" if "k < d" for k
        using fr2 [of k] climb that d touches_get [OF t fk] by (simp add: frontier_of_def)
      then show ?thesis using inv' by (simp add: frontier_inv_def)
    qed
    then show "tree_rep E ckey fkey nkey d t (cs @ [c])"
      using nxt leaf room by (simp add: tree_rep_def Suc_le_eq)
  qed
qed

lemma tree_rep_frame:
  assumes "tree_rep E ckey fkey nkey d s cs" "touches K s t"
    and "range ckey \<inter> K = {}" "range fkey \<inter> K = {}" "nkey \<notin> K"
  shows "tree_rep E ckey fkey nkey d t cs"
proof -
  have k: "fkey l \<notin> K" "ckey i \<notin> K" for l i using assms(3,4) by auto
  have "frontier_of fkey t = frontier_of fkey s"
    by (rule ext) (simp add: frontier_of_def touches_get [OF assms(2)] k)
  then show ?thesis
    using assms(1,5)
    by (simp add: tree_rep_def touches_get [OF assms(2)] touches_u64 [OF assms(2)] k)
qed

end

text \<open>Both layouts of the store are tree layouts.\<close>

interpretation noteTree: tree_layout "KCommitment t" "KFrontier t" "KTreeNextIndex t" for t
  by unfold_locales simp_all

interpretation regTree: tree_layout KRegCommitment KRegFrontier KRegNextIndex
  by unfold_locales simp_all

end
