(* ===== verification/ForestInv.thy ===== *)
theory ForestInv
  imports Forest
begin

section \<open>The note forest refines an append-only list of trees\<close>

text \<open>
  The abstract forest is the list of the trees' commitments, in the order of insertion.
  \<open>note_tree\<close> relates one tree of the store to its commitments: leaves, next index, frontier,
  current root (the Merkle root of the leaves) and root history (the roots after each of the
  last \<open>MaxRootHistory\<close> insertions, at the ring-buffer slots).  \<open>forest_ok\<close> relates the whole
  store to the abstract forest; \<open>InsertNote\<close> is shown to implement \<open>forest_insert\<close>.
\<close>

abbreviation roots_of :: "('vk, 'b) ext \<Rightarrow> nat \<Rightarrow> bytes list \<Rightarrow> fr" where
  "roots_of E d cs \<equiv> merkle_root (hash2 E) d (map SetBytes cs)"

definition history_ok :: "('vk, 'b) ext \<Rightarrow> nat \<Rightarrow> store \<Rightarrow> u64 \<Rightarrow> bytes list \<Rightarrow> bool" where
  "history_ok E d s t cs \<longleftrightarrow>
     (\<forall>j < length cs. length cs \<le> j + 100 \<longrightarrow>
        kv_get s (RootHistoryKey t (of_nat (j mod 100))) =
          Some (frBytes (roots_of E d (take (Suc j) cs)))) \<and>
     (\<forall>k. min (length cs) 100 \<le> unat k \<longrightarrow> slice (kv_get s (RootHistoryKey t k)) = [])"

definition note_tree :: "('vk, 'b) ext \<Rightarrow> nat \<Rightarrow> store \<Rightarrow> u64 \<Rightarrow> bytes list \<Rightarrow> bool" where
  "note_tree E d s t cs \<longleftrightarrow>
     tree_rep E (KCommitment t) (KFrontier t) (KTreeNextIndex t) d s cs \<and>
     kv_get s (TreeRootKey t) = Some (frBytes (roots_of E d cs)) \<and>
     history_ok E d s t cs"

definition tree_skeys :: "u64 \<Rightarrow> skey set" where
  "tree_skeys t =
     range (KCommitment t) \<union> range (KFrontier t) \<union> range (KRootHistory t) \<union>
     {KTreeNextIndex t, KTreeRoot t}"

definition root_slots_in :: "store \<Rightarrow> nat \<Rightarrow> bool" where
  "root_slots_in s m \<longleftrightarrow>
     (\<forall>sl. slot_root s sl \<noteq> None \<longrightarrow> sl \<in> set (scan_slots (of_nat m)))"

text \<open>The number of trees the theorems speak about: far beyond what a chain can create, and
  small enough that no counter wraps.\<close>

definition tree_bound :: nat where
  "tree_bound = 2 ^ 56"

definition forest_ok :: "('vk, 'b) ext \<Rightarrow> nat \<Rightarrow> store \<Rightarrow> bytes list list \<Rightarrow> bool" where
  "forest_ok E d s css \<longleftrightarrow>
     length css < tree_bound \<and>
     GetTreeCount s = Inr (of_nat (length css)) \<and>
     GetActiveTreeId s = Inr (of_nat (length css - 1)) \<and>
     (\<forall>t < length css. note_tree E d s (of_nat t) (css ! t)) \<and>
     index_ok s \<and> root_slots_in s (length css) \<and>
     (\<forall>x. kv_has s (skey_bytes (KCommitmentUsed x)) \<longleftrightarrow> x \<in> SetBytes ` set (concat css)) \<and>
     distinct (map SetBytes (concat css))"

definition depth_is :: "('vk, 'b) ext \<Rightarrow> store \<Rightarrow> nat \<Rightarrow> bool" where
  "depth_is E s d \<longleftrightarrow> d < 64 \<and> (\<exists>p. GetParams E s = Inr p \<and> unat (effective_depth p) = d)"

definition forest_insert :: "nat \<Rightarrow> bytes list list \<Rightarrow> bytes \<Rightarrow> bytes list list" where
  "forest_insert d css c =
     (let css' = (if css = [] then [[]] else css)
      in if 2 ^ d \<le> length (last css') then css' @ [[c]]
         else butlast css' @ [last css' @ [c]])"

subsection \<open>Bounds\<close>

lemma unat_maxLeaves: "unat depth < 64 \<Longrightarrow> unat (maxLeaves depth) = 2 ^ unat depth"
proof -
  assume d: "unat depth < 64"
  have "unat (maxLeaves depth) = take_bit 64 (2 ^ unat depth)"
    by (simp only: maxLeaves_def unsigned_push_bit_eq) (simp add: push_bit_eq_mult [where 'a = nat])
  also have "\<dots> = 2 ^ unat depth"
    using power_strict_increasing [OF d, of "2::nat"] by (simp add: take_bit_eq_mod)
  finally show ?thesis .
qed

lemma maxLeaves_zero: "64 \<le> unat depth \<Longrightarrow> maxLeaves depth = 0"
  by (simp add: maxLeaves_def push_bit_eq_mult exp_eq_zero_iff)

lemma length_scan_slots: "length (scan_slots n) = 101 * unat n"
proof -
  have "sum_list (map (\<lambda>t. length (tree_slots (of_nat t))) xs) = 101 * length xs" for xs
    by (induction xs) (simp_all add: tree_slots_def)
  then show ?thesis by (simp add: scan_slots_def length_concat comp_def)
qed

lemma root_slots_in_bounded:
  assumes "root_slots_in s m" "m \<le> 2 * tree_bound"
  shows "slots_bounded s"
proof -
  have "card {sl. slot_root s sl \<noteq> None} \<le> card (set (scan_slots (of_nat m)))"
    using assms(1) by (intro card_mono) (auto simp: root_slots_in_def)
  also have "\<dots> \<le> 101 * m"
  proof -
    have "unat (of_nat m :: u64) = m"
      using assms(2) by (intro unat_of_nat_u64) (simp add: tree_bound_def)
    then show ?thesis by (metis card_length length_scan_slots)
  qed
  finally show ?thesis using assms(2) by (simp add: slots_bounded_def tree_bound_def)
qed

lemma root_slots_in_upd:
  assumes "root_slots_in s m" and "slot_root s' = (slot_root s)(sl := x)"
    and "sl \<in> set (scan_slots (of_nat m))"
  shows "root_slots_in s' m"
  using assms by (auto simp: root_slots_in_def)

lemma root_slots_in_mono:
  assumes "root_slots_in s m" "m \<le> n" "n < 2 ^ 64"
  shows "root_slots_in s n"
proof -
  have "(of_nat m :: u64) \<le> of_nat n"
    using assms(2,3) by (simp add: word_le_nat_alt unat_of_nat_u64)
  then have "set (scan_slots (of_nat m)) \<subseteq> set (scan_slots (of_nat n))"
    by (auto simp: set_scan_slots)
  with assms(1) show ?thesis by (auto simp: root_slots_in_def)
qed

subsection \<open>What a call that does not touch a tree leaves in place\<close>

lemma slot_skey_cases: "slot_skey sl \<in> K \<longleftrightarrow>
    (case sl of CurrentRoot t \<Rightarrow> KTreeRoot t \<in> K | HistoryRoot t i \<Rightarrow> KRootHistory t i \<in> K)"
  by (cases sl) simp_all

lemma index_ok_frame:
  assumes "touches K s s'" "range KRootIndex \<inter> K = {}" "\<And>sl. slot_skey sl \<notin> K"
  shows "index_ok s' \<longleftrightarrow> index_ok s" "slot_root s' = slot_root s"
proof -
  show roots: "slot_root s' = slot_root s" using assms(1,3) by (rule touches_slot_root)
  have "index_entry s' = index_entry s"
  proof
    fix r
    have "KRootIndex r \<notin> K" using assms(2) by auto
    then show "index_entry s' r = index_entry s r"
      by (simp add: index_entry_def touches_get [OF assms(1)])
  qed
  with roots show "index_ok s' \<longleftrightarrow> index_ok s" by (simp add: index_ok_count index_is_def)
qed

text \<open>Calls that write no root slot and no index entry keep the index.\<close>

lemma index_frame:
  assumes "touches K s s'" "\<And>r. KRootIndex r \<notin> K" "\<And>t. KTreeRoot t \<notin> K"
    "\<And>t i. KRootHistory t i \<notin> K" and "index_ok s" "root_slots_in s m"
  shows "index_ok s'" "root_slots_in s' m"
proof -
  have "slot_skey sl \<notin> K" for sl using assms(3,4) by (cases sl) simp_all
  note f = index_ok_frame [OF assms(1) _ this]
  have "range KRootIndex \<inter> K = {}" using assms(2) by auto
  with f assms(5,6) show "index_ok s'" "root_slots_in s' m" by (simp_all add: root_slots_in_def)
qed

lemma FrontierKey_fun: "FrontierKey t = (\<lambda>l. skey_bytes (KFrontier t l))"
  by (rule ext) simp

lemma tree_skeys_mem [simp]:
  "KRootHistory t i \<in> tree_skeys t" "KTreeRoot t \<in> tree_skeys t"
  "KTreeNextIndex t \<in> tree_skeys t" "KCommitment t i \<in> tree_skeys t"
  "KFrontier t l \<in> tree_skeys t"
  by (simp_all add: tree_skeys_def)

lemma note_tree_frame:
  assumes nt: "note_tree E d s t cs" and t: "touches K s s'" and K: "tree_skeys t \<inter> K = {}"
  shows "note_tree E d s' t cs"
proof -
  have notin: "x \<in> tree_skeys t \<Longrightarrow> x \<notin> K" for x using K by blast
  have k: "KRootHistory t i \<notin> K" "KTreeRoot t \<notin> K" "KTreeNextIndex t \<notin> K" for i
    by (rule notin, simp)+
  have k': "range (KCommitment t) \<inter> K = {}" "range (KFrontier t) \<inter> K = {}"
    using notin [OF tree_skeys_mem(4)] notin [OF tree_skeys_mem(5)] by blast+
  have "tree_rep E (KCommitment t) (KFrontier t) (KTreeNextIndex t) d s cs"
    using nt by (simp only: note_tree_def)
  then have "tree_rep E (KCommitment t) (KFrontier t) (KTreeNextIndex t) d s' cs"
    by (rule noteTree.tree_rep_frame [OF _ t k' k(3)])
  moreover have "kv_get s' (TreeRootKey t) = kv_get s (TreeRootKey t)"
    and "\<And>i. kv_get s' (RootHistoryKey t i) = kv_get s (RootHistoryKey t i)"
    using touches_get [OF t k(2)] touches_get [OF t k(1)] by simp_all
  ultimately show ?thesis
    using nt unfolding note_tree_def history_ok_def by (simp del: key_simps)
qed

subsection \<open>Inserting a leaf\<close>

lemma of_nat_mod_history:
  "n < 2 ^ 64 \<Longrightarrow> (of_nat n :: u64) mod MaxRootHistory = of_nat (n mod 100)"
proof -
  assume n: "n < 2 ^ 64"
  have "unat ((of_nat n :: u64) mod MaxRootHistory) = n mod 100"
    by (simp only: unat_mod unat_of_nat_u64 [OF n] MaxRootHistory_unat)
  moreover have "unat (of_nat (n mod 100) :: u64) = n mod 100"
    by (intro unat_of_nat_u64 less_le_trans [OF mod_less_divisor]) simp_all
  ultimately show ?thesis by (simp only: word_unat_eq_iff)
qed

lemma unat_history_slot: "unat (of_nat (j mod 100) :: u64) = j mod 100"
  by (intro unat_of_nat_u64 less_le_trans [OF mod_less_divisor]) simp_all

lemma history_ok_insert:
  assumes old: "history_ok E d s t cs"
    and new: "kv_get s' (RootHistoryKey t (of_nat (length cs mod 100))) =
      Some (frBytes (roots_of E d (cs @ [c])))"
    and rest: "\<And>k. k \<noteq> of_nat (length cs mod 100) \<Longrightarrow>
      kv_get s' (RootHistoryKey t k) = kv_get s (RootHistoryKey t k)"
  shows "history_ok E d s' t (cs @ [c])"
  unfolding history_ok_def
proof (intro conjI allI impI)
  fix j assume j: "j < length (cs @ [c])" "length (cs @ [c]) \<le> j + 100"
  show "kv_get s' (RootHistoryKey t (of_nat (j mod 100))) =
      Some (frBytes (roots_of E d (take (Suc j) (cs @ [c]))))"
  proof (cases "j = length cs")
    case True
    with new show ?thesis by simp
  next
    case False
    with j have j': "j < length cs" "length cs - j < 100" by auto
    have "j mod 100 \<noteq> length cs mod 100"
    proof
      assume "j mod 100 = length cs mod 100"
      then have "100 dvd length cs - j" using j'(1) by (metis less_imp_le mod_eq_dvd_iff_nat)
      with j' show False by (auto dest: dvd_imp_le)
    qed
    then have "(of_nat (j mod 100) :: u64) \<noteq> of_nat (length cs mod 100)"
      by (metis unat_history_slot)
    from rest [OF this] have "kv_get s' (RootHistoryKey t (of_nat (j mod 100))) =
        kv_get s (RootHistoryKey t (of_nat (j mod 100)))" .
    moreover have "length cs \<le> j + 100" using j' by simp
    ultimately show ?thesis
      using old j'(1) by (simp add: history_ok_def)
  qed
next
  fix k :: u64 assume k: "min (length (cs @ [c])) 100 \<le> unat k"
  have "length cs mod 100 < min (length (cs @ [c])) 100"
    using mod_less_eq_dividend [of "length cs" 100] by (simp add: less_Suc_eq_le)
  then have "k \<noteq> of_nat (length cs mod 100)"
    using k unat_history_slot [of "length cs"] by auto
  from rest [OF this] show "slice (kv_get s' (RootHistoryKey t k)) = []"
    using old k by (simp add: history_ok_def)
qed

text \<open>The two indexed writes of one insertion.\<close>

lemma publish_root:
  assumes ok: "index_ok s" and slots: "root_slots_in s m" and t: "t < of_nat m" "m \<le> 2 * tree_bound"
    and h: "h < MaxRootHistory" and r: "r \<noteq> []"
  obtains s3 s' where "setTreeRootIndexed t r s = (Inr (), s3)"
    and "setRootHistoryIndexed t h r s3 = (Inr (), s')"
    and "index_ok s'" and "root_slots_in s' m"
    and "kv_get s' (TreeRootKey t) = Some r" and "kv_get s' (RootHistoryKey t h) = Some r"
    and "touches ({KTreeRoot t, KRootHistory t h} \<union> range KRootIndex) s s'"
proof -
  let ?K = "{KTreeRoot t, KRootHistory t h} \<union> range KRootIndex"
  have some: "slice v = r \<Longrightarrow> v = Some r" for v using r by (cases v) simp_all
  from setSlotIndexed_correct [OF ok root_slots_in_bounded [OF slots t(2)], of "CurrentRoot t" r]
  obtain s3 where set3: "setSlotIndexed (skey_bytes (KTreeRoot t)) r s = (Inr (), s3)"
    and ok3: "index_ok s3" and roots3: "slot_root s3 = (slot_root s)(CurrentRoot t := root_opt r)"
    and get3: "slice (kv_get s3 (skey_bytes (KTreeRoot t))) = r"
    and t3: "touches (insert (KTreeRoot t) (range KRootIndex)) s s3"
    by (metis slot_skey.simps(1))
  have slots3: "root_slots_in s3 m"
    using slots roots3 by (rule root_slots_in_upd) (simp add: set_scan_slots t)
  from setSlotIndexed_correct [OF ok3 root_slots_in_bounded [OF slots3 t(2)], of "HistoryRoot t h" r]
  obtain s4 where set4: "setSlotIndexed (skey_bytes (KRootHistory t h)) r s3 = (Inr (), s4)"
    and ok4: "index_ok s4" and roots4: "slot_root s4 = (slot_root s3)(HistoryRoot t h := root_opt r)"
    and get4: "slice (kv_get s4 (skey_bytes (KRootHistory t h))) = r"
    and t4: "touches (insert (KRootHistory t h) (range KRootIndex)) s3 s4"
    by (metis slot_skey.simps(2))
  have slots4: "root_slots_in s4 m"
    using slots3 roots4 by (rule root_slots_in_upd) (simp add: set_scan_slots t h)
  have "touches ?K s s4"
    by (rule touch.R_trans [OF touches_mono [OF t3] touches_mono [OF t4]]) auto
  moreover have "kv_get s4 (TreeRootKey t) = Some r"
    using touches_get [OF t4, of "KTreeRoot t"] some [OF get3] by auto
  ultimately show ?thesis
    using that [of s3 s4] set3 set4 ok4 slots4 some [OF get4]
    by (simp add: setTreeRootIndexed_def setRootHistoryIndexed_def)
qed

text \<open>The leaf and the frontier: the part of an insertion that no root slot sees.\<close>

lemma write_leaf:
  fixes c :: bytes
  assumes rep: "tree_rep E (KCommitment t) (KFrontier t) (KTreeNextIndex t) d s cs"
    and laws: "zero_hash_laws E" and room: "length cs < 2 ^ d" and d: "d < 64" "unat depth = d"
  obtains s2 where
    "bindM (modifyM (kv_set (CommitmentKey t (of_nat (length cs))) c)) (\<lambda>_.
       walk_up E (FrontierKey t) (unat depth) 0 (of_nat (length cs)) (SetBytes c)) s =
       (Inr (roots_of E d (cs @ [c])), s2)"
    and "touches (range (KCommitment t) \<union> range (KFrontier t)) s s2"
    and "\<And>K u. touches K s2 u \<Longrightarrow> range (KCommitment t) \<inter> K = {} \<Longrightarrow>
      range (KFrontier t) \<inter> K = {} \<Longrightarrow>
      kv_u64 u (TreeNextIndexKey t) = Inr (of_nat (Suc (length cs))) \<Longrightarrow>
      tree_rep E (KCommitment t) (KFrontier t) (KTreeNextIndex t) d u (cs @ [c])"
proof -
  let ?K = "range (KCommitment t) \<union> range (KFrontier t)"
  let ?s1 = "kv_set (skey_bytes (KCommitment t (of_nat (length cs)))) c s"
  from noteTree.insert_rep [OF rep laws room d(1), of c] obtain s2 where
    walk: "walk_up E (\<lambda>l. skey_bytes (KFrontier t l)) d 0 (of_nat (length cs)) (SetBytes c) ?s1 =
       (Inr (roots_of E d (cs @ [c])), s2)"
    and t12: "touches (range (KFrontier t)) ?s1 s2"
    and rep': "\<And>K u. touches K s2 u \<Longrightarrow> range (KCommitment t) \<inter> K = {} \<Longrightarrow>
      range (KFrontier t) \<inter> K = {} \<Longrightarrow>
      kv_u64 u (skey_bytes (KTreeNextIndex t)) = Inr (of_nat (Suc (length cs))) \<Longrightarrow>
      tree_rep E (KCommitment t) (KFrontier t) (KTreeNextIndex t) d u (cs @ [c])"
    by blast
  have "touches ?K s s2"
    by (rule touch.R_trans [OF touches_set touches_mono [OF t12]]) auto
  then show ?thesis
    using that [of s2] walk rep' d(2) by (simp add: FrontierKey_fun)
qed

lemma notfull_word:
  "n < 2 ^ d \<Longrightarrow> d < 64 \<Longrightarrow> unat depth = d \<Longrightarrow> (of_nat n :: u64) \<ge> maxLeaves depth \<longleftrightarrow> False"
  "2 ^ d \<le> n \<Longrightarrow> n < 2 ^ 64 \<Longrightarrow> d < 64 \<Longrightarrow> unat depth = d \<Longrightarrow>
     (of_nat n :: u64) \<ge> maxLeaves depth \<longleftrightarrow> True"
proof -
  assume d: "d < 64" "unat depth = d"
  have "(2::nat) ^ d < 2 ^ 64" using d(1) by (rule power_strict_increasing) simp
  then show "n < 2 ^ d \<Longrightarrow> (of_nat n :: u64) \<ge> maxLeaves depth \<longleftrightarrow> False"
    using d unat_maxLeaves [of depth] unat_of_nat_u64 [of n]
    by (simp only: word_le_nat_alt) (simp del: power_strict_increasing_iff)
  show "2 ^ d \<le> n \<Longrightarrow> n < 2 ^ 64 \<Longrightarrow> (of_nat n :: u64) \<ge> maxLeaves depth \<longleftrightarrow> True"
    using d unat_maxLeaves [of depth] unat_of_nat_u64 [of n]
    by (simp only: word_le_nat_alt)
qed

lemma insertLeaf_ok:
  fixes c :: bytes
  assumes nt: "note_tree E d s t cs" and ok: "index_ok s" and slots: "root_slots_in s m"
    and t: "t < of_nat m" "m \<le> 2 * tree_bound" and laws: "zero_hash_laws E"
    and room: "length cs < 2 ^ d" and d: "d < 64" "unat depth = d"
  obtains s' where
    "insertLeafIntoTree E t c depth s =
       (Inr (frBytes (roots_of E d (cs @ [c])), of_nat (length cs)), s')"
    and "note_tree E d s' t (cs @ [c])" and "index_ok s'" and "root_slots_in s' m"
    and "touches (tree_skeys t \<union> range KRootIndex) s s'"
proof -
  let ?n = "length cs" and ?r = "frBytes (roots_of E d (cs @ [c]))"
  let ?h = "of_nat (?n mod 100) :: u64"
  have n64: "?n < 2 ^ 64"
    using room power_strict_increasing [OF d(1), of "2::nat"] by simp
  have rep: "tree_rep E (KCommitment t) (KFrontier t) (KTreeNextIndex t) d s cs"
    and hist: "history_ok E d s t cs"
    using nt by (simp_all only: note_tree_def)
  have idx: "kv_u64 s (TreeNextIndexKey t) = Inr (of_nat ?n)"
    using rep by (simp add: tree_rep_def)
  obtain s2 where leaf: "bindM (modifyM (kv_set (CommitmentKey t (of_nat ?n)) c)) (\<lambda>_.
       walk_up E (FrontierKey t) (unat depth) 0 (of_nat ?n) (SetBytes c)) s =
       (Inr (roots_of E d (cs @ [c])), s2)"
    and t02: "touches (range (KCommitment t) \<union> range (KFrontier t)) s s2" (is "touches ?K12 _ _")
    and rep': "\<And>K u. touches K s2 u \<Longrightarrow> range (KCommitment t) \<inter> K = {} \<Longrightarrow>
      range (KFrontier t) \<inter> K = {} \<Longrightarrow> kv_u64 u (TreeNextIndexKey t) = Inr (of_nat (Suc ?n)) \<Longrightarrow>
      tree_rep E (KCommitment t) (KFrontier t) (KTreeNextIndex t) d u (cs @ [c])"
    using write_leaf [OF rep laws room d] by blast
  have "index_ok s2" "root_slots_in s2 m"
    by (rule index_frame [OF t02 _ _ _ ok slots]; auto)+
  moreover have "?h < MaxRootHistory"
    by (simp only: word_less_nat_alt unat_history_slot MaxRootHistory_unat mod_less_divisor zero_less_numeral)
  ultimately obtain s3 s4 where set: "setTreeRootIndexed t ?r s2 = (Inr (), s3)"
    "setRootHistoryIndexed t ?h ?r s3 = (Inr (), s4)"
    and ok4: "index_ok s4" "root_slots_in s4 m"
    and get4: "kv_get s4 (TreeRootKey t) = Some ?r" "kv_get s4 (RootHistoryKey t ?h) = Some ?r"
    and t24: "touches ({KTreeRoot t, KRootHistory t ?h} \<union> range KRootIndex) s2 s4"
    using publish_root [OF _ _ t, of s2 ?h ?r] by (metis frBytes_not_Nil)
  define s5 where "s5 = kv_set (skey_bytes (KTreeNextIndex t)) (be64 (of_nat ?n + 1)) s4"
  have run: "insertLeafIntoTree E t c depth s = (Inr (?r, of_nat ?n), s5)"
    using set leaf idx notfull_word(1) [OF room d]
    by (simp add: insertLeafIntoTree_def bindM_Inr Let_def of_nat_mod_history [OF n64] s5_def)
  have t45: "touches {KTreeNextIndex t} s4 s5" by (simp add: s5_def)
  let ?K25 = "{KTreeNextIndex t, KTreeRoot t, KRootHistory t ?h} \<union> range KRootIndex"
  have t25: "touches ?K25 s2 s5"
    by (rule touch.R_trans [OF touches_mono [OF t24] touches_mono [OF t45]]) auto
  show ?thesis
  proof (rule that [OF run])
    show "index_ok s5" "root_slots_in s5 m"
      by (rule index_frame [OF t45 _ _ _ ok4]; simp)+
    show "touches (tree_skeys t \<union> range KRootIndex) s s5"
      by (rule touch.R_trans [OF touches_mono [OF t02] touches_mono [OF t25]])
        (auto simp: tree_skeys_def)
    have "tree_rep E (KCommitment t) (KFrontier t) (KTreeNextIndex t) d s5 (cs @ [c])"
      using t25 by (rule rep') (auto simp: s5_def add.commute)
    moreover have "history_ok E d s5 t (cs @ [c])"
    proof (rule history_ok_insert [OF hist])
      show "kv_get s5 (RootHistoryKey t ?h) = Some ?r" using get4 by (simp add: s5_def)
      fix k :: u64 assume "k \<noteq> ?h"
      then show "kv_get s5 (RootHistoryKey t k) = kv_get s (RootHistoryKey t k)"
        using touches_get [OF t25, of "KRootHistory t k"] touches_get [OF t02, of "KRootHistory t k"]
        by (simp add: image_iff)
    qed
    ultimately show "note_tree E d s5 t (cs @ [c])"
      using get4 by (simp add: note_tree_def s5_def)
  qed
qed

subsection \<open>Creating a tree\<close>

lemma forM_modify: "forM xs (\<lambda>x. modifyM (f x)) s = (Inr (), fold f xs s)"
  by (induction xs arbitrary: s) simp_all

lemma of_nat_tree_inj:
  "i \<le> 2 * tree_bound \<Longrightarrow> j \<le> 2 * tree_bound \<Longrightarrow> (of_nat i :: u64) = of_nat j \<longleftrightarrow> i = j"
proof -
  assume "i \<le> 2 * tree_bound" "j \<le> 2 * tree_bound"
  then have "unat (of_nat i :: u64) = i" "unat (of_nat j :: u64) = j"
    by (simp_all add: tree_bound_def unat_of_nat_u64)
  then show ?thesis by metis
qed

lemma of_nat_tree_less:
  "i < j \<Longrightarrow> j \<le> 2 * tree_bound \<Longrightarrow> (of_nat i :: u64) < of_nat j"
proof -
  assume "i < j" "j \<le> 2 * tree_bound"
  then have "unat (of_nat i :: u64) = i" "unat (of_nat j :: u64) = j"
    by (simp_all add: tree_bound_def unat_of_nat_u64)
  with \<open>i < j\<close> show ?thesis by (simp only: word_less_nat_alt)
qed

lemma tree_skeys_disjoint: "t \<noteq> u \<Longrightarrow> tree_skeys t \<inter> tree_skeys u = {}"
  by (auto simp: tree_skeys_def)

lemma new_tree_rep:
  assumes "kv_u64 s (TreeNextIndexKey t) = Inr 0"
  shows "tree_rep E (KCommitment t) (KFrontier t) (KTreeNextIndex t) d s []"
  using assms by (simp add: tree_rep_def frontier_inv_empty)

lemma empty_root: "zero_hash_laws E \<Longrightarrow> d < 64 \<Longrightarrow> unat depth = d \<Longrightarrow>
    zeroRootBytes E depth = frBytes (roots_of E d [])"
proof -
  assume laws: "zero_hash_laws E" and d: "d < 64" "unat depth = d"
  have "merkle_root (hash2 E) d [] = zeros E d"
    using laws d by (intro merkle_root_empty) (simp_all add: zero_hash_laws_def zeros_def del: of_nat_Suc)
  moreover have "of_nat d = depth" using d(2) by (simp flip: d(2))
  ultimately show ?thesis by (simp add: zeroRootBytes_def zeros_def)
qed

lemma no_history_yet:
  assumes "root_slots_in s m" "m \<le> 2 * tree_bound"
  shows "slice (kv_get s (RootHistoryKey (of_nat m) k)) = []"
proof -
  have "HistoryRoot (of_nat m) k \<notin> set (scan_slots (of_nat m))" by (simp add: set_scan_slots)
  with assms(1) have "slot_root s (HistoryRoot (of_nat m) k) = None" by (auto simp: root_slots_in_def)
  then show ?thesis by (simp add: slot_root_opt root_opt_def split: if_splits)
qed

definition create_skeys :: "u64 \<Rightarrow> skey set" where
  "create_skeys t = tree_skeys t \<union> range KRootIndex \<union> {KTreeCount, KActiveTreeId}"

lemma CreateTree_ok:
  assumes cnt: "GetTreeCount s = Inr (of_nat m)" and par: "GetParams E s = Inr p"
    and d: "d < 64" "unat (effective_depth p) = d" and laws: "zero_hash_laws E"
    and ok: "index_ok s" and slots: "root_slots_in s m" and m: "m < 2 * tree_bound"
  obtains s' where "CreateTree E s = (Inr (of_nat m), s')"
    and "note_tree E d s' (of_nat m) []" and "index_ok s'" and "root_slots_in s' (Suc m)"
    and "GetTreeCount s' = Inr (of_nat (Suc m))" and "GetActiveTreeId s' = Inr (of_nat m)"
    and "touches (create_skeys (of_nat m)) s s'"
proof -
  let ?t = "of_nat m :: u64" and ?r = "frBytes (roots_of E d [])"
  let ?s1 = "fold (\<lambda>level. kv_set (FrontierKey ?t level) (frBytes (zeroHash E level)))
    (levels (effective_depth p)) s"
  have "stable (touches (range (KFrontier ?t))) (forM (levels (effective_depth p))
      (\<lambda>level. modifyM (kv_set (FrontierKey ?t level) (frBytes (zeroHash E level)))))"
    unfolding key_simps by (intro frame_rules) simp
  then have t1: "touches (range (KFrontier ?t)) s ?s1"
    using forM_modify by (rule stableD)
  have slots': "root_slots_in s (Suc m)"
    using slots by (rule root_slots_in_mono) (use m in \<open>simp_all add: tree_bound_def\<close>)
  have i1: "index_ok ?s1" "root_slots_in ?s1 (Suc m)"
    by (rule index_frame [OF t1 _ _ _ ok slots']; auto)+
  have m': "Suc m \<le> 2 * tree_bound" using m by simp
  obtain s2 where set2: "setSlotIndexed (skey_bytes (KTreeRoot ?t)) ?r ?s1 = (Inr (), s2)"
    and ok2: "index_ok s2" and roots2: "slot_root s2 = (slot_root ?s1)(CurrentRoot ?t := root_opt ?r)"
    and get2: "slice (kv_get s2 (skey_bytes (KTreeRoot ?t))) = ?r"
    and t2: "touches (insert (KTreeRoot ?t) (range KRootIndex)) ?s1 s2"
    using setSlotIndexed_correct [OF i1(1) root_slots_in_bounded [OF i1(2) m'], of "CurrentRoot ?t" ?r,
        unfolded slot_skey.simps] by blast
  have slots2: "root_slots_in s2 (Suc m)"
    using i1(2) roots2
    by (rule root_slots_in_upd) (simp add: set_scan_slots of_nat_tree_less [OF _ m'] del: of_nat_Suc)
  let ?s3 = "kv_set (skey_bytes KActiveTreeId) (be64 ?t) (kv_set (skey_bytes KTreeCount) (be64 (?t + 1))
    (kv_set (skey_bytes (KTreeNextIndex ?t)) (be64 0) s2))"
  have t3: "touches {KTreeNextIndex ?t, KTreeCount, KActiveTreeId} s2 ?s3"
    by (intro touch.R_trans [OF touches_set touch.R_trans [OF touches_set touches_set]]) simp_all
  have t: "touches (create_skeys ?t) s ?s3"
    by (rule touch.R_trans [OF touches_mono [OF t1] touch.R_trans [OF touches_mono [OF t2] touches_mono [OF t3]]])
      (auto simp: create_skeys_def)
  have run: "CreateTree E s = (Inr ?t, ?s3)"
    using cnt par set2
    by (simp add: CreateTree_def Let_def bindM_Inr bindM_Inr [OF forM_modify] setTreeRootIndexed_def setTreeCount_def
        setActiveTreeId_def empty_root [OF laws d])
  have "note_tree E d ?s3 ?t []"
  proof -
    have "kv_get ?s3 (RootHistoryKey ?t k) = kv_get s (RootHistoryKey ?t k)" for k
      using touches_get [OF t2, of "KRootHistory ?t k"] touches_get [OF t1, of "KRootHistory ?t k"]
      by (simp add: image_iff)
    then have "history_ok E d ?s3 ?t []"
      using no_history_yet [OF slots] m by (simp add: history_ok_def)
    moreover have "kv_get ?s3 (TreeRootKey ?t) = Some ?r"
      using get2 by (cases "kv_get s2 (TreeRootKey ?t)") (simp_all add: frBytes_not_Nil [symmetric])
    ultimately show ?thesis by (simp add: note_tree_def new_tree_rep)
  qed
  moreover have "index_ok ?s3" "root_slots_in ?s3 (Suc m)"
    by (rule index_frame [OF t3 _ _ _ ok2 slots2]; simp)+
  ultimately show ?thesis
    using that [OF run] t by (simp add: GetTreeCount_def GetActiveTreeId_def add.commute)
qed

end
