(* ===== verification/Registration.thy ===== *)
theory Registration
  imports ForestInv
begin

section \<open>The registration tree\<close>

text \<open>
  The registration part of \<open>keeper/merkle.go\<close>: one tree of fixed depth whose current root is
  the only valid one.  \<open>reg_ok\<close> relates the store to the list of registered commitments;
  \<open>InsertRegCommitment\<close> appends to it, and rejects a commitment that is already there under
  any encoding.
\<close>

definition GetRegMerkleRoot :: "('vk, 'b) ext \<Rightarrow> store \<Rightarrow> bytes" where
  "GetRegMerkleRoot E s =
     (case kv_get s RegRootKeyBytes of
        None \<Rightarrow> zeroRootBytes E DefaultRegTreeDepth
      | Some bz \<Rightarrow> bz)"

definition insertLeafSingleTree ::
  "('vk, 'b) ext \<Rightarrow> bytes \<Rightarrow> u32 \<Rightarrow> (u64 \<Rightarrow> bytes) \<Rightarrow> (u32 \<Rightarrow> bytes) \<Rightarrow> bytes \<Rightarrow> bytes \<Rightarrow> bool \<Rightarrow>
    (store, bytes \<times> u64) M" where
  "insertLeafSingleTree E commitment depth commitmentKeyFn frontierKeyFn rootStoreKey
       nextIndexStoreKey recordRootHistory =
     bindM (readM (\<lambda>s. kv_u64 s nextIndexStoreKey)) (\<lambda>index.
     if index \<ge> maxLeaves depth then throwM (Nix ErrTreeFull)
     else
       bindM (modifyM (kv_set (commitmentKeyFn index) commitment)) (\<lambda>_.
       bindM (walk_up E frontierKeyFn (unat depth) 0 index (SetBytes commitment)) (\<lambda>current.
       let newRoot = frBytes current in
       bindM (modifyM (kv_set rootStoreKey newRoot)) (\<lambda>_.
       bindM (modifyM (kv_set nextIndexStoreKey (be64 (index + 1)))) (\<lambda>_.
       returnM (newRoot, index))))))"

definition InsertRegCommitment :: "('vk, 'b) ext \<Rightarrow> bytes \<Rightarrow> (store, bytes \<times> u64) M" where
  "InsertRegCommitment E commitment =
     (let usedKey = RegCommitmentUsedKey commitment in
      bindM (readM (\<lambda>s. Inr (kv_has s usedKey))) (\<lambda>has.
      if has then throwM (Nix ErrDuplicateCommitment)
      else
        bindM (insertLeafSingleTree E commitment DefaultRegTreeDepth
          RegCommitmentKey RegFrontierKey RegRootKeyBytes RegNextIndexKeyBytes False)
          (\<lambda>(root, leafIndex).
        bindM (modifyM (kv_set usedKey [1])) (\<lambda>_.
        returnM (root, leafIndex)))))"

definition IsValidRegRoot :: "('vk, 'b) ext \<Rightarrow> store \<Rightarrow> bytes \<Rightarrow> bool" where
  "IsValidRegRoot E s root \<longleftrightarrow> GetRegMerkleRoot E s = root"

subsection \<open>The invariant\<close>

definition reg_depth :: nat where
  "reg_depth = 20"

definition reg_skeys :: "skey set" where
  "reg_skeys = range KRegCommitment \<union> range KRegFrontier \<union> range KRegCommitmentUsed \<union>
     {KRegRoot, KRegNextIndex}"

definition reg_ok :: "('vk, 'b) ext \<Rightarrow> store \<Rightarrow> bytes list \<Rightarrow> bool" where
  "reg_ok E s cs \<longleftrightarrow>
     tree_rep E KRegCommitment KRegFrontier KRegNextIndex reg_depth s cs \<and>
     GetRegMerkleRoot E s = frBytes (roots_of E reg_depth cs) \<and>
     (\<forall>x. kv_has s (skey_bytes (KRegCommitmentUsed x)) \<longleftrightarrow> x \<in> SetBytes ` set cs) \<and>
     distinct (map SetBytes cs)"

lemma reg_depth_word: "unat DefaultRegTreeDepth = reg_depth" "reg_depth < 64"
  by (simp_all add: DefaultRegTreeDepth_def reg_depth_def)

lemma RegFrontierKey_fun: "RegFrontierKey = (\<lambda>l. skey_bytes (KRegFrontier l))"
  by (rule ext) simp

lemma insertReg_leaf:
  fixes c :: bytes
  assumes rep: "tree_rep E KRegCommitment KRegFrontier KRegNextIndex reg_depth s cs"
    and laws: "zero_hash_laws E" and room: "length cs < 2 ^ reg_depth"
  obtains s' where
    "insertLeafSingleTree E c DefaultRegTreeDepth RegCommitmentKey RegFrontierKey RegRootKeyBytes
       RegNextIndexKeyBytes False s =
       (Inr (frBytes (roots_of E reg_depth (cs @ [c])), of_nat (length cs)), s')"
    and "tree_rep E KRegCommitment KRegFrontier KRegNextIndex reg_depth s' (cs @ [c])"
    and "kv_get s' RegRootKeyBytes = Some (frBytes (roots_of E reg_depth (cs @ [c])))"
    and "touches (range KRegCommitment \<union> range KRegFrontier \<union> {KRegRoot, KRegNextIndex}) s s'"
proof -
  let ?K = "range KRegCommitment \<union> range KRegFrontier \<union> {KRegRoot, KRegNextIndex}"
  let ?n = "length cs" and ?r = "frBytes (roots_of E reg_depth (cs @ [c]))"
  let ?s1 = "kv_set (skey_bytes (KRegCommitment (of_nat ?n))) c s"
  have idx: "kv_u64 s RegNextIndexKeyBytes = Inr (of_nat ?n)" using rep by (simp add: tree_rep_def)
  obtain s2 where
    walk: "walk_up E (\<lambda>l. skey_bytes (KRegFrontier l)) reg_depth 0 (of_nat ?n) (SetBytes c) ?s1 =
       (Inr (roots_of E reg_depth (cs @ [c])), s2)"
    and t12: "touches (range KRegFrontier) ?s1 s2"
    and rep': "\<And>K u. touches K s2 u \<Longrightarrow> range KRegCommitment \<inter> K = {} \<Longrightarrow> range KRegFrontier \<inter> K = {} \<Longrightarrow>
      kv_u64 u (skey_bytes KRegNextIndex) = Inr (of_nat (Suc ?n)) \<Longrightarrow>
      tree_rep E KRegCommitment KRegFrontier KRegNextIndex reg_depth u (cs @ [c])"
    using regTree.insert_rep [OF rep laws room reg_depth_word(2), of c] by blast
  let ?s3 = "kv_set (skey_bytes KRegNextIndex) (be64 (of_nat ?n + 1)) (kv_set (skey_bytes KRegRoot) ?r s2)"
  have run: "insertLeafSingleTree E c DefaultRegTreeDepth RegCommitmentKey RegFrontierKey
      RegRootKeyBytes RegNextIndexKeyBytes False s = (Inr (?r, of_nat ?n), ?s3)"
    using idx walk notfull_word(1) [OF room reg_depth_word(2,1)]
    by (simp add: insertLeafSingleTree_def Let_def bindM_Inr RegFrontierKey_fun reg_depth_word)
  have t23: "touches {KRegRoot, KRegNextIndex} s2 ?s3"
    by (rule touch.R_trans [OF touches_set touches_set]) simp_all
  have "tree_rep E KRegCommitment KRegFrontier KRegNextIndex reg_depth ?s3 (cs @ [c])"
    using t23 by (rule rep') (auto simp: add.commute)
  moreover have "touches ?K s ?s3"
    by (rule touch.R_trans [OF touches_set touch.R_trans [OF touches_mono [OF t12] touches_mono [OF t23]]])
      auto
  ultimately show ?thesis using that [OF run] by simp
qed

lemma InsertRegCommitment_ok:
  fixes c :: bytes
  assumes reg: "reg_ok E s cs" and laws: "zero_hash_laws E" and room: "length cs < 2 ^ reg_depth"
    and fresh: "SetBytes c \<notin> SetBytes ` set cs"
  obtains s' where "InsertRegCommitment E c s =
      (Inr (frBytes (roots_of E reg_depth (cs @ [c])), of_nat (length cs)), s')"
    and "reg_ok E s' (cs @ [c])" and "touches reg_skeys s s'"
proof -
  have rep: "tree_rep E KRegCommitment KRegFrontier KRegNextIndex reg_depth s cs"
    using reg by (simp add: reg_ok_def)
  obtain s1 where
    run: "insertLeafSingleTree E c DefaultRegTreeDepth RegCommitmentKey RegFrontierKey RegRootKeyBytes
       RegNextIndexKeyBytes False s =
       (Inr (frBytes (roots_of E reg_depth (cs @ [c])), of_nat (length cs)), s1)"
    and rep1: "tree_rep E KRegCommitment KRegFrontier KRegNextIndex reg_depth s1 (cs @ [c])"
    and root: "kv_get s1 RegRootKeyBytes = Some (frBytes (roots_of E reg_depth (cs @ [c])))"
    and t: "touches (range KRegCommitment \<union> range KRegFrontier \<union> {KRegRoot, KRegNextIndex}) s s1"
    using insertReg_leaf [OF rep laws room] by blast
  let ?s2 = "kv_set (skey_bytes (KRegCommitmentUsed (SetBytes c))) [1] s1"
  have t2: "touches {KRegCommitmentUsed (SetBytes c)} s1 ?s2" by simp
  have "InsertRegCommitment E c s =
      (Inr (frBytes (roots_of E reg_depth (cs @ [c])), of_nat (length cs)), ?s2)"
    using reg fresh run by (simp add: InsertRegCommitment_def Let_def reg_ok_def bindM_Inr)
  moreover have "reg_ok E ?s2 (cs @ [c])"
  proof -
    have "tree_rep E KRegCommitment KRegFrontier KRegNextIndex reg_depth ?s2 (cs @ [c])"
      by (rule regTree.tree_rep_frame [OF rep1 t2]) auto
    moreover have "kv_has ?s2 (skey_bytes (KRegCommitmentUsed x)) \<longleftrightarrow>
        x = SetBytes c \<or> x \<in> SetBytes ` set cs" for x
      using reg touches_has [OF t, of "KRegCommitmentUsed x"] by (auto simp: reg_ok_def)
    moreover have "distinct (map SetBytes (cs @ [c]))" using reg fresh by (simp add: reg_ok_def)
    ultimately show ?thesis using root by (simp add: reg_ok_def GetRegMerkleRoot_def)
  qed
  moreover have "touches reg_skeys s ?s2"
    by (rule touch.R_trans [OF touches_mono [OF t] touches_mono [OF t2]]) (auto simp: reg_skeys_def)
  ultimately show ?thesis using that by blast
qed

lemma InsertRegCommitment_duplicate:
  "reg_ok E s cs \<Longrightarrow> SetBytes c \<in> SetBytes ` set cs \<Longrightarrow>
     InsertRegCommitment E c s = (Inl (Nix ErrDuplicateCommitment), s)"
  by (simp only: reg_ok_def InsertRegCommitment_def Let_def key_simps) simp

lemma InsertRegCommitment_full:
  assumes reg: "reg_ok E s cs" and full: "length cs = 2 ^ reg_depth"
    and fresh: "SetBytes c \<notin> SetBytes ` set cs"
  shows "InsertRegCommitment E c s = (Inl (Nix ErrTreeFull), s)"
proof -
  have "kv_u64 s RegNextIndexKeyBytes = Inr (of_nat (length cs))"
    using reg by (simp add: reg_ok_def tree_rep_def)
  moreover have "(of_nat (length cs) :: u64) \<ge> maxLeaves DefaultRegTreeDepth"
    using notfull_word(2) [of reg_depth "length cs" DefaultRegTreeDepth] full reg_depth_word
    by (simp add: reg_depth_def)
  ultimately show ?thesis
    using reg fresh
    by (simp add: InsertRegCommitment_def insertLeafSingleTree_def Let_def reg_ok_def bindM_Inl)
qed

lemma reg_ok_start: "zero_hash_laws E \<Longrightarrow> reg_ok E kv_empty []"
  using empty_root [OF _ reg_depth_word(2,1)]
  by (simp add: reg_ok_def tree_rep_def frontier_inv_empty GetRegMerkleRoot_def)

lemma reg_frame:
  assumes "reg_ok E s cs" "touches K s s'" "K \<inter> reg_skeys = {}"
  shows "reg_ok E s' cs"
proof -
  have k: "x \<in> reg_skeys \<Longrightarrow> x \<notin> K" for x using assms(3) by blast
  have "tree_rep E KRegCommitment KRegFrontier KRegNextIndex reg_depth s' cs"
    by (rule regTree.tree_rep_frame [OF _ assms(2)])
      (use assms(1) k in \<open>auto simp: reg_ok_def reg_skeys_def\<close>)
  moreover have "GetRegMerkleRoot E s' = GetRegMerkleRoot E s"
    using touches_get [OF assms(2) k, of KRegRoot] by (simp add: GetRegMerkleRoot_def reg_skeys_def)
  moreover have "kv_has s' (skey_bytes (KRegCommitmentUsed x)) = kv_has s (skey_bytes (KRegCommitmentUsed x))" for x
    using touches_has [OF assms(2) k, of "KRegCommitmentUsed x"] by (simp add: reg_skeys_def)
  ultimately show ?thesis using assms(1) by (simp add: reg_ok_def)
qed

end
