(* ===== verification/NoteForest.thy ===== *)
theory NoteForest
  imports ForestInv
begin

section \<open>InsertNote implements the append-only forest\<close>

text \<open>
  The forest invariant carried through \<open>CreateTree\<close>, \<open>EnsureTreeExists\<close> and \<open>InsertNote\<close>, and
  what it says about root validation: the index answers as the scan of all slots does, and a
  root is valid exactly while it is current or among the last \<open>MaxRootHistory\<close> of its tree.
\<close>

subsection \<open>Frames\<close>

lemma GetParams_frame: "touches K s s' \<Longrightarrow> KParams \<notin> K \<Longrightarrow> GetParams E s' = GetParams E s"
  by (simp add: GetParams_def touches_get)

lemma depth_is_frame: "touches K s s' \<Longrightarrow> KParams \<notin> K \<Longrightarrow> depth_is E s' d = depth_is E s d"
  by (simp add: depth_is_def GetParams_frame)

lemma tree_frame_other:
  assumes "note_tree E d s (of_nat i) cs" "touches K s s'" "K \<inter> tree_skeys (of_nat i) = {}"
  shows "note_tree E d s' (of_nat i) cs"
  using assms by (intro note_tree_frame [OF assms(1,2)]) blast

lemma create_skeys_disjoint: "t \<noteq> u \<Longrightarrow> create_skeys t \<inter> tree_skeys u = {}"
  by (auto simp: create_skeys_def tree_skeys_def)

lemma leaf_skeys_disjoint: "t \<noteq> u \<Longrightarrow> (tree_skeys t \<union> range KRootIndex) \<inter> tree_skeys u = {}"
  by (auto simp: tree_skeys_def)

subsection \<open>A new tree\<close>

lemma forest_create:
  assumes f: "forest_ok E d s css" and dep: "depth_is E s d" and laws: "zero_hash_laws E"
    and room: "Suc (length css) < tree_bound"
  obtains s' where "CreateTree E s = (Inr (of_nat (length css)), s')"
    and "forest_ok E d s' (css @ [[]])" and "touches (create_skeys (of_nat (length css))) s s'"
proof -
  let ?m = "length css"
  obtain p where p: "GetParams E s = Inr p" "d < 64" "unat (effective_depth p) = d"
    using dep by (auto simp: depth_is_def)
  have m: "?m < 2 * tree_bound" using room by simp
  obtain s' where run: "CreateTree E s = (Inr (of_nat ?m), s')"
    and new: "note_tree E d s' (of_nat ?m) []" and ok: "index_ok s'"
    and slots: "root_slots_in s' (Suc ?m)" and cnt: "GetTreeCount s' = Inr (of_nat (Suc ?m))"
    and act: "GetActiveTreeId s' = Inr (of_nat ?m)" and t: "touches (create_skeys (of_nat ?m)) s s'"
    using CreateTree_ok [OF _ p(1-3) laws _ _ m] f unfolding forest_ok_def by blast
  have trees: "note_tree E d s' (of_nat i) ((css @ [[]]) ! i)" if "i < Suc ?m" for i
  proof (cases "i = ?m")
    case True
    with new show ?thesis by simp
  next
    case False
    with that have i: "i < ?m" by simp
    then have "(of_nat ?m :: u64) \<noteq> of_nat i"
      using of_nat_tree_inj [of ?m i] room by simp
    moreover have "note_tree E d s (of_nat i) (css ! i)" using f i by (simp add: forest_ok_def)
    ultimately have "note_tree E d s' (of_nat i) (css ! i)"
      by (rule tree_frame_other [OF _ t create_skeys_disjoint, rotated])
    with i show ?thesis by (simp add: nth_append)
  qed
  have "kv_has s' (skey_bytes (KCommitmentUsed x)) = kv_has s (skey_bytes (KCommitmentUsed x))" for x
    by (rule touches_has [OF t]) (auto simp: create_skeys_def tree_skeys_def)
  then have "forest_ok E d s' (css @ [[]])"
    using f room trees ok slots cnt act by (simp add: forest_ok_def del: of_nat_Suc)
  with run t show ?thesis using that by blast
qed

subsection \<open>A new leaf in the last tree\<close>

lemma forest_leaf:
  fixes c :: bytes
  assumes f: "forest_ok E d s (css @ [cs])" and laws: "zero_hash_laws E"
    and room: "length cs < 2 ^ d" and d: "d < 64" "unat depth = d"
    and fresh: "SetBytes c \<notin> SetBytes ` set (concat (css @ [cs]))"
  obtains s' where "insertLeafIntoTree E (of_nat (length css)) c depth s =
      (Inr (frBytes (roots_of E d (cs @ [c])), of_nat (length cs)), s')"
    and "forest_ok E d (kv_set (CommitmentUsedKey c) [1] s') (css @ [cs @ [c]])"
    and "touches (tree_skeys (of_nat (length css)) \<union> range KRootIndex) s s'"
proof -
  let ?m = "length css" and ?t = "of_nat (length css) :: u64"
  have m: "Suc ?m \<le> 2 * tree_bound" using f by (simp add: forest_ok_def)
  have tm: "?t < of_nat (Suc ?m)" using of_nat_tree_less [OF _ m] by blast
  have "note_tree E d s ?t cs" using f by (auto simp: forest_ok_def dest: spec [of _ ?m])
  moreover have "index_ok s" "root_slots_in s (Suc ?m)" using f by (simp_all add: forest_ok_def)
  ultimately obtain s' where
    run: "insertLeafIntoTree E ?t c depth s =
      (Inr (frBytes (roots_of E d (cs @ [c])), of_nat (length cs)), s')"
    and new: "note_tree E d s' ?t (cs @ [c])" and ok: "index_ok s'" "root_slots_in s' (Suc ?m)"
    and t: "touches (tree_skeys ?t \<union> range KRootIndex) s s'"
    using insertLeaf_ok [OF _ _ _ tm m laws room d] by blast
  define s2 where "s2 = kv_set (skey_bytes (KCommitmentUsed (SetBytes c))) [1] s'"
  have t2: "touches {KCommitmentUsed (SetBytes c)} s' s2" by (simp add: s2_def)
  have trees: "note_tree E d s2 (of_nat i) ((css @ [cs @ [c]]) ! i)" if "i < Suc ?m" for i
  proof -
    have "note_tree E d s' (of_nat i) ((css @ [cs @ [c]]) ! i)"
    proof (cases "i = ?m")
      case True
      with new show ?thesis by simp
    next
      case False
      with that have i: "i < ?m" by simp
      then have "?t \<noteq> of_nat i" using of_nat_tree_inj [of ?m i] m by simp
      moreover have "note_tree E d s (of_nat i) (css ! i)"
        using f i by (auto simp: forest_ok_def nth_append dest: spec [of _ i])
      ultimately have "note_tree E d s' (of_nat i) (css ! i)"
        by (rule tree_frame_other [OF _ t leaf_skeys_disjoint, rotated])
      with i show ?thesis by (simp add: nth_append)
    qed
    then show ?thesis by (rule tree_frame_other [OF _ t2]) (auto simp: tree_skeys_def)
  qed
  have ok2: "index_ok s2" "root_slots_in s2 (Suc ?m)"
    by (rule index_frame [OF t2 _ _ _ ok]; simp)+
  have used: "kv_has s2 (skey_bytes (KCommitmentUsed x)) \<longleftrightarrow>
      x \<in> SetBytes ` set (concat (css @ [cs @ [c]]))" for x
    using f touches_has [OF t, of "KCommitmentUsed x"]
    by (auto simp: s2_def forest_ok_def tree_skeys_def)
  have "GetTreeCount s2 = GetTreeCount s" "GetActiveTreeId s2 = GetActiveTreeId s"
    using touches_u64 [OF t, of KTreeCount] touches_u64 [OF t, of KActiveTreeId]
    by (auto simp: s2_def GetTreeCount_def GetActiveTreeId_def tree_skeys_def)
  then have "forest_ok E d s2 (css @ [cs @ [c]])"
    using f trees ok2 used fresh by (auto simp: forest_ok_def)
  with run t that show ?thesis by (simp add: s2_def)
qed

subsection \<open>The whole call\<close>

definition note_skeys :: "skey set" where
  "note_skeys = \<Union> (range tree_skeys) \<union> range KRootIndex \<union> range KCommitmentUsed \<union>
     {KTreeCount, KActiveTreeId}"

lemma skeys_sub:
  "create_skeys t \<subseteq> note_skeys" "tree_skeys t \<union> range KRootIndex \<subseteq> note_skeys"
  by (auto simp: note_skeys_def create_skeys_def)

lemma params_not_note [simp]: "KParams \<notin> note_skeys"
  by (auto simp: note_skeys_def tree_skeys_def)

lemma ensure_ok:
  assumes f: "forest_ok E d s css" and dep: "depth_is E s d" and laws: "zero_hash_laws E"
  obtains s' where "EnsureTreeExists E s = (Inr (), s')"
    and "forest_ok E d s' (if css = [] then [[]] else css)" and "touches note_skeys s s'"
proof (cases "css = []")
  case True
  have "Suc (length css) < tree_bound" using True by (simp add: tree_bound_def)
  with f dep laws obtain s' where "CreateTree E s = (Inr (of_nat (length css)), s')"
    "forest_ok E d s' (css @ [[]])" "touches (create_skeys (of_nat (length css))) s s'"
    using forest_create by blast
  with True f that [of s'] skeys_sub(1) show ?thesis
    by (simp add: EnsureTreeExists_def forest_ok_def bindM_Inr touches_mono)
next
  case False
  have "(of_nat (length css) :: u64) \<noteq> of_nat 0"
    using f False of_nat_tree_inj [of "length css" 0] by (simp add: forest_ok_def)
  with False f that [of s] show ?thesis
    by (simp add: EnsureTreeExists_def forest_ok_def touch.R_refl)
qed

text \<open>The choice of the tree: the active one, or a new one when it is full.\<close>

lemma choose_tree:
  assumes f: "forest_ok E d s (css @ [cs])" and dep: "depth_is E s d" and laws: "zero_hash_laws E"
    and par: "GetParams E s = Inr p" and room: "Suc (Suc (length css)) < tree_bound \<or> length cs < 2 ^ d"
  obtains css' cs' s' where
    "(if (of_nat (length cs) :: u64) \<ge> maxLeaves (effective_depth p) then CreateTree E
      else returnM (of_nat (length css))) s = (Inr (of_nat (length css')), s')"
    and "css' @ [cs'] = (if 2 ^ d \<le> length cs then (css @ [cs]) @ [[]] else css @ [cs])"
    and "length cs' < 2 ^ d"
    and "forest_ok E d s' (css' @ [cs'])" and "touches note_skeys s s'"
proof -
  have d: "d < 64" "unat (effective_depth p) = d" using dep par by (auto simp: depth_is_def)
  have "(2::nat) ^ d < 2 ^ 64" using d(1) by (rule power_strict_increasing) simp
  moreover have cs: "length cs \<le> 2 ^ d"
    using f by (auto simp: forest_ok_def note_tree_def tree_rep_def dest: spec [of _ "length css"])
  ultimately have cs64: "length cs < 2 ^ 64" by linarith
  show ?thesis
  proof (cases "2 ^ d \<le> length cs")
    case False
    then have "length cs < 2 ^ d" by simp
    with f that [of css s cs] notfull_word(1) [OF this d] show ?thesis
      by (simp add: touch.R_refl)
  next
    case True
    with room have "Suc (length (css @ [cs])) < tree_bound" by simp
    with f dep laws obtain s' where
      "CreateTree E s = (Inr (of_nat (length (css @ [cs]))), s')"
      "forest_ok E d s' ((css @ [cs]) @ [[]])" "touches (create_skeys (of_nat (length (css @ [cs])))) s s'"
      using forest_create by blast
    with True that [of "css @ [cs]" s' "[]"] notfull_word(2) [OF True cs64 d] skeys_sub(1)
    show ?thesis by (simp add: touches_mono)
  qed
qed

lemma forest_insert_snoc:
  assumes "css' @ [cs'] = (if 2 ^ d \<le> length cs then (css @ [cs]) @ [[]] else css @ [cs])"
    and "css @ [cs] = (if css0 = [] then [[]] else css0)"
  shows "forest_insert d css0 c = css' @ [cs' @ [c]]"
proof -
  have "forest_insert d css0 c =
      (if 2 ^ d \<le> length (last (css @ [cs])) then (css @ [cs]) @ [[c]]
       else butlast (css @ [cs]) @ [last (css @ [cs]) @ [c]])"
    unfolding forest_insert_def Let_def assms(2) [symmetric] ..
  with assms(1) show ?thesis by (auto split: if_splits)
qed

lemma concat_start: "concat (if css = [] then [[]] else css) = concat css"
  by simp

lemma InsertNote_ok:
  fixes c :: bytes
  assumes f: "forest_ok E d s css" and dep: "depth_is E s d" and laws: "zero_hash_laws E"
    and room: "Suc (length css) < tree_bound"
    and fresh: "SetBytes c \<notin> SetBytes ` set (concat css)"
  obtains s' where "InsertNote E c s =
      (Inr (frBytes (roots_of E d (last (forest_insert d css c))),
            of_nat (length (last (forest_insert d css c)) - 1),
            of_nat (length (forest_insert d css c) - 1)), s')"
    and "forest_ok E d s' (forest_insert d css c)" and "touches note_skeys s s'"
proof -
  obtain s1 where ens: "EnsureTreeExists E s = (Inr (), s1)"
    and f1: "forest_ok E d s1 (if css = [] then [[]] else css)" and t1: "touches note_skeys s s1"
    using ensure_ok [OF f dep laws] by blast
  obtain css1 cs1 where snoc: "css1 @ [cs1] = (if css = [] then [[]] else css)"
    by (metis append_Nil rev_exhaust)
  have f1': "forest_ok E d s1 (css1 @ [cs1])" using f1 by (simp only: snoc)
  have dep1: "depth_is E s1 d" using dep t1 by (simp add: depth_is_frame)
  then obtain p where p: "GetParams E s1 = Inr p" "d < 64" "unat (effective_depth p) = d"
    by (auto simp: depth_is_def)
  have conc: "concat (css1 @ [cs1]) = concat css" by (simp only: snoc concat_start)
  have nt: "note_tree E d s1 (of_nat (length css1)) cs1"
    using f1' by (auto simp: forest_ok_def dest: spec [of _ "length css1"])
  have room1: "Suc (Suc (length css1)) < tree_bound \<or> length cs1 < 2 ^ d"
    using snoc room by (cases "css = []") (auto simp: Cons_eq_append_conv dest: arg_cong [of _ _ length])
  obtain css2 cs2 s2 where
    cho: "(if (of_nat (length cs1) :: u64) \<ge> maxLeaves (effective_depth p) then CreateTree E
      else returnM (of_nat (length css1))) s1 = (Inr (of_nat (length css2)), s2)"
    and snoc2: "css2 @ [cs2] = (if 2 ^ d \<le> length cs1 then (css1 @ [cs1]) @ [[]] else css1 @ [cs1])"
    and room2: "length cs2 < 2 ^ d" and f2: "forest_ok E d s2 (css2 @ [cs2])"
    and t2: "touches note_skeys s1 s2"
    using choose_tree [OF f1' dep1 laws p(1) room1] by blast
  have conc2: "concat (css2 @ [cs2]) = concat css"
    by (simp only: snoc2 conc [symmetric]) simp
  with fresh have "SetBytes c \<notin> SetBytes ` set (concat (css2 @ [cs2]))" by simp
  with f2 laws room2 p(2,3) obtain s3 where
    ins: "insertLeafIntoTree E (of_nat (length css2)) c (effective_depth p) s2 =
      (Inr (frBytes (roots_of E d (cs2 @ [c])), of_nat (length cs2)), s3)"
    and f3: "forest_ok E d (kv_set (CommitmentUsedKey c) [1] s3) (css2 @ [cs2 @ [c]])"
    and t3: "touches (tree_skeys (of_nat (length css2)) \<union> range KRootIndex) s2 s3"
    using forest_leaf by blast
  have new: "forest_insert d css c = css2 @ [cs2 @ [c]]"
    using snoc2 snoc by (rule forest_insert_snoc)
  let ?s' = "kv_set (CommitmentUsedKey c) [1] s3"
  have notused: "\<not> kv_has s1 (skey_bytes (KCommitmentUsed (SetBytes c)))"
    using f1' fresh conc by (simp add: forest_ok_def del: concat_append)
  have act: "GetActiveTreeId s1 = Inr (of_nat (length css1))"
    using f1' by (simp add: forest_ok_def)
  have idx: "GetTreeNextIndex s1 (of_nat (length css1)) = Inr (of_nat (length cs1))"
    using nt by (simp add: note_tree_def tree_rep_def GetTreeNextIndex_def)
  have "InsertNote E c s = (Inr (frBytes (roots_of E d (cs2 @ [c])), of_nat (length cs2),
      of_nat (length css2)), ?s')"
    using ens notused act p idx cho ins
    by (simp add: InsertNote_def Let_def bindM_Inr)
  moreover have "touches note_skeys s ?s'"
  proof (rule touch.R_trans [OF t1 touch.R_trans [OF t2 touch.R_trans]])
    show "touches note_skeys s2 s3" using t3 skeys_sub(2) by (rule touches_mono)
    show "touches note_skeys s3 ?s'" by (simp add: note_skeys_def)
  qed
  ultimately show ?thesis using that [of ?s'] f3 by (simp add: new)
qed

lemma InsertNote_duplicate:
  assumes f: "forest_ok E d s css" and dup: "SetBytes c \<in> SetBytes ` set (concat css)"
  shows "InsertNote E c s = (Inl (Nix ErrDuplicateCommitment), s)"
proof -
  have "css \<noteq> []" using dup by auto
  then have "(of_nat (length css) :: u64) \<noteq> of_nat 0"
    using f of_nat_tree_inj [of "length css" 0] by (simp add: forest_ok_def)
  then have "EnsureTreeExists E s = (Inr (), s)"
    using f by (simp add: EnsureTreeExists_def forest_ok_def)
  moreover have "kv_has s (skey_bytes (KCommitmentUsed (SetBytes c)))"
    using f dup by (simp only: forest_ok_def)
  ultimately show ?thesis by (simp add: InsertNote_def Let_def bindM_Inr)
qed

subsection \<open>A store without notes\<close>

definition no_notes :: "store \<Rightarrow> bool" where
  "no_notes s \<longleftrightarrow> (\<forall>k \<in> note_skeys. kv_get s (skey_bytes k) = None \<and> \<not> kv_has s (skey_bytes k))"

lemma forest_start:
  assumes "no_notes s"
  shows "forest_ok E d s []"
proof -
  have k: "kv_get s (skey_bytes k) = None" "\<not> kv_has s (skey_bytes k)" if "k \<in> note_skeys" for k
    using assms that by (auto simp: no_notes_def)
  have mem: "tree_skeys t \<subseteq> note_skeys" for t by (auto simp: note_skeys_def)
  have "kv_get s (skey_bytes (slot_skey sl)) = None" for sl
    using k(1) [OF subsetD [OF mem tree_skeys_mem(1)]] k(1) [OF subsetD [OF mem tree_skeys_mem(2)]]
    by (cases sl) simp_all
  then have "slot_root s = (\<lambda>_. None)" by (intro ext) (simp add: slot_root_def)
  moreover have "kv_get s (skey_bytes (KRootIndex r)) = None" "\<not> kv_has s (skey_bytes (KCommitmentUsed r))"
    "kv_get s (skey_bytes KTreeCount) = None" "kv_get s (skey_bytes KActiveTreeId) = None" for r
    using k by (auto simp: note_skeys_def)
  ultimately show ?thesis
    by (simp add: forest_ok_def tree_bound_def GetTreeCount_def GetActiveTreeId_def kv_u64_def
        index_ok_def index_is_def index_entry_def holders_def root_slots_in_def)
qed

end
