(* ===== verification/RootWindow.thy ===== *)
theory RootWindow
  imports NoteForest
begin

section \<open>Which roots are valid\<close>

text \<open>
  Root validation read off the invariants: by the index (any state with a right index), by the
  scan the index replaced, and by the abstract forest (the roots of the last \<open>MaxRootHistory\<close>
  insertions of every tree).
\<close>

subsection \<open>By the index\<close>

lemma IsValidRootAnyTree_index:
  assumes ok: "index_ok s" and bnd: "slots_bounded s"
  shows "IsValidRootAnyTree E s root =
    Inr (root = zeroRootBytes E DefaultTreeDepth \<or> root \<noteq> [] \<and> holders s (SetBytes root) \<noteq> {})"
proof (cases "root = []")
  case True
  then show ?thesis by (simp add: IsValidRootAnyTree_def rootRefCount_def eq_commute)
next
  case False
  let ?c = "card (holders s (SetBytes root))"
  have cnt: "rootRefCount s root = Inr (of_nat ?c)"
    using ok False index_is_count by (simp add: index_ok_def)
  have "?c \<le> card {sl. slot_root s sl \<noteq> None}"
    unfolding holders_def by (intro card_mono) auto
  then have "?c < 2 ^ 64" using bnd by (simp add: slots_bounded_def)
  then have "(of_nat ?c :: u64) > 0 \<longleftrightarrow> ?c > 0"
    by (simp add: word_less_nat_alt unat_of_nat_u64)
  also have "\<dots> \<longleftrightarrow> holders s (SetBytes root) \<noteq> {}" by (simp add: card_gt_0_iff)
  finally show ?thesis
    using cnt False by (simp add: IsValidRootAnyTree_def eq_commute)
qed

subsection \<open>By the scan\<close>

definition roots_canonical :: "store \<Rightarrow> bool" where
  "roots_canonical s \<longleftrightarrow>
     (\<forall>sl. let b = slice (kv_get s (skey_bytes (slot_skey sl))) in b = [] \<or> canonical b)"

lemma holders_canonical:
  assumes "roots_canonical s" "canonical root"
  shows "sl \<in> holders s (SetBytes root) \<longleftrightarrow> slice (kv_get s (skey_bytes (slot_skey sl))) = root"
proof -
  let ?b = "slice (kv_get s (skey_bytes (slot_skey sl)))"
  have "?b = [] \<or> canonical ?b" using assms(1) by (simp add: roots_canonical_def Let_def)
  then show ?thesis
    using assms(2) canonical_inj [of ?b root]
    by (auto simp: holders_def slot_root_def Let_def canonical_def)
qed

lemma IsKnownRoot_slots:
  "IsKnownRoot E s t root \<longleftrightarrow>
     (\<exists>sl \<in> set (tree_slots t). slice (kv_get s (skey_bytes (slot_skey sl))) = root) \<or>
     root = zeroRootBytes E DefaultTreeDepth"
  by (auto simp: IsKnownRoot_def tree_slots_def)

lemma scan_is_index:
  assumes ok: "index_ok s" and cnt: "GetTreeCount s = Inr (of_nat m)" and m: "m \<le> 2 * tree_bound"
    and slots: "root_slots_in s m" and can: "roots_canonical s" and root: "canonical root"
  shows "scanIsValidRootAnyTree E s root = IsValidRootAnyTree E s root"
proof -
  let ?z = "root = zeroRootBytes E DefaultTreeDepth"
  have un: "unat (of_nat m :: u64) = m"
    using m by (intro unat_of_nat_u64) (simp add: tree_bound_def)
  have "root \<noteq> []" using root by (auto simp: canonical_def)
  then have idx: "IsValidRootAnyTree E s root = Inr (?z \<or> holders s (SetBytes root) \<noteq> {})"
    using IsValidRootAnyTree_index [OF ok root_slots_in_bounded [OF slots m], of E root] by simp
  have "holders s (SetBytes root) \<subseteq> set (scan_slots (of_nat m))"
    using slots by (auto simp: holders_def root_slots_in_def)
  then have hold: "holders s (SetBytes root) \<noteq> {} \<longleftrightarrow>
      (\<exists>sl \<in> set (scan_slots (of_nat m)). slice (kv_get s (skey_bytes (slot_skey sl))) = root)"
    using holders_canonical [OF can root] by blast
  let ?A = "\<exists>sl \<in> set (scan_slots (of_nat m)). slice (kv_get s (skey_bytes (slot_skey sl))) = root"
  have known: "(\<exists>t \<in> set [0..<m]. IsKnownRoot E s (of_nat t) root) \<longleftrightarrow> ?A \<or> m \<noteq> 0 \<and> ?z"
    by (auto simp: IsKnownRoot_slots scan_slots_def un)
  have m0: "(of_nat m :: u64) = 0 \<longleftrightarrow> m = 0"
    using unat_eq_0 [of "of_nat m :: u64"] unfolding un by blast
  have "m = 0 \<Longrightarrow> \<not> ?A" by (simp add: scan_slots_def)
  moreover have "scanIsValidRootAnyTree E s root =
      (if m = 0 then Inr (zeroRootBytes E DefaultTreeDepth = root) else Inr (?A \<or> m \<noteq> 0 \<and> ?z))"
    unfolding scanIsValidRootAnyTree_def cnt bindE_simps m0 un known ..
  ultimately show ?thesis
    unfolding idx hold eq_commute [of "zeroRootBytes E DefaultTreeDepth" root]
    by (cases "m = 0") (simp_all only: if_True if_False simp_thms not_False_eq_True disj_commute)
qed

subsection \<open>By the abstract forest\<close>

definition window_roots :: "('vk, 'b) ext \<Rightarrow> nat \<Rightarrow> bytes list \<Rightarrow> fr list" where
  "window_roots E d cs =
     roots_of E d cs # map (\<lambda>j. roots_of E d (take (Suc j) cs)) [length cs - 100..<length cs]"

definition live_roots :: "('vk, 'b) ext \<Rightarrow> nat \<Rightarrow> bytes list list \<Rightarrow> fr list" where
  "live_roots E d css = concat (map (window_roots E d) css)"

lemma history_slot:
  assumes h: "history_ok E d s t cs"
  shows "slot_root s (HistoryRoot t k) = Some r \<longleftrightarrow>
    (\<exists>j \<in> {length cs - 100..<length cs}. k = of_nat (j mod 100) \<and> r = roots_of E d (take (Suc j) cs))"
proof (cases "unat k < min (length cs) 100")
  case False
  then have "slice (kv_get s (RootHistoryKey t k)) = []"
    using h unfolding history_ok_def by (meson not_less)
  then have "slot_root s (HistoryRoot t k) = None" by (simp add: slot_root_opt)
  moreover have "k \<noteq> of_nat (j mod 100)" if "j < length cs" for j
  proof
    assume "k = of_nat (j mod 100)"
    then have "unat k = j mod 100" by (simp only: unat_history_slot)
    moreover have "j mod 100 < min (length cs) 100"
      using that mod_less_eq_dividend [of j 100] by simp
    ultimately show False using False by simp
  qed
  ultimately show ?thesis by auto
next
  case True
  let ?n = "length cs" and ?j = "\<lambda>q. unat k + 100 * q"
  define j where "j = unat k + 100 * ((?n - 1 - unat k) div 100)"
  have jm: "j mod 100 = unat k" using True by (simp add: j_def)
  have k: "unat k < ?n" "unat k < 100" using True by simp_all
  have le: "100 * ((?n - 1 - unat k) div 100) \<le> ?n - 1 - unat k" by simp
  have gt: "?n - 1 - unat k < 100 * ((?n - 1 - unat k) div 100) + 100"
    using dividend_less_times_div [of 100 "?n - 1 - unat k"] by simp
  have j: "j < ?n" "?n \<le> j + 100" using k le gt unfolding j_def by linarith+
  have get: "kv_get s (RootHistoryKey t k) = Some (frBytes (roots_of E d (take (Suc j) cs)))"
  proof -
    have "(of_nat (j mod 100) :: u64) = k" by (simp add: jm)
    with h j show ?thesis unfolding history_ok_def by metis
  qed
  have uniq: "i = j" if "i < ?n" "?n \<le> i + 100" "k = of_nat (i mod 100)" for i
  proof -
    have "i mod 100 = j mod 100" using that(3) jm by (simp only: unat_history_slot)
    then have "100 dvd i - j" "100 dvd j - i" by (metis diff_is_0_eq dvd_0_right le_cases mod_eq_dvd_iff_nat)+
    moreover have "i - j < 100" "j - i < 100" using that(1,2) j by linarith+
    ultimately have "i - j = 0" "j - i = 0" by (meson dvd_imp_le gr_zeroI not_le)+
    then show "i = j" by simp
  qed
  have "slot_root s (HistoryRoot t k) = Some (roots_of E d (take (Suc j) cs))"
    using get by (simp add: slot_root_opt)
  moreover have "k = of_nat (j mod 100)" by (simp add: jm)
  moreover have "j \<in> {?n - 100..<?n}" using j by simp
  moreover have "i = j" if "i \<in> {?n - 100..<?n}" "k = of_nat (i mod 100)" for i
  proof (rule uniq [OF _ _ that(2)])
    show "i < ?n" "?n \<le> i + 100" using that(1) by (simp_all add: le_diff_conv)
  qed
  ultimately show ?thesis by (metis option.inject)
qed

lemma holders_live:
  assumes f: "forest_ok E d s css"
  shows "holders s r \<noteq> {} \<longleftrightarrow> r \<in> set (live_roots E d css)"
proof -
  have un: "unat (of_nat (length css) :: u64) = length css"
    using f by (intro unat_of_nat_u64) (simp add: forest_ok_def tree_bound_def)
  have cur: "slot_root s (CurrentRoot (of_nat i)) = Some (roots_of E d (css ! i))"
    and his: "history_ok E d s (of_nat i) (css ! i)" if "i < length css" for i
    using f that by (auto simp: forest_ok_def note_tree_def slot_root_opt)
  have win: "r \<in> set (window_roots E d (css ! i)) \<longleftrightarrow>
      slot_root s (CurrentRoot (of_nat i)) = Some r \<or>
      (\<exists>k. slot_root s (HistoryRoot (of_nat i) k) = Some r)" if "i < length css" for i
    unfolding history_slot [OF his [OF that]] cur [OF that] by (auto simp: window_roots_def)
  have dom: "slot_root s (CurrentRoot t) = Some r \<Longrightarrow> t < of_nat (length css)"
    "slot_root s (HistoryRoot t k) = Some r \<Longrightarrow> t < of_nat (length css)" for t k
    using f by (auto simp: forest_ok_def root_slots_in_def set_scan_slots)
  have "holders s r \<noteq> {} \<longleftrightarrow>
      (\<exists>t. slot_root s (CurrentRoot t) = Some r) \<or> (\<exists>t k. slot_root s (HistoryRoot t k) = Some r)"
    unfolding holders_def by (metis (mono_tags, lifting) empty_Collect_eq slot.exhaust)
  also have "\<dots> \<longleftrightarrow> (\<exists>i < length css. slot_root s (CurrentRoot (of_nat i)) = Some r \<or>
      (\<exists>k. slot_root s (HistoryRoot (of_nat i) k) = Some r))"
    using dom by (metis un word_less_of_nat)
  also have "\<dots> \<longleftrightarrow> (\<exists>i < length css. r \<in> set (window_roots E d (css ! i)))"
    using win by blast
  also have "\<dots> \<longleftrightarrow> r \<in> set (live_roots E d css)"
    by (simp add: live_roots_def) (metis in_set_conv_nth)
  finally show ?thesis .
qed

lemma valid_roots_window:
  assumes f: "forest_ok E d s css"
  shows "IsValidRootAnyTree E s root =
    Inr (root = zeroRootBytes E DefaultTreeDepth \<or>
         root \<noteq> [] \<and> SetBytes root \<in> set (live_roots E d css))"
proof -
  have "index_ok s" "slots_bounded s"
    using f root_slots_in_bounded [of s "length css"] by (simp_all add: forest_ok_def)
  then show ?thesis using holders_live [OF f] by (simp add: IsValidRootAnyTree_index)
qed

end
