(* ===== verification/Msgs.thy ===== *)
theory Msgs
  imports Ext
begin

section \<open>Stateless validation of messages\<close>

text \<open>
  \<open>types/msgs.go\<close>: the checks every message passes before its handler runs.  An address or a
  denomination is checked by the SDK (parameters \<open>accAddress\<close>, \<open>validateDenom\<close>), a decimal string
  is parsed by \<open>math.NewIntFromString\<close> (parameter \<open>parseInt\<close>); the rest is modelled.
\<close>

definition validateFieldBytes :: "bytes \<Rightarrow> err + unit" where
  "validateFieldBytes b =
     (if length b \<noteq> 32 then Inl (Std ''must be 32 bytes'')
      else if int (be_nat b) \<ge> fr_modulus then Inl (Std ''is not a canonical field element'')
      else Inr ())"

definition validateAmount :: "('vk, 'b) ext \<Rightarrow> string \<Rightarrow> err + unit" where
  "validateAmount E sVal =
     (case parseInt E sVal of
        None \<Rightarrow> Inl (Std ''invalid'')
      | Some amt \<Rightarrow>
          if amt < 0 then Inl (Std ''invalid'')
          else if amt \<ge> 2 ^ 64 then Inl (Std ''exceeds the 64-bit range the circuit proves'')
          else Inr ())"

text \<open>\<open>GetSigners\<close> drops the error of the address; the address is then nil.\<close>

definition signers :: "('vk, 'b) ext \<Rightarrow> string \<Rightarrow> bytes option list" where
  "signers E sender = [case accAddress E sender of Inl e \<Rightarrow> None | Inr addr \<Rightarrow> Some addr]"

subsection \<open>MsgRegister\<close>

definition MsgRegister_ValidateBasic :: "('vk, 'b) ext \<Rightarrow> MsgRegister \<Rightarrow> err + unit" where
  "MsgRegister_ValidateBasic E msg =
     bindE (accAddress E (reg_Sender msg)) (\<lambda>_.
     bindE (wrapE ErrInvalidCommitment (validateFieldBytes (reg_IdentityCommitment msg))) (\<lambda>_.
     if length (reg_Proof msg) = 0 then Inl (Nix ErrInvalidProof)
     else if length (reg_PublicInputs msg) < 32 then Inl (Nix ErrInvalidPublicInputs)
     else if length (reg_AuditorEncryptedData msg) > MaxAuditorDataSize
       then Inl (Nix ErrAuditorDataTooLarge)
     else Inr ()))"

definition MsgRegister_GetSigners :: "('vk, 'b) ext \<Rightarrow> MsgRegister \<Rightarrow> bytes option list" where
  "MsgRegister_GetSigners E msg = signers E (reg_Sender msg)"

subsection \<open>MsgDeposit\<close>

definition MsgDeposit_ValidateBasic :: "('vk, 'b) ext \<Rightarrow> MsgDeposit \<Rightarrow> err + unit" where
  "MsgDeposit_ValidateBasic E msg =
     bindE (accAddress E (dep_Sender msg)) (\<lambda>_.
     bindE (wrapE ErrInvalidDenom (validateDenom E (dep_Denom msg))) (\<lambda>_.
     bindE (case parseInt E (dep_Amount msg) of
         None \<Rightarrow> Inl (Nix ErrInsufficientFunds)
       | Some amt \<Rightarrow> guardE (amt > 0) (Nix ErrInsufficientFunds)) (\<lambda>_.
     bindE (wrapE ErrInvalidCommitment (validateFieldBytes (dep_NoteCommitment msg))) (\<lambda>_.
     if length (dep_Proof msg) = 0 then Inl (Nix ErrInvalidProof)
     else if length (dep_PublicInputs msg) < 32 then Inl (Nix ErrInvalidPublicInputs)
     else if length (dep_AuditorEncryptedData msg) > MaxAuditorDataSize
       then Inl (Nix ErrAuditorDataTooLarge)
     else Inr ()))))"

definition MsgDeposit_GetSigners :: "('vk, 'b) ext \<Rightarrow> MsgDeposit \<Rightarrow> bytes option list" where
  "MsgDeposit_GetSigners E msg = signers E (dep_Sender msg)"

subsection \<open>MsgTransact\<close>

definition MsgTransact_ValidateBasic :: "('vk, 'b) ext \<Rightarrow> MsgTransact \<Rightarrow> err + unit" where
  "MsgTransact_ValidateBasic E msg =
     bindE (accAddress E (tx_Sender msg)) (\<lambda>_.
     bindE (guardE (length (Nullifiers msg) = 2) (Nix ErrInvalidNullifier)) (\<lambda>_.
     bindE (validate_all (\<lambda>n. wrapE ErrInvalidNullifier (validateFieldBytes n)) (Nullifiers msg)) (\<lambda>_.
     bindE (guardE (length (MerkleRoots msg) = 2) (Nix ErrInvalidMerkleRoot)) (\<lambda>_.
     bindE (validate_all (\<lambda>r. wrapE ErrInvalidMerkleRoot (validateFieldBytes r)) (MerkleRoots msg)) (\<lambda>_.
     bindE (guardE (length (Outputs msg) = 2) (Nix ErrInvalidCommitment)) (\<lambda>_.
     bindE (validate_all (\<lambda>out. wrapE ErrInvalidCommitment (validateFieldBytes (NoteHash out)))
       (Outputs msg)) (\<lambda>_.
     bindE (wrapE ErrInvalidMerkleRoot (validateFieldBytes (RegistrationRoot msg))) (\<lambda>_.
     bindE (if WithdrawAmount msg \<noteq> '''' \<and> WithdrawAmount msg \<noteq> ''0'' then
         bindE (wrapE ErrInvalidWithdraw (validateAmount E (WithdrawAmount msg))) (\<lambda>_.
         case parseInt E (WithdrawAmount msg) of
           Some amt \<Rightarrow>
             if amt > 0 then
               (case accAddress E (WithdrawAddress msg) of
                  Inl e \<Rightarrow> Inl (wrap_err ErrInvalidWithdraw e) | Inr addr \<Rightarrow> Inr ())
             else Inr ()
         | None \<Rightarrow> Inr ())
       else Inr ()) (\<lambda>_.
     bindE (if tx_Denom msg \<noteq> '''' then wrapE ErrInvalidDenom (validateDenom E (tx_Denom msg))
       else Inr ()) (\<lambda>_.
     bindE (if RelayerFee msg \<noteq> '''' \<and> RelayerFee msg \<noteq> ''0''
         then wrapE ErrInvalidWithdraw (validateAmount E (RelayerFee msg))
       else Inr ()) (\<lambda>_.
     guardE (length (tx_Proof msg) \<noteq> 0) (Nix ErrInvalidProof))))))))))))"

definition MsgTransact_GetSigners :: "('vk, 'b) ext \<Rightarrow> MsgTransact \<Rightarrow> bytes option list" where
  "MsgTransact_GetSigners E msg = signers E (tx_Sender msg)"

subsection \<open>MsgUpdateParams, MsgSetVerificationKey\<close>

definition MsgUpdateParams_ValidateBasic :: "('vk, 'b) ext \<Rightarrow> MsgUpdateParams \<Rightarrow> err + unit" where
  "MsgUpdateParams_ValidateBasic E msg =
     bindE (accAddress E (up_Authority msg)) (\<lambda>_.
     case up_Params msg of None \<Rightarrow> Inl (Nix ErrInvalidCommitment) | Some p \<Rightarrow> Params_Validate p)"

definition MsgUpdateParams_GetSigners :: "('vk, 'b) ext \<Rightarrow> MsgUpdateParams \<Rightarrow> bytes option list" where
  "MsgUpdateParams_GetSigners E msg = signers E (up_Authority msg)"

definition MsgSetVerificationKey_ValidateBasic ::
  "('vk, 'b) ext \<Rightarrow> MsgSetVerificationKey \<Rightarrow> err + unit" where
  "MsgSetVerificationKey_ValidateBasic E msg =
     bindE (accAddress E (svk_Authority msg)) (\<lambda>_.
     if CircuitName msg = '''' then Inl (Nix ErrVKNotFound)
     else if length (VkData msg) = 0 then Inl (Nix ErrVKNotFound)
     else Inr ())"

definition MsgSetVerificationKey_GetSigners ::
  "('vk, 'b) ext \<Rightarrow> MsgSetVerificationKey \<Rightarrow> bytes option list" where
  "MsgSetVerificationKey_GetSigners E msg = signers E (svk_Authority msg)"

subsection \<open>What the checks accept\<close>

lemma validateFieldBytes_iff [simp]: "validateFieldBytes b = Inr () \<longleftrightarrow> canonical b"
  by (simp add: validateFieldBytes_def canonical_def)

lemma validateAmount_iff:
  "validateAmount E v = Inr () \<longleftrightarrow> (\<exists>a. parseInt E v = Some a \<and> 0 \<le> a \<and> a < 2 ^ 64)"
  by (auto simp: validateAmount_def split: option.splits if_splits)

text \<open>An amount field of a transact message: empty and \<open>0\<close> stand for no amount.\<close>

definition amount_ok :: "('vk, 'b) ext \<Rightarrow> string \<Rightarrow> bool" where
  "amount_ok E v \<longleftrightarrow> v \<in> {'''', ''0''} \<or> (\<exists>a. parseInt E v = Some a \<and> 0 \<le> a \<and> a < 2 ^ 64)"

definition transact_wellformed :: "('vk, 'b) ext \<Rightarrow> MsgTransact \<Rightarrow> bool" where
  "transact_wellformed E msg \<longleftrightarrow>
     length (Nullifiers msg) = 2 \<and> (\<forall>n \<in> set (Nullifiers msg). canonical n) \<and>
     length (MerkleRoots msg) = 2 \<and> (\<forall>r \<in> set (MerkleRoots msg). canonical r) \<and>
     length (Outputs msg) = 2 \<and> (\<forall>out \<in> set (Outputs msg). canonical (NoteHash out)) \<and>
     canonical (RegistrationRoot msg) \<and>
     amount_ok E (WithdrawAmount msg) \<and> amount_ok E (RelayerFee msg) \<and> tx_Proof msg \<noteq> []"

lemma ValidateBasic_transact:
  "MsgTransact_ValidateBasic E msg = Inr () \<Longrightarrow> transact_wellformed E msg"
  unfolding MsgTransact_ValidateBasic_def bindE_Inr_iff transact_wellformed_def amount_ok_def
  by (elim exE conjE, intro conjI)
    (auto simp: validate_all_iff validateAmount_iff bindE_Inr_iff split: if_splits)

lemma MsgDeposit_ValidateBasic_iff:
  "MsgDeposit_ValidateBasic E msg = Inr () \<longleftrightarrow>
     (\<exists>a. accAddress E (dep_Sender msg) = Inr a) \<and> validateDenom E (dep_Denom msg) = Inr () \<and>
     (\<exists>n. parseInt E (dep_Amount msg) = Some n \<and> 0 < n) \<and> canonical (dep_NoteCommitment msg) \<and>
     dep_Proof msg \<noteq> [] \<and> 32 \<le> length (dep_PublicInputs msg) \<and>
     length (dep_AuditorEncryptedData msg) \<le> MaxAuditorDataSize"
  unfolding MsgDeposit_ValidateBasic_def bindE_Inr_iff
  by (auto simp: not_less split: option.splits)

lemma MsgRegister_ValidateBasic_iff:
  "MsgRegister_ValidateBasic E msg = Inr () \<longleftrightarrow>
     (\<exists>a. accAddress E (reg_Sender msg) = Inr a) \<and> canonical (reg_IdentityCommitment msg) \<and>
     reg_Proof msg \<noteq> [] \<and> 32 \<le> length (reg_PublicInputs msg) \<and>
     length (reg_AuditorEncryptedData msg) \<le> MaxAuditorDataSize"
  unfolding MsgRegister_ValidateBasic_def bindE_Inr_iff by (auto simp: not_less)

lemma ValidateBasic_transact_iff:
  "MsgTransact_ValidateBasic E msg = Inr () \<longleftrightarrow>
   transact_wellformed E msg \<and> (\<exists>a. accAddress E (tx_Sender msg) = Inr a) \<and>
   (tx_Denom msg = '''' \<or> validateDenom E (tx_Denom msg) = Inr ()) \<and>
   (\<forall>a. WithdrawAmount msg \<notin> {'''', ''0''} \<and> parseInt E (WithdrawAmount msg) = Some a \<and> 0 < a \<longrightarrow>
      (\<exists>r. accAddress E (WithdrawAddress msg) = Inr r))"
  unfolding MsgTransact_ValidateBasic_def bindE_Inr_iff transact_wellformed_def amount_ok_def
  by (auto simp: validate_all_iff validateAmount_iff bindE_Inr_iff split: if_splits sum.splits)

end
