(* ===== verification/MsgServer.thy ===== *)
theory MsgServer
  imports Verify Registration RootWindow Msgs
begin

section \<open>The message handlers\<close>

text \<open>
  \<open>keeper/msg_server.go\<close>: one definition per handler, with every check and every write in the
  order of the code.  A handler runs in the error-state monad over the context; the response is
  its value.
\<close>

definition enforceAuditor :: "('vk, 'b) ext \<Rightarrow> bool \<Rightarrow> ('b chain, unit) M" where
  "enforceAuditor E hasAuditorData =
     bindM (readKV (GetParams E)) (\<lambda>params.
     if length (AuditorPubKey params) > 0 \<and> \<not> hasAuditorData
     then throwM (Nix ErrAuditorDataMissing) else returnM ())"

definition checkDenom :: "('vk, 'b) ext \<Rightarrow> string \<Rightarrow> ('b chain, unit) M" where
  "checkDenom E denom =
     bindM (readKV (GetParams E)) (\<lambda>params.
     if \<exists>d \<in> set (SupportedDenoms params). d = denom then returnM ()
     else throwM (Nix ErrInvalidDenom))"

definition isZeroBytes :: "bytes \<Rightarrow> bool" where
  "isZeroBytes b \<longleftrightarrow> b = replicate 32 0"

text \<open>The auditor's ciphertext, kept under the hash of the transaction.\<close>

definition store_auditor :: "('vk, 'b) ext \<Rightarrow> bytes \<Rightarrow> ('b chain, unit) M" where
  "store_auditor E data =
     (if length data > 0 then
        bindM (readM (\<lambda>s. Inr (sha256 E (txBytes s)))) (\<lambda>txHash.
        onKV (StoreAuditorData txHash data))
      else returnM ())"

definition commitment_event :: "string \<Rightarrow> bytes \<Rightarrow> bytes \<Rightarrow> u64 \<Rightarrow> event" where
  "commitment_event typ commitment root leafIndex =
     \<lparr>ev_type = typ, ev_attrs =
        [(AttributeKeyCommitment, fmt_hex commitment), (AttributeKeyMerkleRoot, fmt_hex root),
         (AttributeKeyLeafIndex, fmt_u64 leafIndex)]\<rparr>"

subsection \<open>Register\<close>

definition Register :: "('vk, 'b) ext \<Rightarrow> MsgRegister \<Rightarrow> ('b chain, u64 \<times> bytes) M" where
  "Register E msg =
     bindM (enforceAuditor E (length (reg_AuditorEncryptedData msg) > 0)) (\<lambda>_.
     bindM (liftE (wrapE ErrInvalidPublicInputs (ParsePublicInputs (reg_PublicInputs msg))))
       (\<lambda>publicInputs.
     bindM (readKV (GetParams E)) (\<lambda>params.
     bindM (liftE (VerifyRegisterPublicInputs publicInputs (reg_IdentityCommitment msg) params))
       (\<lambda>_.
     bindM (VerifyProof E ''registration'' (reg_Proof msg) publicInputs) (\<lambda>_.
     bindM (onKV (InsertRegCommitment E (reg_IdentityCommitment msg))) (\<lambda>(root, leafIndex).
     bindM (store_auditor E (reg_AuditorEncryptedData msg)) (\<lambda>_.
     bindM (EmitEvent (commitment_event EventTypeRegister (reg_IdentityCommitment msg) root leafIndex))
       (\<lambda>_.
     returnM (leafIndex, root)))))))))"

subsection \<open>Deposit\<close>

definition MsgDeposit_Coin :: "('vk, 'b) ext \<Rightarrow> MsgDeposit \<Rightarrow> err + (string \<times> int) list" where
  "MsgDeposit_Coin E msg =
     (case parseInt E (dep_Amount msg) of
        None \<Rightarrow> Inl (Panic ''nil amount'')
      | Some amt \<Rightarrow> newCoins E (dep_Denom msg) amt)"

definition Deposit :: "('vk, 'b) ext \<Rightarrow> MsgDeposit \<Rightarrow> ('b chain, u64 \<times> bytes) M" where
  "Deposit E msg =
     bindM (enforceAuditor E (length (dep_AuditorEncryptedData msg) > 0)) (\<lambda>_.
     bindM (liftE (wrapE ErrInvalidPublicInputs (ParsePublicInputs (dep_PublicInputs msg))))
       (\<lambda>publicInputs.
     bindM (case parseInt E (dep_Amount msg) of
         None \<Rightarrow> throwM (Nix ErrInsufficientFunds)
       | Some amt \<Rightarrow> returnM amt) (\<lambda>amt.
     bindM (readKV (GetParams E)) (\<lambda>params.
     if length (ChainBinding params) = 0 then throwM (Nix ErrInvalidPublicInputs)
     else
       bindM (liftE (VerifyDepositPublicInputs E publicInputs (dep_NoteCommitment msg) amt
         (dep_Denom msg) params)) (\<lambda>_.
       bindM (VerifyProof E ''deposit'' (dep_Proof msg) publicInputs) (\<lambda>_.
       bindM (checkDenom E (dep_Denom msg)) (\<lambda>_.
       bindM (liftE (accAddress E (dep_Sender msg))) (\<lambda>sender.
       bindM (liftE (MsgDeposit_Coin E msg)) (\<lambda>coins.
       bindM (wrapM ErrInsufficientFunds (onBank (sendToModule E sender ModuleName coins))) (\<lambda>_.
       bindM (onKV (InsertNote E (dep_NoteCommitment msg))) (\<lambda>(root, leafIndex, treeId).
       bindM (store_auditor E (dep_AuditorEncryptedData msg)) (\<lambda>_.
       bindM (EmitEvent (commitment_event EventTypeDeposit (dep_NoteCommitment msg) root leafIndex))
         (\<lambda>_.
       returnM (leafIndex, root))))))))))))))"

subsection \<open>Transact\<close>

text \<open>Step 2, one round of the loop over the nullifiers.\<close>

definition consume_nullifier :: "('vk, 'b) ext \<Rightarrow> MsgTransact \<Rightarrow> nat \<Rightarrow> ('b chain, unit) M" where
  "consume_nullifier E msg i =
     bindM (liftE (index_at (Nullifiers msg) i)) (\<lambda>nullifier.
     if isZeroBytes nullifier then returnM ()
     else
       bindM (readKV (\<lambda>s. Inr (IsNullifierSpent s nullifier))) (\<lambda>spent.
       if spent then throwM (Nix ErrNullifierSpent)
       else
         bindM (liftE (index_at (MerkleRoots msg) i)) (\<lambda>root.
         bindM (readKV (\<lambda>s. IsValidRootAnyTree E s root)) (\<lambda>valid.
         if \<not> valid then throwM (Nix ErrInvalidMerkleRoot)
         else
           bindM (onKV (MarkNullifierSpent nullifier)) (\<lambda>_.
           EmitEvent \<lparr>ev_type = EventTypeTransact,
             ev_attrs = [(AttributeKeyNullifier, fmt_hex nullifier)]\<rparr>)))))"

text \<open>Step 4, one round of the loop over the outputs.\<close>

definition insert_output ::
  "('vk, 'b) ext \<Rightarrow> MsgTransact \<Rightarrow> nat \<Rightarrow> u64 list \<times> bytes \<Rightarrow> ('b chain, u64 list \<times> bytes) M" where
  "insert_output E msg i = (\<lambda>(leafIndices, lastRoot).
     bindM (liftE (index_at (Outputs msg) i)) (\<lambda>out.
     if isZeroBytes (NoteHash out) then returnM (leafIndices, lastRoot)
     else
       bindM (onKV (InsertNote E (NoteHash out))) (\<lambda>(root, leafIndex, treeId).
       bindM (EmitEvent (commitment_event EventTypeTransact (NoteHash out) root leafIndex)) (\<lambda>_.
       returnM (leafIndices @ [leafIndex], root)))))"

text \<open>Step 5.\<close>

definition withdraw :: "('vk, 'b) ext \<Rightarrow> MsgTransact \<Rightarrow> ('b chain, unit) M" where
  "withdraw E msg =
     (if WithdrawAmount msg \<noteq> '''' \<and> WithdrawAmount msg \<noteq> ''0'' then
        bindM (case parseInt E (WithdrawAmount msg) of
            None \<Rightarrow> throwM (Nix ErrInvalidWithdraw)
          | Some amt \<Rightarrow> if \<not> amt > 0 then throwM (Nix ErrInvalidWithdraw) else returnM amt)
          (\<lambda>withdrawAmt.
        if tx_Denom msg = '''' then throwM (Nix ErrInvalidDenom)
        else
          bindM (checkDenom E (tx_Denom msg)) (\<lambda>_.
          bindM (liftE (wrapE ErrInvalidWithdraw (accAddress E (WithdrawAddress msg)))) (\<lambda>recipient.
          bindM (liftE (newCoins E (tx_Denom msg) withdrawAmt)) (\<lambda>coins.
          bindM (onBank (sendFromModule E ModuleName recipient coins)) (\<lambda>_.
          EmitEvent \<lparr>ev_type = EventTypeTransact, ev_attrs =
            [(AttributeKeyWithdrawAmount, WithdrawAmount msg),
             (AttributeKeyWithdrawAddr, WithdrawAddress msg)]\<rparr>)))))
      else returnM ())"

text \<open>Step 6.\<close>

definition pay_relayer :: "('vk, 'b) ext \<Rightarrow> MsgTransact \<Rightarrow> ('b chain, unit) M" where
  "pay_relayer E msg =
     (if RelayerFee msg \<noteq> '''' \<and> RelayerFee msg \<noteq> ''0'' then
        bindM (case parseInt E (RelayerFee msg) of
            None \<Rightarrow> throwM (Nix ErrInvalidWithdraw)
          | Some amt \<Rightarrow> if \<not> amt > 0 then throwM (Nix ErrInvalidWithdraw) else returnM amt)
          (\<lambda>relayerFee.
        if tx_Denom msg = '''' then throwM (Nix ErrInvalidDenom)
        else
          bindM (checkDenom E (tx_Denom msg)) (\<lambda>_.
          bindM (liftE (accAddress E (tx_Sender msg))) (\<lambda>relayer.
          bindM (liftE (newCoins E (tx_Denom msg) relayerFee)) (\<lambda>coins.
          bindM (onBank (sendFromModule E ModuleName relayer coins)) (\<lambda>_.
          EmitEvent \<lparr>ev_type = EventTypeTransact,
            ev_attrs = [(AttributeKeyRelayerFee, RelayerFee msg)]\<rparr>)))))
      else returnM ())"

definition Transact :: "('vk, 'b) ext \<Rightarrow> MsgTransact \<Rightarrow> ('b chain, u64 list \<times> bytes) M" where
  "Transact E msg =
     bindM (readKV (\<lambda>s. Inr (IsValidRegRoot E s (RegistrationRoot msg)))) (\<lambda>validRegRoot.
     if \<not> validRegRoot then throwM (Nix ErrInvalidMerkleRoot)
     else
       bindM (forM [0, 1] (consume_nullifier E msg)) (\<lambda>_.
       bindM (readKV (GetParams E)) (\<lambda>params.
       bindM (liftE (wrapE ErrInvalidPublicInputs
         (AssembleTransactPublicInputs E msg params (moduleAddress E)))) (\<lambda>assembled.
       bindM (VerifyProof E ''transact'' (tx_Proof msg) assembled) (\<lambda>_.
       bindM (insert_output E msg 0 ([], [])) (\<lambda>acc.
       bindM (insert_output E msg 1 acc) (\<lambda>(leafIndices, lastRoot).
       bindM (withdraw E msg) (\<lambda>_.
       bindM (pay_relayer E msg) (\<lambda>_.
       returnM (leafIndices, lastRoot))))))))))"

subsection \<open>Governance\<close>

definition UpdateParams :: "('vk, 'b) ext \<Rightarrow> MsgUpdateParams \<Rightarrow> ('b chain, unit) M" where
  "UpdateParams E msg =
     bindM (liftE (addrToBytes E (up_Authority msg))) (\<lambda>authorityAddr.
     if authorityAddr \<noteq> GetAuthority E then throwM (Std ''unauthorized'')
     else
       case up_Params msg of
         None \<Rightarrow> throwM (Std ''params cannot be nil'')
       | Some params \<Rightarrow>
           bindM (liftE (Params_Validate params)) (\<lambda>_.
           onKV (SetParams E params)))"

definition Msg_SetVerificationKey :: "('vk, 'b) ext \<Rightarrow> MsgSetVerificationKey \<Rightarrow> ('b chain, unit) M" where
  "Msg_SetVerificationKey E msg =
     bindM (liftE (addrToBytes E (svk_Authority msg))) (\<lambda>authorityAddr.
     if authorityAddr \<noteq> GetAuthority E then throwM (Std ''unauthorized'')
     else if \<not> validCircuitNames (CircuitName msg) then throwM (Std ''invalid circuit name'')
     else
       bindM (liftE (NormalizeVKData E (VkData msg))) (\<lambda>canonical.
       onKV (SetVerificationKey (CircuitName msg) canonical)))"

end
