(* ===== verification/Frames.thy ===== *)
theory Frames
  imports MsgServer
begin

section \<open>What each handler can touch\<close>

text \<open>
  For every operation the set of slots it can write, whether it succeeds or not.  The facts about
  one component then survive the calls of the others: no handler but \<open>Transact\<close> writes a
  nullifier, none but \<open>UpdateParams\<close> the parameters, and so on.
\<close>

lemma stable_touches_key:
  "key = skey_bytes k \<Longrightarrow> k \<in> K \<Longrightarrow> stable (touches K) (modifyM (kv_set key v))"
  "key = skey_bytes k \<Longrightarrow> k \<in> K \<Longrightarrow> stable (touches K) (modifyM (kv_delete key))"
  by (simp_all add: frame_rules)

lemma stable_incr: "range KRootIndex \<subseteq> K \<Longrightarrow> stable (touches K) (rootIndexIncr r)"
  unfolding rootIndexIncr_def key_simps by (intro frame_rules) auto

lemma stable_decr: "range KRootIndex \<subseteq> K \<Longrightarrow> stable (touches K) (rootIndexDecr r)"
  unfolding rootIndexDecr_def key_simps by (intro frame_rules) auto

lemma stable_setSlot:
  "k \<in> K \<Longrightarrow> range KRootIndex \<subseteq> K \<Longrightarrow> stable (touches K) (setSlotIndexed (skey_bytes k) r)"
  unfolding setSlotIndexed_def by (intro frame_rules stable_incr stable_decr)

lemma stable_walk_up:
  "(\<And>l. fk l = skey_bytes (f l)) \<Longrightarrow> (\<And>l. f l \<in> K) \<Longrightarrow> stable (touches K) (walk_up E fk n L i c)"
proof (induction n arbitrary: L i c)
  case 0
  show ?case unfolding walk_up.simps by (intro frame_rules)
next
  case (Suc n)
  then show ?case
    by (auto simp: Let_def intro!: frame_rules stable_touches_key)
qed

text \<open>The slots of the forest proper, without the set of used commitments.\<close>

definition forest_skeys :: "skey set" where
  "forest_skeys = \<Union> (range tree_skeys) \<union> range KRootIndex \<union> {KTreeCount, KActiveTreeId}"

lemma note_skeys_forest: "note_skeys = forest_skeys \<union> range KCommitmentUsed"
  by (auto simp: note_skeys_def forest_skeys_def)

lemma forest_skeys_mem [simp]:
  "KRootHistory t i \<in> forest_skeys" "KTreeRoot t \<in> forest_skeys" "KTreeNextIndex t \<in> forest_skeys"
  "KCommitment t i \<in> forest_skeys" "KFrontier t l \<in> forest_skeys" "KRootIndex r \<in> forest_skeys"
  "KTreeCount \<in> forest_skeys" "KActiveTreeId \<in> forest_skeys"
  "range KRootIndex \<subseteq> forest_skeys"
proof -
  have "tree_skeys t \<subseteq> forest_skeys" for t by (auto simp: forest_skeys_def)
  then show "KRootHistory t i \<in> forest_skeys" "KTreeRoot t \<in> forest_skeys"
    "KTreeNextIndex t \<in> forest_skeys" "KCommitment t i \<in> forest_skeys" "KFrontier t l \<in> forest_skeys"
    using tree_skeys_mem by (meson subsetD)+
qed (auto simp: forest_skeys_def)

lemma forest_skeys_not [simp]:
  "KCommitmentUsed r \<notin> forest_skeys" "KNullifier r \<notin> forest_skeys" "KParams \<notin> forest_skeys"
  "KRegCommitmentUsed r \<notin> forest_skeys" "KRegRoot \<notin> forest_skeys" "KVK n \<notin> forest_skeys"
  by (auto simp: forest_skeys_def tree_skeys_def)

lemma stable_CreateTree: "stable (touches forest_skeys) (CreateTree E)"
  unfolding CreateTree_def Let_def key_simps setTreeRootIndexed_def setTreeCount_def setActiveTreeId_def
  by (intro frame_rules stable_setSlot) simp_all

lemma stable_EnsureTreeExists: "stable (touches forest_skeys) (EnsureTreeExists E)"
  unfolding EnsureTreeExists_def by (intro frame_rules stable_CreateTree)

lemma stable_insertLeaf: "stable (touches forest_skeys) (insertLeafIntoTree E t c depth)"
  unfolding insertLeafIntoTree_def Let_def key_simps setTreeRootIndexed_def setRootHistoryIndexed_def
  by (intro frame_rules stable_setSlot stable_walk_up [where f = "KFrontier t"]) simp_all

lemma stable_InsertNote: "stable (touches note_skeys) (InsertNote E c)"
  unfolding InsertNote_def Let_def key_simps note_skeys_forest
  by (intro frame_rules stable_EnsureTreeExists [THEN stable_touches_mono]
      stable_CreateTree [THEN stable_touches_mono] stable_insertLeaf [THEN stable_touches_mono]) auto

text \<open>The registration tree, without the set of registered commitments.\<close>

definition regtree_skeys :: "skey set" where
  "regtree_skeys = range KRegCommitment \<union> range KRegFrontier \<union> {KRegRoot, KRegNextIndex}"

lemma stable_insertReg:
  "stable (touches regtree_skeys) (insertLeafSingleTree E c DefaultRegTreeDepth
     RegCommitmentKey RegFrontierKey RegRootKeyBytes RegNextIndexKeyBytes False)"
  unfolding insertLeafSingleTree_def Let_def key_simps
  by (intro frame_rules stable_walk_up [where f = KRegFrontier]) (auto simp: regtree_skeys_def)

lemma stable_InsertRegCommitment: "stable (touches reg_skeys) (InsertRegCommitment E c)"
  unfolding InsertRegCommitment_def Let_def key_simps(14)
  by (intro frame_rules stable_insertReg [THEN stable_touches_mono])
    (auto simp: reg_skeys_def regtree_skeys_def intro!: frame_rules)

subsection \<open>Handlers\<close>

definition touchesC :: "skey set \<Rightarrow> 'b chain \<Rightarrow> 'b chain \<Rightarrow> bool" where
  "touchesC K = via_kv (touches K)"

interpretation touchC: step_relation "touchesC K :: 'b chain \<Rightarrow> 'b chain \<Rightarrow> bool" for K
  by unfold_locales (auto simp: touchesC_def via_kv_def touch.R_refl intro: touch.R_trans)

lemma stableC_onKV: "stable (touches K) m \<Longrightarrow> K \<subseteq> L \<Longrightarrow> stable (touchesC L) (onKV m)"
  unfolding touchesC_def by (rule stable_onKV) (rule stable_touches_mono)

lemma stableC_onBank [frame_rules]: "stable (touchesC K) (onBank m)"
  by (auto simp: stable_def touchesC_def via_kv_def touch.R_refl split: prod.split)

lemma stableC_readKV [frame_rules]: "stable (touchesC K) (readKV g)"
  unfolding readKV_def by (rule touchC.stable_read)

lemma stableC_EmitEvent [frame_rules]: "stable (touchesC K) (EmitEvent e)"
  by (simp add: stable_def touchesC_def via_kv_def touch.R_refl)

lemma stableC_ConsumeGas [frame_rules]: "stable (touchesC K) (ConsumeGas E g d)"
  by (simp add: stable_def ConsumeGas_eval touchesC_def via_kv_def touch.R_refl)

lemma stableC_VerifyProof [frame_rules]: "stable (touchesC K) (VerifyProof E n p xs)"
  unfolding VerifyProof_def by (intro frame_rules)

lemma stableC_enforceAuditor [frame_rules]: "stable (touchesC K) (enforceAuditor E b)"
  unfolding enforceAuditor_def by (intro frame_rules)

lemma stableC_checkDenom [frame_rules]: "stable (touchesC K) (checkDenom E d)"
  unfolding checkDenom_def by (intro frame_rules)

lemma stableC_store_auditor:
  "range KAuditorData \<subseteq> K \<Longrightarrow> stable (touchesC K) (store_auditor E d)"
  unfolding store_auditor_def StoreAuditorData_def key_simps
  by (intro frame_rules stableC_onKV [where K = "range KAuditorData"]) auto

lemma stableC_withdraw [frame_rules]: "stable (touchesC K) (withdraw E msg)"
  unfolding withdraw_def by (intro frame_rules)

lemma stableC_pay_relayer [frame_rules]: "stable (touchesC K) (pay_relayer E msg)"
  unfolding pay_relayer_def by (intro frame_rules)

lemma stableC_consume:
  "range KNullifier \<subseteq> K \<Longrightarrow> stable (touchesC K) (consume_nullifier E msg i)"
  unfolding consume_nullifier_def MarkNullifierSpent_def key_simps
  by (intro frame_rules stableC_onKV [where K = "range KNullifier"]) auto

lemma stableC_insert_output: "note_skeys \<subseteq> K \<Longrightarrow> stable (touchesC K) (insert_output E msg i acc)"
  unfolding insert_output_def by (cases acc) (auto intro!: frame_rules stableC_onKV [OF stable_InsertNote])

lemma stable_Register: "stable (touchesC (reg_skeys \<union> range KAuditorData)) (Register E msg)"
  unfolding Register_def
  by (intro frame_rules stableC_onKV [OF stable_InsertRegCommitment] stableC_store_auditor) auto

lemma stable_Deposit: "stable (touchesC (note_skeys \<union> range KAuditorData)) (Deposit E msg)"
  unfolding Deposit_def
  by (intro frame_rules stableC_onKV [OF stable_InsertNote] stableC_store_auditor) auto

lemma stable_Transact: "stable (touchesC (note_skeys \<union> range KNullifier)) (Transact E msg)"
  unfolding Transact_def
  by (intro frame_rules stableC_consume stableC_insert_output) auto

lemma stable_UpdateParams: "stable (touchesC {KParams}) (UpdateParams E msg)"
  unfolding UpdateParams_def SetParams_def key_simps
  by (intro frame_rules stableC_onKV [where K = "{KParams}"]) auto

lemma stable_SetVK: "stable (touchesC (range KVK)) (Msg_SetVerificationKey E msg)"
  unfolding Msg_SetVerificationKey_def SetVerificationKey_def key_simps
  by (intro frame_rules stableC_onKV [where K = "range KVK"]) auto

end
