(* ===== verification/Handlers.thy ===== *)
theory Handlers
  imports Frames
begin

section \<open>What a successful handler did\<close>

text \<open>
  One inversion lemma per handler: if it succeeded, every check held in the state it ran in and
  the final state is the one written out.  The properties of the handlers are read off these.
\<close>

definition proof_accepted :: "('vk, 'b) ext \<Rightarrow> store \<Rightarrow> string \<Rightarrow> bytes \<Rightarrow> fr list \<Rightarrow> bool" where
  "proof_accepted E s circuit proof xs \<longleftrightarrow>
     (\<exists>vk. getVerificationKey E s circuit = Inr vk \<and> ultraVerify E vk proof xs = Inr True)"

definition verify_charge :: "nat \<times> string" where
  "verify_charge = (GasUltraHonkVerify, ''ultrahonk proof verification'')"

lemma VerifyProof_Inr_iff:
  "VerifyProof E n p xs c = (Inr u, c') \<longleftrightarrow>
     proof_accepted E (kv c) n p xs \<and> gasOk E (gasLog c @ [verify_charge]) \<and>
     c' = c\<lparr>gasLog := gasLog c @ [verify_charge]\<rparr>"
  by (auto simp: VerifyProof_def bindM_Inr_iff ConsumeGas_eval proof_accepted_def verify_charge_def
      split: sum.splits if_splits)

text \<open>When an auditor is configured there is auditor data.\<close>

definition auditor_served :: "params \<Rightarrow> bytes \<Rightarrow> bool" where
  "auditor_served p data \<longleftrightarrow> AuditorPubKey p = [] \<or> data \<noteq> []"

lemma enforceAuditor_Inr_iff:
  "enforceAuditor E (0 < length data) c = (Inr u, c') \<longleftrightarrow>
     c' = c \<and> (\<exists>p. GetParams E (kv c) = Inr p \<and> auditor_served p data)"
  "enforceAuditor E (data \<noteq> []) c = (Inr u, c') \<longleftrightarrow>
     c' = c \<and> (\<exists>p. GetParams E (kv c) = Inr p \<and> auditor_served p data)"
  by (auto simp: enforceAuditor_def auditor_served_def split: sum.splits if_splits)

lemma checkDenom_Inr_iff:
  "checkDenom E d c = (Inr u, c') \<longleftrightarrow>
     c' = c \<and> (\<exists>p. GetParams E (kv c) = Inr p \<and> d \<in> set (SupportedDenoms p))"
  by (auto simp: checkDenom_def split: sum.splits if_splits)

definition auditor_kv :: "('vk, 'b) ext \<Rightarrow> bytes \<Rightarrow> bytes \<Rightarrow> store \<Rightarrow> store" where
  "auditor_kv E tx data s = (if data = [] then s else kv_set (AuditorDataKey (sha256 E tx)) data s)"

lemma store_auditor_eval [simp]:
  "store_auditor E d c = (Inr (), c\<lparr>kv := auditor_kv E (txBytes c) d (kv c)\<rparr>)"
  by (simp add: store_auditor_def auditor_kv_def StoreAuditorData_def)

lemma liftE_Inr_iff [simp]: "liftE r c = (Inr x, c') \<longleftrightarrow> r = Inr x \<and> c' = c"
  by auto

lemma option_throw_iff:
  "(case v of None \<Rightarrow> throwM e | Some a \<Rightarrow> f a) c = (Inr x, c') \<longleftrightarrow> (\<exists>a. v = Some a \<and> f a c = (Inr x, c'))"
  by (cases v) simp_all

text \<open>From here on a call is inverted step by step, not evaluated.\<close>

declare bindM_lift [simp del] bindM_read [simp del] bindM_readKV [simp del]
  onKV_eval [simp del] onBank_eval [simp del]

subsection \<open>Register\<close>

lemma Register_success:
  assumes "Register E msg c = (Inr (idx, root), c')"
  obtains p xs s' where "GetParams E (kv c) = Inr p"
    and "auditor_served p (reg_AuditorEncryptedData msg)"
    and "ParsePublicInputs (reg_PublicInputs msg) = Inr xs"
    and "VerifyRegisterPublicInputs xs (reg_IdentityCommitment msg) p = Inr ()"
    and "proof_accepted E (kv c) ''registration'' (reg_Proof msg) xs"
    and "InsertRegCommitment E (reg_IdentityCommitment msg) (kv c) = (Inr (root, idx), s')"
    and "kv c' = auditor_kv E (txBytes c) (reg_AuditorEncryptedData msg) s'"
    and "bank c' = bank c" and "gasLog c' = gasLog c @ [verify_charge]"
    and "emitted c' = emitted c @
      [commitment_event EventTypeRegister (reg_IdentityCommitment msg) root idx]"
    and "gasOk E (gasLog c @ [verify_charge])"
  using assms unfolding Register_def
  by (auto simp: bindM_Inr_iff VerifyProof_Inr_iff enforceAuditor_Inr_iff onKV_Inr_iff
      split: prod.splits)

subsection \<open>Deposit\<close>

lemma Deposit_success:
  assumes "Deposit E msg c = (Inr (idx, root), c')"
  obtains p xs amt sender coins tid s' where "GetParams E (kv c) = Inr p"
    and "auditor_served p (dep_AuditorEncryptedData msg)"
    and "ParsePublicInputs (dep_PublicInputs msg) = Inr xs"
    and "parseInt E (dep_Amount msg) = Some amt" and "ChainBinding p \<noteq> []"
    and "VerifyDepositPublicInputs E xs (dep_NoteCommitment msg) amt (dep_Denom msg) p = Inr ()"
    and "proof_accepted E (kv c) ''deposit'' (dep_Proof msg) xs"
    and "dep_Denom msg \<in> set (SupportedDenoms p)"
    and "accAddress E (dep_Sender msg) = Inr sender" and "newCoins E (dep_Denom msg) amt = Inr coins"
    and "sendToModule E sender ModuleName coins (bank c) = (Inr (), bank c')"
    and "InsertNote E (dep_NoteCommitment msg) (kv c) = (Inr (root, idx, tid), s')"
    and "kv c' = auditor_kv E (txBytes c) (dep_AuditorEncryptedData msg) s'"
    and "gasLog c' = gasLog c @ [verify_charge]"
    and "emitted c' = emitted c @
      [commitment_event EventTypeDeposit (dep_NoteCommitment msg) root idx]"
    and "gasOk E (gasLog c @ [verify_charge])"
  using assms unfolding Deposit_def MsgDeposit_Coin_def
  by (auto simp: bindM_Inr_iff VerifyProof_Inr_iff enforceAuditor_Inr_iff checkDenom_Inr_iff
      onKV_Inr_iff onBank_Inr_iff option_throw_iff split: prod.splits if_splits)

subsection \<open>Transact\<close>

text \<open>A payout: nothing for the empty string and for \<open>0\<close>, else exactly the parsed amount, to the
  address given, in the denomination of the message.\<close>

definition paid :: "('vk, 'b) ext \<Rightarrow> store \<Rightarrow> string \<Rightarrow> string \<Rightarrow> string \<Rightarrow> 'b \<Rightarrow> 'b \<Rightarrow> bool" where
  "paid E s amount denom addr b b' \<longleftrightarrow>
     (if amount = '''' \<or> amount = ''0'' then b' = b
      else \<exists>amt p recipient coins. parseInt E amount = Some amt \<and> 0 < amt \<and> denom \<noteq> '''' \<and>
        GetParams E s = Inr p \<and> denom \<in> set (SupportedDenoms p) \<and>
        accAddress E addr = Inr recipient \<and> newCoins E denom amt = Inr coins \<and>
        sendFromModule E ModuleName recipient coins b = (Inr (), b'))"

lemma withdraw_Inr:
  "withdraw E msg c = (Inr u, c') \<Longrightarrow>
     kv c' = kv c \<and> gasLog c' = gasLog c \<and>
     paid E (kv c) (WithdrawAmount msg) (tx_Denom msg) (WithdrawAddress msg) (bank c) (bank c')"
  unfolding withdraw_def paid_def
  by (auto simp: bindM_Inr_iff checkDenom_Inr_iff onBank_Inr_iff option_throw_iff split: if_splits)

lemma pay_relayer_Inr:
  "pay_relayer E msg c = (Inr u, c') \<Longrightarrow>
     kv c' = kv c \<and> gasLog c' = gasLog c \<and>
     paid E (kv c) (RelayerFee msg) (tx_Denom msg) (tx_Sender msg) (bank c) (bank c')"
  unfolding pay_relayer_def paid_def
  by (auto simp: bindM_Inr_iff checkDenom_Inr_iff onBank_Inr_iff option_throw_iff split: if_splits)

text \<open>One output: nothing for the zero hash, else one insertion.\<close>

definition output_inserted ::
  "('vk, 'b) ext \<Rightarrow> bytes \<Rightarrow> store \<Rightarrow> u64 list \<times> bytes \<Rightarrow> store \<Rightarrow> u64 list \<times> bytes \<Rightarrow> bool" where
  "output_inserted E h s acc s' acc' \<longleftrightarrow>
     (if isZeroBytes h then s' = s \<and> acc' = acc
      else \<exists>root idx tid. InsertNote E h s = (Inr (root, idx, tid), s') \<and>
        acc' = (fst acc @ [idx], root))"

lemma insert_output_Inr:
  "insert_output E msg i acc c = (Inr acc', c') \<Longrightarrow>
     i < length (Outputs msg) \<and> bank c' = bank c \<and> gasLog c' = gasLog c \<and>
     output_inserted E (NoteHash (Outputs msg ! i)) (kv c) acc (kv c') acc'"
  unfolding insert_output_def output_inserted_def
  by (cases acc) (auto simp: bindM_Inr_iff onKV_Inr_iff split: if_splits prod.splits)

lemma consume_cases:
  assumes "consume_nullifier E msg i c = (Inr u, c')"
  obtains "i < length (Nullifiers msg)" "isZeroBytes (Nullifiers msg ! i)" "c' = c"
  | "i < length (Nullifiers msg)" "\<not> isZeroBytes (Nullifiers msg ! i)"
    "i < length (MerkleRoots msg)" "IsValidRootAnyTree E (kv c) (MerkleRoots msg ! i) = Inr True"
    "\<not> IsNullifierSpent (kv c) (Nullifiers msg ! i)"
    "kv c' = kv_set (NullifierKey (Nullifiers msg ! i)) [1] (kv c)" "bank c' = bank c"
    "gasLog c' = gasLog c" "txBytes c' = txBytes c"
  using assms
  by (auto simp: consume_nullifier_def MarkNullifierSpent_def bindM_Inr_iff onKV_Inr_iff
      split: if_splits)

lemma consume_Inr:
  assumes "consume_nullifier E msg i c = (Inr u, c')"
  shows "i < length (Nullifiers msg)" and "bank c' = bank c" and "gasLog c' = gasLog c"
    and "\<not> isZeroBytes (Nullifiers msg ! i) \<Longrightarrow>
      IsValidRootAnyTree E (kv c) (MerkleRoots msg ! i) = Inr True \<and>
      \<not> IsNullifierSpent (kv c) (Nullifiers msg ! i)"
    and "kv c' = (if isZeroBytes (Nullifiers msg ! i) then kv c
      else kv_set (NullifierKey (Nullifiers msg ! i)) [1] (kv c))"
  using assms by (elim consume_cases; simp)+

text \<open>Marking a nullifier changes no root, no parameter and no key.\<close>

definition mark_input :: "bytes \<Rightarrow> store \<Rightarrow> store" where
  "mark_input n s = (if isZeroBytes n then s else kv_set (NullifierKey n) [1] s)"

lemma mark_input_touches: "touches (range KNullifier) s (mark_input n s)"
  by (simp add: mark_input_def touch.R_refl)

lemma Transact_success:
  assumes "Transact E msg c = (Inr r, c')"
  obtains p xs s1 s2 s3 acc b where
    "GetRegMerkleRoot E (kv c) = RegistrationRoot msg"
    and "s1 = mark_input (Nullifiers msg ! 1) (mark_input (Nullifiers msg ! 0) (kv c))"
    and "2 \<le> length (Nullifiers msg)" and "2 \<le> length (Outputs msg)"
    and "\<forall>i < 2. \<not> isZeroBytes (Nullifiers msg ! i) \<longrightarrow>
      IsValidRootAnyTree E (kv c) (MerkleRoots msg ! i) = Inr True"
    and "GetParams E (kv c) = Inr p"
    and "AssembleTransactPublicInputs E msg p (moduleAddress E) = Inr xs"
    and "proof_accepted E (kv c) ''transact'' (tx_Proof msg) xs"
    and "output_inserted E (NoteHash (Outputs msg ! 0)) s1 ([], []) s2 acc"
    and "output_inserted E (NoteHash (Outputs msg ! 1)) s2 acc s3 r"
    and "kv c' = s3" and "gasLog c' = gasLog c @ [verify_charge]"
    and "paid E (kv c) (WithdrawAmount msg) (tx_Denom msg) (WithdrawAddress msg) (bank c) b"
    and "paid E (kv c) (RelayerFee msg) (tx_Denom msg) (tx_Sender msg) b (bank c')"
    and "gasOk E (gasLog c @ [verify_charge])"
proof -
  obtain c1 c2 p xs c3 acc c4 c5 c6 where
    reg: "IsValidRegRoot E (kv c) (RegistrationRoot msg)"
    and n0: "consume_nullifier E msg 0 c = (Inr (), c1)"
    and n1: "consume_nullifier E msg 1 c1 = (Inr (), c2)"
    and p: "GetParams E (kv c2) = Inr p"
    and xs: "AssembleTransactPublicInputs E msg p (moduleAddress E) = Inr xs"
    and v: "VerifyProof E ''transact'' (tx_Proof msg) xs c2 = (Inr (), c3)"
    and i0: "insert_output E msg 0 ([], []) c3 = (Inr acc, c4)"
    and i1: "insert_output E msg 1 acc c4 = (Inr r, c5)"
    and w: "withdraw E msg c5 = (Inr (), c6)" and f: "pay_relayer E msg c6 = (Inr (), c')"
    using assms unfolding Transact_def by (auto simp: bindM_Inr_iff split: if_splits prod.splits)
  let ?s1 = "mark_input (Nullifiers msg ! 0) (kv c)" and ?K = "range KNullifier"
  let ?s2 = "mark_input (Nullifiers msg ! 1) ?s1"
  have kv1: "kv c1 = ?s1" and kv2: "kv c2 = ?s2"
    using consume_Inr(5) [OF n0] consume_Inr(5) [OF n1] by (simp_all only: mark_input_def)
  have t1: "touches ?K (kv c) ?s1" and t2: "touches ?K (kv c) ?s2"
    using mark_input_touches touch.R_trans by blast+
  have par: "GetParams E s = GetParams E (kv c)" if "touches ?K (kv c) s" for s
    using that by (rule GetParams_frame) auto
  have root: "IsValidRootAnyTree E s x = IsValidRootAnyTree E (kv c) x" if "touches ?K (kv c) s" for s x
    using touches_get [OF that, of "KRootIndex (SetBytes x)"]
    by (simp add: image_iff IsValidRootAnyTree_def rootRefCount_def)
  have vk: "proof_accepted E (kv c) ''transact'' (tx_Proof msg) xs"
    using v touches_get [OF t2, of "KVK ''transact''"]
    by (auto simp: image_iff VerifyProof_Inr_iff kv2 proof_accepted_def getVerificationKey_def
        GetVerificationKeyFromState_def)
  have kv3: "kv c3 = ?s2" "bank c3 = bank c2" "gasLog c3 = gasLog c2 @ [verify_charge]"
    using v kv2 by (auto simp: VerifyProof_Inr_iff)
  note i0' = insert_output_Inr [OF i0] and i1' = insert_output_Inr [OF i1]
  note w' = withdraw_Inr [OF w] and f' = pay_relayer_Inr [OF f]
  have st: "stable (touchesC note_skeys) (insert_output E msg i a)" for i a
    by (rule stableC_insert_output) simp
  have "touchesC note_skeys c3 c5"
    by (rule touchC.R_trans [OF stableD [OF st i0] stableD [OF st i1]])
  then have "touches note_skeys (kv c3) (kv c5)" by (simp add: touchesC_def via_kv_def)
  then have "GetParams E (kv c5) = GetParams E (kv c3)" by (rule GetParams_frame) simp
  then have par5: "GetParams E (kv c5) = GetParams E (kv c)"
    using par [OF t2] kv3 by simp
  have paid_cong: "paid E s a d ad b1 b2 = paid E (kv c) a d ad b1 b2"
    if "GetParams E s = GetParams E (kv c)" for s a d ad b1 b2
    using that by (simp add: paid_def)
  show ?thesis
  proof (rule that [of ?s2 p xs "kv c4" acc "kv c5" "bank c6"])
    show "\<forall>i < 2. \<not> isZeroBytes (Nullifiers msg ! i) \<longrightarrow>
        IsValidRootAnyTree E (kv c) (MerkleRoots msg ! i) = Inr True"
      using consume_Inr(4) [OF n0] consume_Inr(4) [OF n1] root [OF t1]
      by (auto simp: kv1 less_2_cases_iff)
    show "2 \<le> length (Nullifiers msg)" using consume_Inr(1) [OF n1] by simp
    show "2 \<le> length (Outputs msg)" using i1' by simp
    show "gasOk E (gasLog c @ [verify_charge])"
      using v consume_Inr(3) [OF n0] consume_Inr(3) [OF n1] by (simp add: VerifyProof_Inr_iff)
    show "gasLog c' = gasLog c @ [verify_charge]"
      using i0' i1' w' f' kv3 consume_Inr(3) [OF n0] consume_Inr(3) [OF n1] by simp
    show "paid E (kv c) (WithdrawAmount msg) (tx_Denom msg) (WithdrawAddress msg) (bank c) (bank c6)"
      using i0' i1' w' kv3 consume_Inr(2) [OF n0] consume_Inr(2) [OF n1] paid_cong [OF par5] by simp
    show "paid E (kv c) (RelayerFee msg) (tx_Denom msg) (tx_Sender msg) (bank c6) (bank c')"
      using w' f' paid_cong [OF par5] by simp
  qed (use reg xs vk i0' i1' w' f' kv3 p par [OF t2] kv2 in \<open>simp_all add: IsValidRegRoot_def\<close>)
qed

subsection \<open>Governance\<close>

lemma UpdateParams_Inr_iff:
  "UpdateParams E msg c = (Inr u, c') \<longleftrightarrow>
     addrToBytes E (up_Authority msg) = Inr (authority E) \<and>
     (\<exists>p bz. up_Params msg = Some p \<and> Params_Validate p = Inr () \<and> marshalParams E p = Inr bz \<and>
        c' = c\<lparr>kv := kv_set ParamsKeyBytes bz (kv c)\<rparr>)"
  by (auto simp: UpdateParams_def bindM_Inr_iff onKV_Inr_iff SetParams_Inr_iff option_throw_iff
      GetAuthority_def split: if_splits)

lemma SetVK_Inr_iff:
  "Msg_SetVerificationKey E msg c = (Inr u, c') \<longleftrightarrow>
     addrToBytes E (svk_Authority msg) = Inr (authority E) \<and> validCircuitNames (CircuitName msg) \<and>
     (\<exists>vk. NormalizeVKData E (VkData msg) = Inr vk \<and>
        c' = c\<lparr>kv := kv_set (VKKey (CircuitName msg)) vk (kv c)\<rparr>)"
  by (auto simp: Msg_SetVerificationKey_def bindM_Inr_iff onKV_Inr_iff SetVerificationKey_def
      GetAuthority_def split: if_splits)

end
