(* ===== verification/Genesis.thy ===== *)
theory Genesis
  imports Handlers
begin

section \<open>Genesis import and export\<close>

text \<open>
  \<open>keeper/genesis.go\<close>.  \<open>InitGenesis\<close> writes a genesis state into the store, \<open>ExportGenesis\<close>
  reads one out of it.  A slice that is stored as it is may be nil (\<open>None\<close>); whether the store
  takes a nil value is the parameter \<open>nilValueOk\<close>.
\<close>

definition set_slice :: "('vk, 'b) ext \<Rightarrow> bytes \<Rightarrow> bytes option \<Rightarrow> (store, unit) M" where
  "set_slice E k v = (\<lambda>s.
     case kv_set_slice (nilValueOk E) k v s of Inl e \<Rightarrow> (Inl e, s) | Inr t \<Rightarrow> (Inr (), t))"

subsection \<open>Import\<close>

text \<open>One round of the loop over the trees.\<close>

definition init_tree :: "('vk, 'b) ext \<Rightarrow> TreeState \<Rightarrow> (store, unit) M" where
  "init_tree E tree =
     (let treeId = ts_TreeId tree in
      bindM (forM (enumerate 0 (ts_Commitments tree)) (\<lambda>(i, c).
        set_slice E (CommitmentKey treeId (of_nat i)) c)) (\<lambda>_.
      bindM (forM (enumerate 0 (ts_Frontier tree)) (\<lambda>(i, f).
        set_slice E (FrontierKey treeId (of_nat i)) f)) (\<lambda>_.
      bindM (if ts_NextIndex tree > 0
        then modifyM (kv_set (TreeNextIndexKey treeId) (be64 (ts_NextIndex tree)))
        else returnM ()) (\<lambda>_.
      bindM (if length (ts_MerkleRoot tree) > 0
        then setTreeRootIndexed treeId (ts_MerkleRoot tree) else returnM ()) (\<lambda>_.
      forM (enumerate 0 (ts_RootHistory tree)) (\<lambda>(i, r).
        setRootHistoryIndexed treeId (of_nat i) r))))))"

definition init_reg :: "('vk, 'b) ext \<Rightarrow> GenesisState \<Rightarrow> (store, unit) M" where
  "init_reg E gs =
     bindM (forM (enumerate 0 (gs_RegCommitments gs)) (\<lambda>(i, c).
       bindM (set_slice E (RegCommitmentKey (of_nat i)) c) (\<lambda>_.
       modifyM (kv_set (RegCommitmentUsedKey (slice c)) [1])))) (\<lambda>_.
     bindM (forM (enumerate 0 (gs_RegFrontier gs)) (\<lambda>(i, f).
       set_slice E (RegFrontierKey (of_nat i)) f)) (\<lambda>_.
     bindM (if gs_RegNextIndex gs > 0
       then modifyM (kv_set RegNextIndexKeyBytes (be64 (gs_RegNextIndex gs)))
       else returnM ()) (\<lambda>_.
     if length (gs_RegMerkleRoot gs) > 0
       then modifyM (kv_set RegRootKeyBytes (gs_RegMerkleRoot gs)) else returnM ())))"

definition init_vk :: "('vk, 'b) ext \<Rightarrow> string \<times> bytes \<Rightarrow> (store, unit) M" where
  "init_vk E = (\<lambda>(circuitName, vkData).
     bindM (liftE (case NormalizeVKData E vkData of
         Inl e \<Rightarrow> Inl (if is_panic e then e else Std ''genesis verification key is invalid'')
       | Inr bz \<Rightarrow> Inr bz)) (\<lambda>bz.
     modifyM (kv_set (VKKey circuitName) bz)))"

definition InitGenesis :: "('vk, 'b) ext \<Rightarrow> GenesisState \<Rightarrow> (store, unit) M" where
  "InitGenesis E gs =
     bindM (SetParams E (case gs_Params gs of None \<Rightarrow> DefaultParams | Some p \<Rightarrow> p)) (\<lambda>_.
     bindM (forM (gs_Trees gs) (init_tree E)) (\<lambda>_.
     bindM (modifyM (kv_set ActiveTreeIdKey (be64 (gs_ActiveTreeId gs)))) (\<lambda>_.
     bindM (modifyM (kv_set TreeCountKey (be64 (gs_TreeCount gs)))) (\<lambda>_.
     bindM (init_reg E gs) (\<lambda>_.
     bindM (forM (gs_Nullifiers gs) (\<lambda>n. modifyM (kv_set (NullifierKey n) [1]))) (\<lambda>_.
     bindM (forM (gs_CommitmentsUsed gs) (\<lambda>c. modifyM (kv_set (CommitmentUsedKey c) [1]))) (\<lambda>_.
     bindM (forM (gs_AuditorData gs) (\<lambda>(txHash, data). set_slice E (AuditorDataKey txHash) data)) (\<lambda>_.
     forM (gs_VerificationKeys gs) (init_vk E)))))))))"

subsection \<open>Export\<close>

definition iteratePrefix :: "('vk, 'b) ext \<Rightarrow> bytes \<Rightarrow> store \<Rightarrow> (bytes \<times> bytes) list" where
  "iteratePrefix E pre s = map (\<lambda>(k, v). (k, slice v)) (kv_iterator pre (prefixEnd E pre) s)"

definition export_tree :: "('vk, 'b) ext \<Rightarrow> store \<Rightarrow> u32 \<Rightarrow> u64 \<Rightarrow> err + TreeState" where
  "export_tree E s treeDepth treeId =
     bindE (GetTreeNextIndex s treeId) (\<lambda>nextIndex.
     Inr \<lparr>ts_TreeId = treeId,
       ts_Commitments = map (\<lambda>i. kv_get s (CommitmentKey treeId (of_nat i))) [0..<unat nextIndex],
       ts_Frontier = map (\<lambda>level. kv_get s (FrontierKey treeId level)) (levels treeDepth),
       ts_NextIndex = nextIndex,
       ts_MerkleRoot = GetTreeRoot E s treeId,
       ts_RootHistory = List.map_filter (\<lambda>i. kv_get s (RootHistoryKey treeId (of_nat i)))
         [0..<unat MaxRootHistory]\<rparr>)"

definition ExportGenesis :: "('vk, 'b) ext \<Rightarrow> store \<Rightarrow> err + GenesisState" where
  "ExportGenesis E s =
     bindE (GetParams E s) (\<lambda>params.
     bindE (GetTreeCount s) (\<lambda>treeCount.
     bindE (GetActiveTreeId s) (\<lambda>activeTreeId.
     let treeDepth = effective_depth params in
     bindE (mapE (\<lambda>t. export_tree E s treeDepth (of_nat t)) [0..<unat treeCount]) (\<lambda>trees.
     bindE (kv_u64 s RegNextIndexKeyBytes) (\<lambda>regNextIndex.
     Inr \<lparr>gs_Params = Some params, gs_Trees = trees, gs_ActiveTreeId = activeTreeId,
       gs_TreeCount = treeCount,
       gs_RegCommitments = map (\<lambda>i. kv_get s (RegCommitmentKey (of_nat i))) [0..<unat regNextIndex],
       gs_RegFrontier = map (\<lambda>level. kv_get s (RegFrontierKey level)) (levels DefaultRegTreeDepth),
       gs_RegNextIndex = regNextIndex,
       gs_RegMerkleRoot = GetRegMerkleRoot E s,
       gs_Nullifiers = map (\<lambda>(k, v). drop (length NullifierPrefix) k)
         (iteratePrefix E NullifierPrefix s),
       gs_AuditorData = map (\<lambda>(k, v). (drop (length AuditorDataPrefix) k, Some v))
         (iteratePrefix E AuditorDataPrefix s),
       gs_CommitmentsUsed = map (\<lambda>(k, v). drop (length CommitmentUsedPrefix) k)
         (iteratePrefix E CommitmentUsedPrefix s),
       gs_VerificationKeys = map (\<lambda>(k, v). (string_of (drop (length VKPrefix) k), v))
         (iteratePrefix E VKPrefix s)\<rparr>)))))"

end
