(* ===== verification/Safety.thy ===== *)
theory Safety
  imports Handlers
begin

section \<open>Runs of messages; one-time marks\<close>

text \<open>
  A run is a sequence of messages whose handlers succeeded, each started in any context over the
  store the previous one left (the rest of the context, the bank included, is whatever the
  chain made of it; a message that fails is rolled back by the SDK and is no step).  Three sets
  of the store hold marks that may be set only once: spent nullifiers, used note commitments,
  registered identities.  All three are sets of field elements, whatever the encodings.
\<close>

datatype message =
    TxRegister MsgRegister | TxDeposit MsgDeposit | TxTransact MsgTransact
  | TxUpdateParams MsgUpdateParams | TxSetVK MsgSetVerificationKey

inductive step :: "('vk, 'b) ext \<Rightarrow> message \<Rightarrow> 'b chain \<Rightarrow> 'b chain \<Rightarrow> bool" for E where
  step_register: "Register E m s = (Inr r, t) \<Longrightarrow> step E (TxRegister m) s t"
| step_deposit: "Deposit E m s = (Inr r, t) \<Longrightarrow> step E (TxDeposit m) s t"
| step_transact: "Transact E m s = (Inr r', t) \<Longrightarrow> step E (TxTransact m) s t"
| step_params: "UpdateParams E m s = (Inr u, t) \<Longrightarrow> step E (TxUpdateParams m) s t"
| step_vk: "Msg_SetVerificationKey E m s = (Inr u, t) \<Longrightarrow> step E (TxSetVK m) s t"

inductive_cases step_registerE: "step E (TxRegister m) s t"
inductive_cases step_depositE: "step E (TxDeposit m) s t"
inductive_cases step_transactE: "step E (TxTransact m) s t"
inductive_cases step_paramsE: "step E (TxUpdateParams m) s t"
inductive_cases step_vkE: "step E (TxSetVK m) s t"

inductive_simps step_simps:
  "step E (TxRegister m) c c'" "step E (TxDeposit m) c c'" "step E (TxTransact m) c c'"
  "step E (TxUpdateParams u) c c'" "step E (TxSetVK v) c c'"

inductive runs :: "('vk, 'b) ext \<Rightarrow> message list \<Rightarrow> store \<Rightarrow> store \<Rightarrow> bool" for E where
  runs_nil: "runs E [] s s"
| runs_cons: "kv c = s \<Longrightarrow> step E m c c' \<Longrightarrow> runs E ms (kv c') t \<Longrightarrow> runs E (m # ms) s t"

subsection \<open>What a message can touch\<close>

lemma note_skeys_not [simp]:
  "KNullifier r \<notin> note_skeys" "KRegCommitmentUsed r \<notin> note_skeys" "KRegRoot \<notin> note_skeys"
  "KVK n \<notin> note_skeys" "KParams \<notin> note_skeys"
  by (auto simp: note_skeys_forest)

lemma reg_skeys_not [simp]:
  "KNullifier r \<notin> reg_skeys" "KCommitmentUsed r \<notin> reg_skeys" "KParams \<notin> reg_skeys" "KVK n \<notin> reg_skeys"
  by (auto simp: reg_skeys_def)

fun message_skeys :: "message \<Rightarrow> skey set" where
  "message_skeys (TxRegister m) = reg_skeys \<union> range KAuditorData"
| "message_skeys (TxDeposit m) = note_skeys \<union> range KAuditorData"
| "message_skeys (TxTransact m) = note_skeys \<union> range KNullifier"
| "message_skeys (TxUpdateParams m) = {KParams}"
| "message_skeys (TxSetVK m) = range KVK"

lemma step_touches: "step E m c c' \<Longrightarrow> touches (message_skeys m) (kv c) (kv c')"
  by (induction rule: step.induct)
    (auto simp flip: via_kv_def touchesC_def dest: stableD [OF stable_Register]
      stableD [OF stable_Deposit] stableD [OF stable_Transact] stableD [OF stable_UpdateParams]
      stableD [OF stable_SetVK])

lemma step_keeps:
  "step E m c c' \<Longrightarrow> k \<notin> message_skeys m \<Longrightarrow> kv_has (kv c') (skey_bytes k) = kv_has (kv c) (skey_bytes k)"
  using step_touches by (rule touches_has)

subsection \<open>One-time marks\<close>

text \<open>
  The contract: a step sets exactly the marks its message names, they are pairwise different and
  none was set before.  Then no mark is ever set twice in a run.
\<close>

locale one_time_marks =
  fixes marked :: "store \<Rightarrow> fr \<Rightarrow> bool"
    and marks :: "message \<Rightarrow> fr list"
    and E :: "('vk, 'b) ext"
  assumes step_marks: "step E m c c' \<Longrightarrow>
    distinct (marks m) \<and> (\<forall>x \<in> set (marks m). \<not> marked (kv c) x) \<and>
    (\<forall>x. marked (kv c') x \<longleftrightarrow> marked (kv c) x \<or> x \<in> set (marks m))"
begin

lemma runs_marks:
  "runs E ms s t \<Longrightarrow>
     distinct (concat (map marks ms)) \<and> (\<forall>x \<in> set (concat (map marks ms)). \<not> marked s x) \<and>
     (\<forall>x. marked t x \<longleftrightarrow> marked s x \<or> x \<in> set (concat (map marks ms)))"
proof (induction rule: runs.induct)
  case (runs_nil s)
  then show ?case by simp
next
  case (runs_cons c s m c' ms t)
  from step_marks [OF runs_cons.hyps(2)] runs_cons.IH runs_cons.hyps(1)
  show ?case by auto
qed

end

subsection \<open>Nullifiers\<close>

definition nullifier_spent :: "store \<Rightarrow> fr \<Rightarrow> bool" where
  "nullifier_spent s x \<longleftrightarrow> kv_has s (skey_bytes (KNullifier x))"

definition spends :: "MsgTransact \<Rightarrow> fr list" where
  "spends m = map SetBytes (filter (\<lambda>n. \<not> isZeroBytes n) (take 2 (Nullifiers m)))"

fun message_spends :: "message \<Rightarrow> fr list" where
  "message_spends (TxTransact m) = spends m"
| "message_spends _ = []"

lemma IsNullifierSpent_eq: "IsNullifierSpent s n = nullifier_spent s (SetBytes n)"
  by (simp add: IsNullifierSpent_def nullifier_spent_def)

lemma consume_marks:
  assumes "consume_nullifier E msg i c = (Inr u, c')"
  defines "xs \<equiv> map SetBytes (filter (\<lambda>n. \<not> isZeroBytes n) [Nullifiers msg ! i])"
  shows "i < length (Nullifiers msg) \<and> (\<forall>x \<in> set xs. \<not> nullifier_spent (kv c) x) \<and>
    (\<forall>x. nullifier_spent (kv c') x \<longleftrightarrow> nullifier_spent (kv c) x \<or> x \<in> set xs)"
  using assms(1) by (rule consume_cases) (auto simp: xs_def nullifier_spent_def IsNullifierSpent_def)

lemma take_2: "2 \<le> length xs \<Longrightarrow> take 2 xs = [xs ! 0, xs ! 1]"
  by (cases xs; cases "tl xs") (auto simp: numeral_2_eq_2)

lemma consume_both:
  assumes "forM [0, 1] (consume_nullifier E msg) c = (Inr u, c')"
  shows "2 \<le> length (Nullifiers msg) \<and> distinct (spends msg) \<and>
    (\<forall>x \<in> set (spends msg). \<not> nullifier_spent (kv c) x) \<and>
    (\<forall>x. nullifier_spent (kv c') x \<longleftrightarrow> nullifier_spent (kv c) x \<or> x \<in> set (spends msg))"
proof -
  obtain c1 where 1: "consume_nullifier E msg 0 c = (Inr (), c1)"
    and 2: "consume_nullifier E msg 1 c1 = (Inr (), c')"
    using assms by (auto simp: bindM_Inr_iff)
  from consume_marks [OF 1] consume_marks [OF 2] show ?thesis
    by (auto simp: spends_def take_2 split: if_splits)
qed

lemma touchesC_has:
  "touchesC K c c' \<Longrightarrow> k \<notin> K \<Longrightarrow> kv_has (kv c') (skey_bytes k) = kv_has (kv c) (skey_bytes k)"
  unfolding touchesC_def via_kv_def by (rule touches_has)

lemma stableC_keeps:
  assumes "stable (touchesC K) m" "m c = (r, c')" "k \<notin> K"
  shows "kv_has (kv c') (skey_bytes k) = kv_has (kv c) (skey_bytes k)"
  using stableD [OF assms(1,2)] assms(3) by (rule touchesC_has)

text \<open>What \<open>Transact\<close> does after the nullifiers.\<close>

definition transact_rest :: "('vk, 'b) ext \<Rightarrow> MsgTransact \<Rightarrow> ('b chain, u64 list \<times> bytes) M" where
  "transact_rest E msg =
     bindM (readKV (GetParams E)) (\<lambda>params.
     bindM (liftE (wrapE ErrInvalidPublicInputs
       (AssembleTransactPublicInputs E msg params (moduleAddress E)))) (\<lambda>assembled.
     bindM (VerifyProof E ''transact'' (tx_Proof msg) assembled) (\<lambda>_.
     bindM (insert_output E msg 0 ([], [])) (\<lambda>acc.
     bindM (insert_output E msg 1 acc) (\<lambda>(leafIndices, lastRoot).
     bindM (withdraw E msg) (\<lambda>_.
     bindM (pay_relayer E msg) (\<lambda>_.
     returnM (leafIndices, lastRoot))))))))"

lemma Transact_split:
  "Transact E msg c = (Inr r, c') \<longleftrightarrow>
     IsValidRegRoot E (kv c) (RegistrationRoot msg) \<and>
     (\<exists>c1. forM [0, 1] (consume_nullifier E msg) c = (Inr (), c1) \<and>
        transact_rest E msg c1 = (Inr r, c'))"
proof -
  have "Transact E msg = bindM (readKV (\<lambda>s. Inr (IsValidRegRoot E s (RegistrationRoot msg))))
      (\<lambda>valid. if \<not> valid then throwM (Nix ErrInvalidMerkleRoot)
         else bindM (forM [0, 1] (consume_nullifier E msg)) (\<lambda>_. transact_rest E msg))"
    by (simp only: Transact_def transact_rest_def)
  then show ?thesis by (simp add: bindM_Inr_iff del: forM.simps)
qed

lemma stable_transact_rest: "stable (touchesC note_skeys) (transact_rest E msg)"
  unfolding transact_rest_def by (intro frame_rules stableC_insert_output) auto

lemma Transact_spends:
  assumes "Transact E msg c = (Inr r, c')"
  shows "distinct (spends msg) \<and> (\<forall>x \<in> set (spends msg). \<not> nullifier_spent (kv c) x) \<and>
    (\<forall>x. nullifier_spent (kv c') x \<longleftrightarrow> nullifier_spent (kv c) x \<or> x \<in> set (spends msg))"
proof -
  obtain c1 where 1: "forM [0, 1] (consume_nullifier E msg) c = (Inr (), c1)"
    and 2: "transact_rest E msg c1 = (Inr r, c')"
    using assms by (auto simp: Transact_split simp del: forM.simps)
  have "nullifier_spent (kv c') x = nullifier_spent (kv c1) x" for x
    unfolding nullifier_spent_def by (rule stableC_keeps [OF stable_transact_rest 2]) simp
  with consume_both [OF 1] show ?thesis by simp
qed

lemma step_nullifiers:
  assumes "step E m c c'"
  shows "distinct (message_spends m) \<and> (\<forall>x \<in> set (message_spends m). \<not> nullifier_spent (kv c) x) \<and>
    (\<forall>x. nullifier_spent (kv c') x \<longleftrightarrow> nullifier_spent (kv c) x \<or> x \<in> set (message_spends m))"
proof (cases "\<exists>tm. m = TxTransact tm")
  case True
  then obtain tm where m: "m = TxTransact tm" by blast
  with assms obtain r where "Transact E tm c = (Inr r, c')" by (auto elim: step_transactE)
  from Transact_spends [OF this] m show ?thesis by simp
next
  case False
  have "KNullifier x \<notin> message_skeys m" for x using False by (cases m) auto
  then have "nullifier_spent (kv c') x = nullifier_spent (kv c) x" for x
    unfolding nullifier_spent_def by (rule step_keeps [OF assms])
  with False show ?thesis by (cases m) auto
qed

interpretation nullifierMarks: one_time_marks nullifier_spent message_spends E for E
  by unfold_locales (rule step_nullifiers)

subsection \<open>Note commitments\<close>

definition note_used :: "store \<Rightarrow> fr \<Rightarrow> bool" where
  "note_used s x \<longleftrightarrow> kv_has s (skey_bytes (KCommitmentUsed x))"

definition output_notes :: "MsgTransact \<Rightarrow> bytes list" where
  "output_notes m = filter (\<lambda>h. \<not> isZeroBytes h) (map NoteHash (take 2 (Outputs m)))"

fun message_notes :: "message \<Rightarrow> fr list" where
  "message_notes (TxDeposit m) = [SetBytes (dep_NoteCommitment m)]"
| "message_notes (TxTransact m) = map SetBytes (output_notes m)"
| "message_notes _ = []"

lemma note_used_frame: "touches K s t \<Longrightarrow> KCommitmentUsed x \<notin> K \<Longrightarrow> note_used t x = note_used s x"
  unfolding note_used_def by (rule touches_has)

text \<open>\<open>InsertNote\<close> between its check and its mark.\<close>

definition insert_middle :: "('vk, 'b) ext \<Rightarrow> bytes \<Rightarrow> (store, bytes \<times> u64 \<times> u64) M" where
  "insert_middle E c =
     bindM (readM GetActiveTreeId) (\<lambda>activeId.
     bindM (readM (GetParams E)) (\<lambda>params.
     bindM (readM (\<lambda>s. GetTreeNextIndex s activeId)) (\<lambda>nextIdx.
     bindM (if nextIdx \<ge> maxLeaves (effective_depth params) then CreateTree E else returnM activeId)
       (\<lambda>treeId.
     bindM (insertLeafIntoTree E treeId c (effective_depth params)) (\<lambda>(root, leafIndex).
     returnM (root, leafIndex, treeId))))))"

lemma if_throw_iff:
  "(if b then throwM e else m) s = (Inr x, s') \<longleftrightarrow> \<not> b \<and> m s = (Inr x, s')"
  by simp

lemma InsertNote_split:
  assumes "InsertNote E c s = (Inr r, s')"
  obtains s1 s3 where "EnsureTreeExists E s = (Inr (), s1)" and "\<not> note_used s1 (SetBytes c)"
    and "insert_middle E c s1 = (Inr r, s3)" and "s' = kv_set (CommitmentUsedKey c) [1] s3"
proof -
  have "\<exists>s1 s3. EnsureTreeExists E s = (Inr (), s1) \<and> \<not> note_used s1 (SetBytes c) \<and>
      insert_middle E c s1 = (Inr r, s3) \<and> s' = kv_set (CommitmentUsedKey c) [1] s3"
    using assms unfolding InsertNote_def insert_middle_def Let_def note_used_def
    by (simp add: bindM_Inr_iff if_throw_iff case_prod_unfold split del: if_split) blast
  with that show ?thesis by blast
qed

lemma InsertNote_marks:
  assumes "InsertNote E c s = (Inr r, s')"
  shows "\<not> note_used s (SetBytes c) \<and> (\<forall>x. note_used s' x \<longleftrightarrow> note_used s x \<or> x = SetBytes c)"
proof -
  obtain s1 s3 where ens: "EnsureTreeExists E s = (Inr (), s1)"
    and unused: "\<not> note_used s1 (SetBytes c)" and mid: "insert_middle E c s1 = (Inr r, s3)"
    and s': "s' = kv_set (CommitmentUsedKey c) [1] s3"
    using assms by (rule InsertNote_split)
  have "stable (touches forest_skeys) (insert_middle E c)"
    unfolding insert_middle_def by (intro frame_rules stable_CreateTree stable_insertLeaf)
  from note_used_frame [OF stableD [OF this mid]]
    note_used_frame [OF stableD [OF stable_EnsureTreeExists ens]]
  have "note_used s1 x = note_used s x" and "note_used s3 x = note_used s1 x" for x by simp_all
  with unused s' show ?thesis by (auto simp: note_used_def)
qed

lemma output_marks:
  assumes "output_inserted E h s acc s' acc'"
  defines "xs \<equiv> map SetBytes (filter (\<lambda>h. \<not> isZeroBytes h) [h])"
  shows "(\<forall>x \<in> set xs. \<not> note_used s x) \<and> (\<forall>x. note_used s' x \<longleftrightarrow> note_used s x \<or> x \<in> set xs)"
  using assms(1) InsertNote_marks by (fastforce simp: output_inserted_def xs_def split: if_splits)

lemma touches_auditor: "touches (range KAuditorData) s (auditor_kv E tx d s)"
  by (simp add: auditor_kv_def touch.R_refl)

lemma Transact_notes:
  assumes "Transact E msg c = (Inr r, c')"
  shows "distinct (map SetBytes (output_notes msg)) \<and>
    (\<forall>x \<in> SetBytes ` set (output_notes msg). \<not> note_used (kv c) x) \<and>
    (\<forall>x. note_used (kv c') x \<longleftrightarrow> note_used (kv c) x \<or> x \<in> SetBytes ` set (output_notes msg))"
proof -
  obtain s1 s2 acc where
    s1: "s1 = mark_input (Nullifiers msg ! 1) (mark_input (Nullifiers msg ! 0) (kv c))"
    and len: "2 \<le> length (Outputs msg)"
    and out: "output_inserted E (NoteHash (Outputs msg ! 0)) s1 ([], []) s2 acc"
      "output_inserted E (NoteHash (Outputs msg ! 1)) s2 acc (kv c') r"
    using assms by (rule Transact_success) blast
  have "touches (range KNullifier) (kv c) s1"
    unfolding s1 by (rule touch.R_trans [OF mark_input_touches mark_input_touches])
  then have "note_used s1 x = note_used (kv c) x" for x
    by (rule note_used_frame) auto
  with output_marks [OF out(1)] output_marks [OF out(2)] show ?thesis
    by (auto simp: output_notes_def take_2 [OF len])
qed

lemma step_notes:
  assumes "step E m c c'"
  shows "distinct (message_notes m) \<and> (\<forall>x \<in> set (message_notes m). \<not> note_used (kv c) x) \<and>
    (\<forall>x. note_used (kv c') x \<longleftrightarrow> note_used (kv c) x \<or> x \<in> set (message_notes m))"
proof (cases m)
  case (TxDeposit dm)
  with assms obtain idx root where "Deposit E dm c = (Inr (idx, root), c')"
    by (auto elim: step_depositE)
  then obtain tid s' where ins: "InsertNote E (dep_NoteCommitment dm) (kv c) = (Inr (root, idx, tid), s')"
    and kv: "kv c' = auditor_kv E (txBytes c) (dep_AuditorEncryptedData dm) s'"
    by (rule Deposit_success) blast
  have "note_used (kv c') x = note_used s' x" for x
    unfolding kv by (rule note_used_frame [OF touches_auditor]) auto
  with InsertNote_marks [OF ins] TxDeposit show ?thesis by simp
next
  case (TxTransact tm)
  with assms obtain r where "Transact E tm c = (Inr r, c')" by (auto elim: step_transactE)
  from Transact_notes [OF this] TxTransact show ?thesis by simp
qed (use assms step_keeps [OF assms] in \<open>auto simp: note_used_def image_iff\<close>)

interpretation noteMarks: one_time_marks note_used message_notes E for E
  by unfold_locales (rule step_notes)

subsection \<open>Registered identities\<close>

definition identity_used :: "store \<Rightarrow> fr \<Rightarrow> bool" where
  "identity_used s x \<longleftrightarrow> kv_has s (skey_bytes (KRegCommitmentUsed x))"

fun message_identities :: "message \<Rightarrow> fr list" where
  "message_identities (TxRegister m) = [SetBytes (reg_IdentityCommitment m)]"
| "message_identities _ = []"

lemma identity_frame:
  "touches K s t \<Longrightarrow> KRegCommitmentUsed x \<notin> K \<Longrightarrow> identity_used t x = identity_used s x"
  unfolding identity_used_def by (rule touches_has)

lemma InsertReg_marks:
  assumes "InsertRegCommitment E c s = (Inr r, s')"
  shows "\<not> identity_used s (SetBytes c) \<and> (\<forall>x. identity_used s' x \<longleftrightarrow> identity_used s x \<or> x = SetBytes c)"
proof -
  obtain s1 r' where unused: "\<not> identity_used s (SetBytes c)"
    and ins: "insertLeafSingleTree E c DefaultRegTreeDepth RegCommitmentKey RegFrontierKey
      RegRootKeyBytes RegNextIndexKeyBytes False s = (Inr r', s1)"
    and s': "s' = kv_set (RegCommitmentUsedKey c) [1] s1"
    using assms
    by (auto simp: InsertRegCommitment_def Let_def bindM_Inr_iff identity_used_def split: if_splits)
  have "identity_used s1 x = identity_used s x" for x
    by (rule identity_frame [OF stableD [OF stable_insertReg ins]]) (auto simp: regtree_skeys_def)
  with unused s' show ?thesis by (auto simp: identity_used_def)
qed

lemma step_identities:
  assumes "step E m c c'"
  shows "distinct (message_identities m) \<and> (\<forall>x \<in> set (message_identities m). \<not> identity_used (kv c) x) \<and>
    (\<forall>x. identity_used (kv c') x \<longleftrightarrow> identity_used (kv c) x \<or> x \<in> set (message_identities m))"
proof (cases m)
  case (TxRegister rm)
  with assms obtain idx root where "Register E rm c = (Inr (idx, root), c')"
    by (auto elim: step_registerE)
  then obtain s' where ins: "InsertRegCommitment E (reg_IdentityCommitment rm) (kv c) = (Inr (root, idx), s')"
    and kv: "kv c' = auditor_kv E (txBytes c) (reg_AuditorEncryptedData rm) s'"
    by (rule Register_success) blast
  have "identity_used (kv c') x = identity_used s' x" for x
    unfolding kv by (rule identity_frame [OF touches_auditor]) auto
  with InsertReg_marks [OF ins] TxRegister show ?thesis by simp
qed (use assms step_keeps [OF assms] in \<open>auto simp: identity_used_def image_iff\<close>)

interpretation identityMarks: one_time_marks identity_used message_identities E for E
  by unfold_locales (rule step_identities)

subsection \<open>Governance\<close>

lemma GetVK_frame:
  "touches K s s' \<Longrightarrow> KVK n \<notin> K \<Longrightarrow>
     GetVerificationKeyFromState s' n = GetVerificationKeyFromState s n"
  by (simp add: GetVerificationKeyFromState_def touches_get)

text \<open>The message that changed what a read of the store sees is in the run, between two contexts.\<close>

lemma runs_changed:
  assumes "runs E ms s t" and "g t \<noteq> g s"
  shows "\<exists>m c c'. m \<in> set ms \<and> step E m c c' \<and> g (kv c') \<noteq> g (kv c)"
  using assms
proof (induction rule: runs.induct)
  case (runs_nil s)
  then show ?case by simp
next
  case (runs_cons c s m c' ms t)
  show ?case
  proof (cases "g (kv c') = g (kv c)")
    case True
    with runs_cons.hyps(1) runs_cons.prems have "g t \<noteq> g (kv c')" by simp
    from runs_cons.IH [OF this] show ?thesis by auto
  next
    case False
    with runs_cons.hyps(2) show ?thesis by (intro exI [of _ m] exI conjI) simp_all
  qed
qed

lemma params_changed:
  assumes "step E m c c'" "GetParams E (kv c') \<noteq> GetParams E (kv c)"
  shows "\<exists>u. m = TxUpdateParams u \<and> UpdateParams E u c = (Inr (), c')"
proof -
  have "KParams \<in> message_skeys m"
    using GetParams_frame [OF step_touches [OF assms(1)]] assms(2) by blast
  then obtain u where "m = TxUpdateParams u" by (cases m) auto
  with assms(1) show ?thesis by (auto elim: step_paramsE)
qed

lemma vk_changed:
  assumes "step E m c c'"
    "GetVerificationKeyFromState (kv c') n \<noteq> GetVerificationKeyFromState (kv c) n"
  shows "\<exists>u. m = TxSetVK u \<and> Msg_SetVerificationKey E u c = (Inr (), c') \<and> CircuitName u = n"
proof -
  have "KVK n \<in> message_skeys m"
    using GetVK_frame [OF step_touches [OF assms(1)]] assms(2) by blast
  then obtain u where m: "m = TxSetVK u" by (cases m) auto
  with assms(1) have set: "Msg_SetVerificationKey E u c = (Inr (), c')" by (auto elim: step_vkE)
  then obtain vk where "c' = c\<lparr>kv := kv_set (VKKey (CircuitName u)) vk (kv c)\<rparr>"
    by (auto simp: SetVK_Inr_iff)
  with assms(2) have "CircuitName u = n" by (cases "CircuitName u = n") simp_all
  with m set show ?thesis by blast
qed

end
