(* ===== verification/IndexInv.thy ===== *)
theory IndexInv
  imports Safety
begin

section \<open>The root index through every message\<close>

text \<open>
  The invariant of the root index does not depend on what the trees hold, on the depth
  parameter or on the hash: every handler that succeeds keeps it.  \<open>forest_index s m\<close>: the store
  has \<open>m\<close> trees, the active one is among them, the index counts exactly the slots that hold a
  root, those slots are slots of the \<open>m\<close> trees, and they hold canonical bytes.
\<close>

definition index_inv :: "store \<Rightarrow> nat \<Rightarrow> bool" where
  "index_inv s m \<longleftrightarrow> index_ok s \<and> root_slots_in s m \<and> roots_canonical s"

definition forest_index :: "store \<Rightarrow> nat \<Rightarrow> bool" where
  "forest_index s m \<longleftrightarrow>
     GetTreeCount s = Inr (of_nat m) \<and>
     (\<exists>a. GetActiveTreeId s = Inr a \<and> (m = 0 \<or> a < of_nat m)) \<and> index_inv s m"

lemma index_inv_mono: "index_inv s m \<Longrightarrow> m \<le> n \<Longrightarrow> n < 2 ^ 64 \<Longrightarrow> index_inv s n"
  by (auto simp: index_inv_def intro: root_slots_in_mono)

lemma index_inv_frame:
  assumes "touches K s s'" "\<And>r. KRootIndex r \<notin> K" "\<And>t. KTreeRoot t \<notin> K"
    "\<And>t i. KRootHistory t i \<notin> K" and inv: "index_inv s m"
  shows "index_inv s' m"
proof -
  have ok: "index_ok s" "root_slots_in s m" using inv by (simp_all add: index_inv_def)
  have "slot_skey sl \<notin> K" for sl using assms(3,4) by (cases sl) simp_all
  then have "roots_canonical s'"
    using inv by (simp add: index_inv_def roots_canonical_def Let_def touches_get [OF assms(1)])
  with index_frame [OF assms(1-4) ok] show ?thesis by (simp add: index_inv_def)
qed

lemma set_slot_inv:
  assumes inv: "index_inv s m" and m: "m \<le> 2 * tree_bound"
    and sl: "sl \<in> set (scan_slots (of_nat m))" and b: "canonical b"
    and run: "setSlotIndexed (skey_bytes (slot_skey sl)) b s = (r, s')"
  shows "index_inv s' m"
proof -
  have ok: "index_ok s" and slots: "root_slots_in s m" and can: "roots_canonical s"
    using inv by (simp_all add: index_inv_def)
  from setSlotIndexed_correct [OF ok root_slots_in_bounded [OF slots m], of sl b] run
  have ok': "index_ok s'" and roots: "slot_root s' = (slot_root s)(sl := root_opt b)"
    and get: "slice (kv_get s' (skey_bytes (slot_skey sl))) = b"
    and t: "touches (insert (slot_skey sl) (range KRootIndex)) s s'" by auto
  have "roots_canonical s'"
    unfolding roots_canonical_def Let_def
  proof
    fix sl' show "slice (kv_get s' (skey_bytes (slot_skey sl'))) = [] \<or>
        canonical (slice (kv_get s' (skey_bytes (slot_skey sl'))))"
    proof (cases "sl' = sl")
      case True
      with get b show ?thesis by simp
    next
      case False
      then have "kv_get s' (skey_bytes (slot_skey sl')) = kv_get s (skey_bytes (slot_skey sl'))"
        by (intro touches_get [OF t]) (auto simp: image_iff)
      with can show ?thesis by (simp add: roots_canonical_def Let_def)
    qed
  qed
  with ok' root_slots_in_upd [OF slots roots sl] show ?thesis by (simp add: index_inv_def)
qed

subsection \<open>Trees\<close>

lemma CreateTree_index:
  assumes run: "CreateTree E s = (Inr t, s')" and f: "forest_index s m" and m: "m < 2 * tree_bound"
  shows "t = of_nat m" and "forest_index s' (Suc m)"
proof -
  let ?t = "of_nat m :: u64"
  obtain p s1 s2 where
    fill: "forM (levels (effective_depth p))
      (\<lambda>level. modifyM (kv_set (FrontierKey ?t level) (frBytes (zeroHash E level)))) s = (Inr (), s1)"
    and set: "setSlotIndexed (skey_bytes (slot_skey (CurrentRoot ?t)))
      (zeroRootBytes E (effective_depth p)) s1 = (Inr (), s2)"
    and t: "t = ?t"
    and s': "s' = kv_set (skey_bytes KActiveTreeId) (be64 ?t) (kv_set (skey_bytes KTreeCount) (be64 (?t + 1))
      (kv_set (skey_bytes (KTreeNextIndex ?t)) (be64 0) s2))"
    using run f
    by (auto simp: CreateTree_def Let_def bindM_Inr_iff setTreeRootIndexed_def setTreeCount_def
        setActiveTreeId_def forest_index_def)
  show "t = ?t" by (rule t)
  have m': "Suc m \<le> 2 * tree_bound" using m by simp
  then have bnd: "Suc m < 2 ^ 64" by (simp add: tree_bound_def)
  have "stable (touches (range (KFrontier ?t))) (forM (levels (effective_depth p))
      (\<lambda>level. modifyM (kv_set (FrontierKey ?t level) (frBytes (zeroHash E level)))))"
    unfolding key_simps by (intro frame_rules) simp
  then have t1: "touches (range (KFrontier ?t)) s s1" using fill by (rule stableD)
  have "index_inv s (Suc m)" using f bnd index_inv_mono [of s m "Suc m"] by (simp add: forest_index_def)
  then have "index_inv s1 (Suc m)" by (intro index_inv_frame [OF t1]) auto
  then have i2: "index_inv s2 (Suc m)"
    by (rule set_slot_inv [OF _ m' _ _ set])
      (simp_all add: set_scan_slots zeroRootBytes_def of_nat_tree_less [OF _ m'] del: of_nat_Suc)
  have "touches {KTreeNextIndex ?t, KTreeCount, KActiveTreeId} s2 s'"
    unfolding s' by (intro touch.R_trans [OF touches_set touch.R_trans [OF touches_set touches_set]]) simp_all
  then have "index_inv s' (Suc m)" by (rule index_inv_frame) (simp_all add: i2)
  then show "forest_index s' (Suc m)"
    using of_nat_tree_less [OF _ m', of m]
    by (simp add: s' forest_index_def GetTreeCount_def GetActiveTreeId_def add.commute)
qed

lemma insertLeaf_inv:
  assumes "insertLeafIntoTree E t c depth s = (Inr r, s')"
  shows "\<exists>idx s1 cur s2 s3.
    walk_up E (FrontierKey t) (unat depth) 0 idx (SetBytes c)
      (kv_set (CommitmentKey t idx) c s) = (Inr cur, s1) \<and>
    setTreeRootIndexed t (frBytes cur) s1 = (Inr (), s2) \<and>
    setRootHistoryIndexed t (idx mod MaxRootHistory) (frBytes cur) s2 = (Inr (), s3) \<and>
    s' = kv_set (TreeNextIndexKey t) (be64 (idx + 1)) s3"
  using assms unfolding insertLeafIntoTree_def Let_def
  by (simp add: bindM_Inr_iff if_throw_iff split del: if_split) blast

lemma insert_middle_inv:
  assumes "insert_middle E c s = (Inr r, s')"
  shows "\<exists>a p n t s1 ri. GetActiveTreeId s = Inr a \<and>
    (if n \<ge> maxLeaves (effective_depth p) then CreateTree E else returnM a) s = (Inr t, s1) \<and>
    insertLeafIntoTree E t c (effective_depth p) s1 = (Inr ri, s')"
  using assms unfolding insert_middle_def
  by (simp add: bindM_Inr_iff case_prod_unfold split del: if_split) blast

lemma insertLeaf_index:
  assumes run: "insertLeafIntoTree E t c depth s = (Inr r, s')" and f: "forest_index s m"
    and t: "t < of_nat m" and m: "m \<le> 2 * tree_bound"
  shows "forest_index s' m"
proof -
  obtain idx s1 cur s2 s3 where
    walk: "walk_up E (FrontierKey t) (unat depth) 0 idx (SetBytes c)
      (kv_set (CommitmentKey t idx) c s) = (Inr cur, s1)"
    and set1: "setTreeRootIndexed t (frBytes cur) s1 = (Inr (), s2)"
    and set2: "setRootHistoryIndexed t (idx mod MaxRootHistory) (frBytes cur) s2 = (Inr (), s3)"
    and s': "s' = kv_set (TreeNextIndexKey t) (be64 (idx + 1)) s3"
    using insertLeaf_inv [OF run] by (elim exE conjE) (rule that)
  have set1': "setSlotIndexed (skey_bytes (slot_skey (CurrentRoot t))) (frBytes cur) s1 = (Inr (), s2)"
    and set2': "setSlotIndexed (skey_bytes (slot_skey (HistoryRoot t (idx mod MaxRootHistory))))
      (frBytes cur) s2 = (Inr (), s3)"
    using set1 set2 by (simp_all add: setTreeRootIndexed_def setRootHistoryIndexed_def)
  let ?K = "range (KCommitment t) \<union> range (KFrontier t)"
  have "stable (touches (range (KFrontier t))) (walk_up E (FrontierKey t) (unat depth) 0 idx (SetBytes c))"
    by (rule stable_walk_up [where f = "KFrontier t"]) simp_all
  from stableD [OF this walk] have "touches ?K (kv_set (CommitmentKey t idx) c s) s1"
    by (rule touches_mono) simp
  then have "touches ?K s s1" by (rule touch.R_trans [rotated]) simp
  then have "index_inv s1 m" by (rule index_inv_frame) (use f in \<open>auto simp: forest_index_def\<close>)
  then have "index_inv s2 m" by (rule set_slot_inv [OF _ m _ _ set1']) (simp_all add: set_scan_slots t)
  moreover have "idx mod MaxRootHistory < MaxRootHistory"
    by (simp only: word_less_nat_alt unat_mod MaxRootHistory_unat mod_less_divisor zero_less_numeral)
  ultimately have i3: "index_inv s3 m"
    by (intro set_slot_inv [OF _ m _ _ set2']) (simp_all add: set_scan_slots t)
  have "touches {KTreeNextIndex t} s3 s'" by (simp add: s')
  then have "index_inv s' m" by (rule index_inv_frame) (simp_all add: i3)
  moreover have "touches (tree_skeys t \<union> range KRootIndex) s s'"
  proof -
    have "stable (touches (tree_skeys t \<union> range KRootIndex)) (insertLeafIntoTree E t c depth)"
      unfolding insertLeafIntoTree_def Let_def key_simps setTreeRootIndexed_def setRootHistoryIndexed_def
      by (intro frame_rules stable_setSlot stable_walk_up [where f = "KFrontier t"]) simp_all
    then show ?thesis using run by (rule stableD)
  qed
  then have "GetTreeCount s' = GetTreeCount s" "GetActiveTreeId s' = GetActiveTreeId s"
    using touches_u64 [of _ s s' KTreeCount] touches_u64 [of _ s s' KActiveTreeId]
    by (auto simp: GetTreeCount_def GetActiveTreeId_def tree_skeys_def)
  ultimately show ?thesis using f by (simp add: forest_index_def)
qed

lemma forest_index_frame:
  assumes "touches K s s'" "K \<inter> forest_skeys = {}" "forest_index s m"
  shows "forest_index s' m"
proof -
  have k: "x \<in> forest_skeys \<Longrightarrow> x \<notin> K" for x using assms(2) by blast
  have "index_inv s' m"
    by (rule index_inv_frame [OF assms(1)]) (use assms(3) k in \<open>simp_all add: forest_index_def\<close>)
  moreover have "GetTreeCount s' = GetTreeCount s" "GetActiveTreeId s' = GetActiveTreeId s"
    using touches_u64 [OF assms(1) k, of KTreeCount] touches_u64 [OF assms(1) k, of KActiveTreeId]
    by (simp_all add: GetTreeCount_def GetActiveTreeId_def)
  ultimately show ?thesis using assms(3) by (simp add: forest_index_def)
qed

lemma InsertNote_index:
  assumes run: "InsertNote E c s = (Inr r, s')" and f: "forest_index s m" and m: "m + 2 \<le> 2 * tree_bound"
  obtains m' where "forest_index s' m'" and "m' \<le> m + 2"
proof -
  obtain s1 s3 where ens: "EnsureTreeExists E s = (Inr (), s1)"
    and mid: "insert_middle E c s1 = (Inr r, s3)" and s': "s' = kv_set (CommitmentUsedKey c) [1] s3"
    using run by (rule InsertNote_split)
  have "\<exists>m1. forest_index s1 m1 \<and> m1 \<le> m + 1 \<and> m1 \<noteq> 0"
  proof (cases "m = 0")
    case True
    with ens f obtain t where "CreateTree E s = (Inr t, s1)"
      by (auto simp: EnsureTreeExists_def forest_index_def bindM_Inr_iff)
    from CreateTree_index(2) [OF this f] m True show ?thesis by auto
  next
    case False
    have "(of_nat m :: u64) \<noteq> of_nat 0" using False m of_nat_tree_inj [of m 0] by simp
    with ens f have "s1 = s" by (auto simp: EnsureTreeExists_def forest_index_def bindM_Inr_iff)
    with f False show ?thesis by auto
  qed
  then obtain m1 where f1: "forest_index s1 m1" and m1: "m1 \<le> m + 1" "m1 \<noteq> 0" by blast
  obtain a p n t s2 ri where a: "GetActiveTreeId s1 = Inr a"
    and cho: "(if n \<ge> maxLeaves (effective_depth p) then CreateTree E else returnM a) s1 = (Inr t, s2)"
    and ins: "insertLeafIntoTree E t c (effective_depth p) s2 = (Inr ri, s3)"
    using insert_middle_inv [OF mid] by (elim exE conjE) (rule that)
  obtain m2 where f2: "forest_index s2 m2" and m2: "m2 \<le> m1 + 1" and t2: "t < of_nat m2"
  proof (cases "n \<ge> maxLeaves (effective_depth p)")
    case True
    with cho have cr: "CreateTree E s1 = (Inr t, s2)" by simp
    have "m1 < 2 * tree_bound" using m1 m by simp
    from CreateTree_index [OF cr f1 this] of_nat_tree_less [of m1 "Suc m1"] m1 m that [of "Suc m1"]
    show ?thesis by simp
  next
    case False
    with cho a f1 m1 that [of m1] show ?thesis by (auto simp: forest_index_def)
  qed
  have "forest_index s3 m2"
    using insertLeaf_index [OF ins f2 t2] m2 m1 m by simp
  moreover have "touches {KCommitmentUsed (SetBytes c)} s3 s'" by (simp add: s')
  ultimately have "forest_index s' m2" by (rule forest_index_frame [rotated 2]) auto
  with that m1 m2 show ?thesis by simp
qed

subsection \<open>Messages\<close>

lemma output_index:
  assumes "output_inserted E h s acc s' acc'" "forest_index s m" "m + 2 \<le> 2 * tree_bound"
  obtains m' where "forest_index s' m'" and "m' \<le> m + 2"
proof (cases "isZeroBytes h")
  case True
  with assms that [of m] show ?thesis by (simp add: output_inserted_def)
next
  case False
  with assms(1) obtain r where "InsertNote E h s = (Inr r, s')" by (auto simp: output_inserted_def)
  from this assms(2,3) that show ?thesis by (rule InsertNote_index)
qed

lemma step_index:
  assumes step: "step E m c c'" and f: "forest_index (kv c) n" and n: "n + 4 \<le> 2 * tree_bound"
  obtains n' where "forest_index (kv c') n'" and "n' \<le> n + 4"
proof (cases m)
  case (TxDeposit dm)
  with step obtain idx root where "Deposit E dm c = (Inr (idx, root), c')"
    by (auto elim: step_depositE)
  then obtain tid s' where ins: "InsertNote E (dep_NoteCommitment dm) (kv c) = (Inr (root, idx, tid), s')"
    and kv: "kv c' = auditor_kv E (txBytes c) (dep_AuditorEncryptedData dm) s'"
    by (rule Deposit_success) blast
  obtain n' where f': "forest_index s' n'" and n': "n' \<le> n + 2"
    using InsertNote_index [OF ins f] n by auto
  have "forest_index (kv c') n'"
    unfolding kv by (rule forest_index_frame [OF touches_auditor _ f'])
      (auto simp: forest_skeys_def tree_skeys_def)
  with that n' show ?thesis by simp
next
  case (TxTransact tm)
  with step obtain r where "Transact E tm c = (Inr r, c')" by (auto elim: step_transactE)
  then obtain s1 s2 acc where
    s1: "s1 = mark_input (Nullifiers tm ! 1) (mark_input (Nullifiers tm ! 0) (kv c))"
    and out: "output_inserted E (NoteHash (Outputs tm ! 0)) s1 ([], []) s2 acc"
      "output_inserted E (NoteHash (Outputs tm ! 1)) s2 acc (kv c') r"
    by (rule Transact_success) blast
  have "touches (range KNullifier) (kv c) s1"
    unfolding s1 by (rule touch.R_trans [OF mark_input_touches mark_input_touches])
  then have "forest_index s1 n"
    by (rule forest_index_frame [OF _ _ f]) (auto simp: forest_skeys_def tree_skeys_def)
  moreover have "n + 2 \<le> 2 * tree_bound" using n by simp
  ultimately obtain n1 where n1: "forest_index s2 n1" "n1 \<le> n + 2" by (rule output_index [OF out(1)])
  moreover have "n1 + 2 \<le> 2 * tree_bound" using n n1(2) by simp
  ultimately obtain n2 where "forest_index (kv c') n2" "n2 \<le> n1 + 2" using output_index [OF out(2)] by blast
  with that n1 show ?thesis by simp
next
  case (TxRegister rm)
  then have "message_skeys m \<inter> forest_skeys = {}"
    by (auto simp: forest_skeys_def tree_skeys_def reg_skeys_def)
  from forest_index_frame [OF step_touches [OF step] this f] that show ?thesis by simp
next
  case (TxUpdateParams um)
  then have "message_skeys m \<inter> forest_skeys = {}" by simp
  from forest_index_frame [OF step_touches [OF step] this f] that show ?thesis by simp
next
  case (TxSetVK vm)
  then have "message_skeys m \<inter> forest_skeys = {}" by auto
  from forest_index_frame [OF step_touches [OF step] this f] that show ?thesis by simp
qed

lemma runs_index:
  "runs E ms s t \<Longrightarrow> forest_index s n \<Longrightarrow> n + 4 * length ms \<le> 2 * tree_bound \<Longrightarrow>
     \<exists>n'. forest_index t n' \<and> n' \<le> n + 4 * length ms"
proof (induction arbitrary: n rule: runs.induct)
  case (runs_nil s)
  then show ?case by auto
next
  case (runs_cons c s m c' ms t)
  have "n + 4 \<le> 2 * tree_bound" using runs_cons.prems(2) by simp
  with runs_cons.hyps(1,2) runs_cons.prems(1) obtain n1 where
    n1: "forest_index (kv c') n1" "n1 \<le> n + 4" using step_index by metis
  with runs_cons.prems(2) have "n1 + 4 * length ms \<le> 2 * tree_bound" by simp
  from runs_cons.IH [OF n1(1) this] n1(2) show ?case by auto
qed

text \<open>The empty store is such a state.\<close>

lemma forest_index_start: "forest_index kv_empty 0"
proof -
  have "slot_root kv_empty = (\<lambda>_. None)" by (rule ext) (simp add: slot_root_def)
  then show ?thesis
    by (simp add: forest_index_def index_inv_def index_ok_def index_is_def index_entry_def holders_def
        root_slots_in_def roots_canonical_def GetTreeCount_def GetActiveTreeId_def)
qed

end
