(* ===== verification/GenesisSpec.thy ===== *)
theory GenesisSpec
  imports Genesis IndexInv
begin

section \<open>What genesis import writes\<close>

text \<open>
  One lemma per loop of \<open>InitGenesis\<close>: it succeeds when every slice it stores may be stored, the
  slots then hold the values of the genesis state, and no other slot changed.  Together with
  what \<open>ExportGenesis\<close> reads they give the round trip: a store that represents a forest, a
  registration tree and a nullifier set is restored by exporting and importing it.
\<close>

definition storable :: "('vk, 'b) ext \<Rightarrow> bytes option \<Rightarrow> bool" where
  "storable E v \<longleftrightarrow> nilValueOk E \<or> v \<noteq> None"

definition kv_put :: "bytes \<Rightarrow> bytes option \<Rightarrow> store \<Rightarrow> store" where
  "kv_put k v s = RBT.insert k v s"

lemma kv_put_simps [simp]:
  "kv_get (kv_put k v s) k' = (if k' = k then v else kv_get s k')"
  "kv_has (kv_put k v s) k' \<longleftrightarrow> k' = k \<or> kv_has s k'"
  by (simp_all add: kv_get_def kv_has_def kv_put_def)

lemma touches_put [simp]: "k \<in> K \<Longrightarrow> touches K s (kv_put (skey_bytes k) v s)"
  by (auto simp: touches_def)

lemma set_slice_eval:
  "set_slice E k v s = (if storable E v then (Inr (), kv_put k v s) else (Inl (Ext ''value is nil''), s))"
  by (cases v) (auto simp: set_slice_def kv_set_slice_def storable_def kv_put_def kv_set_def)

subsection \<open>Loops that store slices\<close>

lemma bulk_set:
  assumes "\<forall>x \<in> set xs. storable E x" and "inj_on K {n ..< n + length xs}"
  shows "\<exists>t. forM (enumerate n xs) (\<lambda>(i, c). set_slice E (skey_bytes (K i)) c) s = (Inr (), t) \<and>
    (\<forall>i < length xs. kv_get t (skey_bytes (K (n + i))) = xs ! i) \<and>
    touches (K ` {n ..< n + length xs}) s t"
  using assms
proof (induction xs arbitrary: n s)
  case Nil
  then show ?case by (simp add: touch.R_refl)
next
  case (Cons x xs)
  let ?s = "kv_put (skey_bytes (K n)) x s"
  have "inj_on K {Suc n ..< Suc n + length xs}" using Cons.prems(2) by (rule inj_on_subset) auto
  with Cons.IH [of "Suc n" ?s] Cons.prems(1) obtain t where
    run: "forM (enumerate (Suc n) xs) (\<lambda>(i, c). set_slice E (skey_bytes (K i)) c) ?s = (Inr (), t)"
    and get: "\<And>i. i < length xs \<Longrightarrow> kv_get t (skey_bytes (K (Suc n + i))) = xs ! i"
    and t: "touches (K ` {Suc n ..< Suc n + length xs}) ?s t" by auto
  have "K n \<notin> K ` {Suc n ..< Suc n + length xs}"
    using inj_onD [OF Cons.prems(2), of n] by fastforce
  then have "kv_get t (skey_bytes (K n)) = x" using touches_get [OF t] by simp
  with get have "\<forall>i < length (x # xs). kv_get t (skey_bytes (K (n + i))) = (x # xs) ! i"
    by (auto simp: less_Suc_eq_0_disj)
  moreover have "touches (K ` {n ..< n + length (x # xs)}) s t"
  proof (rule touch.R_trans)
    show "touches (K ` {n ..< n + length (x # xs)}) s ?s" by simp
    show "touches (K ` {n ..< n + length (x # xs)}) ?s t" using t by (rule touches_mono) auto
  qed
  moreover have "forM (enumerate n (x # xs)) (\<lambda>(i, c). set_slice E (skey_bytes (K i)) c) s = (Inr (), t)"
    using run Cons.prems(1) by (simp add: bindM_def set_slice_eval)
  ultimately show ?case by blast
qed

lemma bulk_set_success:
  "forM (enumerate n xs) (\<lambda>(i, c). set_slice E (key i) c) s = (Inr (), t) \<Longrightarrow>
     \<forall>x \<in> set xs. storable E x"
  by (induction xs arbitrary: n s) (auto simp: bindM_Inr_iff set_slice_eval split: if_splits)

subsection \<open>Loops that set marks\<close>

lemma bulk_marks:
  assumes "inj K"
  shows "\<exists>t. forM ns (\<lambda>n. modifyM (kv_set (skey_bytes (K (SetBytes n))) [1])) s = (Inr (), t) \<and>
    (\<forall>x. kv_has t (skey_bytes (K x)) \<longleftrightarrow> kv_has s (skey_bytes (K x)) \<or> x \<in> SetBytes ` set ns) \<and>
    touches (range K) s t"
proof (induction ns arbitrary: s)
  case Nil
  then show ?case by (simp add: touch.R_refl)
next
  case (Cons n ns)
  let ?s = "kv_set (skey_bytes (K (SetBytes n))) [1] s"
  from Cons.IH [of ?s] obtain t where
    run: "forM ns (\<lambda>n. modifyM (kv_set (skey_bytes (K (SetBytes n))) [1])) ?s = (Inr (), t)"
    and has: "\<And>x. kv_has t (skey_bytes (K x)) \<longleftrightarrow> kv_has ?s (skey_bytes (K x)) \<or> x \<in> SetBytes ` set ns"
    and t: "touches (range K) ?s t" by blast
  have "touches (range K) s ?s" by simp
  from this t have "touches (range K) s t" by (rule touch.R_trans)
  moreover have "kv_has t (skey_bytes (K x)) \<longleftrightarrow>
      kv_has s (skey_bytes (K x)) \<or> x \<in> SetBytes ` set (n # ns)" for x
    using assms by (auto simp: has inj_eq)
  moreover have "forM (n # ns) (\<lambda>n. modifyM (kv_set (skey_bytes (K (SetBytes n))) [1])) s = (Inr (), t)"
    using run by (simp only: forM.simps bindM_modify)
  ultimately show ?case by blast
qed

subsection \<open>Root history\<close>

text \<open>An indexed setter on a slot of the first \<open>m\<close> trees, with the index invariants as one.\<close>

definition import_inv :: "nat \<Rightarrow> store \<Rightarrow> bool" where
  "import_inv m s \<longleftrightarrow> index_ok s \<and> root_slots_in s m \<and> m \<le> 2 * tree_bound"

lemma import_set:
  assumes inv: "import_inv m s" and sl: "sl \<in> set (scan_slots (of_nat m))"
  obtains s' where "setSlotIndexed (skey_bytes (slot_skey sl)) b s = (Inr (), s')"
    and "import_inv m s'" and "slice (kv_get s' (skey_bytes (slot_skey sl))) = b"
    and "touches (insert (slot_skey sl) (range KRootIndex)) s s'"
proof -
  have ok: "index_ok s" and slots: "root_slots_in s m" and m: "m \<le> 2 * tree_bound"
    using inv by (simp_all add: import_inv_def)
  obtain s' where run: "setSlotIndexed (skey_bytes (slot_skey sl)) b s = (Inr (), s')"
    and ok': "index_ok s'" and roots: "slot_root s' = (slot_root s)(sl := root_opt b)"
    and get: "slice (kv_get s' (skey_bytes (slot_skey sl))) = b"
    and t: "touches (insert (slot_skey sl) (range KRootIndex)) s s'"
    using setSlotIndexed_correct [OF ok root_slots_in_bounded [OF slots m]] .
  have "import_inv m s'"
    using ok' root_slots_in_upd [OF slots roots sl] m by (simp add: import_inv_def)
  with run show ?thesis using get t by (rule that)
qed

definition history_skeys :: "u64 \<Rightarrow> skey set" where
  "history_skeys t = range (KRootHistory t) \<union> range KRootIndex"

lemma import_history:
  assumes "import_inv m s" and "\<And>i. i < 100 \<Longrightarrow> HistoryRoot t (of_nat i) \<in> set (scan_slots (of_nat m))"
    and "n + length rs \<le> 100"
  shows "\<exists>s'. forM (enumerate n rs) (\<lambda>(i, r). setRootHistoryIndexed t (of_nat i) r) s = (Inr (), s') \<and>
    import_inv m s' \<and> touches (history_skeys t) s s' \<and>
    (\<forall>i < 2 ^ 64. slice (kv_get s' (RootHistoryKey t (of_nat i))) =
      (if n \<le> i \<and> i < n + length rs then rs ! (i - n) else slice (kv_get s (RootHistoryKey t (of_nat i)))))"
  using assms(1,3)
proof (induction rs arbitrary: n s)
  case Nil
  then show ?case by (auto simp: touch.R_refl)
next
  case (Cons r rs)
  have n: "n < 100" using Cons.prems(2) by simp
  obtain s1 where run: "setSlotIndexed (skey_bytes (slot_skey (HistoryRoot t (of_nat n)))) r s = (Inr (), s1)"
    and inv: "import_inv m s1"
    and get: "slice (kv_get s1 (skey_bytes (slot_skey (HistoryRoot t (of_nat n))))) = r"
    and t1: "touches (insert (slot_skey (HistoryRoot t (of_nat n))) (range KRootIndex)) s s1"
    using import_set [OF Cons.prems(1) assms(2) [OF n]] .
  have "Suc n + length rs \<le> 100" using Cons.prems(2) by simp
  from Cons.IH [OF inv this] obtain s' where
    run': "forM (enumerate (Suc n) rs) (\<lambda>(i, r). setRootHistoryIndexed t (of_nat i) r) s1 = (Inr (), s')"
    and inv': "import_inv m s'" and t': "touches (history_skeys t) s1 s'"
    and get': "\<And>i. i < 2 ^ 64 \<Longrightarrow> slice (kv_get s' (RootHistoryKey t (of_nat i))) =
      (if Suc n \<le> i \<and> i < Suc n + length rs then rs ! (i - Suc n)
       else slice (kv_get s1 (RootHistoryKey t (of_nat i))))" by blast
  have "touches (history_skeys t) s s1" using t1 by (rule touches_mono) (auto simp: history_skeys_def)
  from this t' have t: "touches (history_skeys t) s s'" by (rule touch.R_trans)
  have other: "kv_get s1 (RootHistoryKey t (of_nat i)) = kv_get s (RootHistoryKey t (of_nat i))"
    if "i < 2 ^ 64" "i \<noteq> n" for i
  proof -
    have "(of_nat i :: u64) \<noteq> of_nat n"
      using that n unat_of_nat_u64 [of i] unat_of_nat_u64 [of n] by (auto dest: arg_cong [of _ _ unat])
    then show ?thesis using touches_get [OF t1, of "KRootHistory t (of_nat i)"] by auto
  qed
  have vals: "slice (kv_get s' (RootHistoryKey t (of_nat i))) =
      (if n \<le> i \<and> i < n + length (r # rs) then (r # rs) ! (i - n)
       else slice (kv_get s (RootHistoryKey t (of_nat i))))" if i: "i < 2 ^ 64" for i
  proof (cases "i = n")
    case True
    with get' [OF i] get show ?thesis by simp
  next
    case False
    with get' [OF i] other [OF i False] show ?thesis by (auto simp: nth_Cons')
  qed
  have "forM (enumerate n (r # rs)) (\<lambda>(i, r). setRootHistoryIndexed t (of_nat i) r) s = (Inr (), s')"
    using run run' by (simp add: bindM_def setRootHistoryIndexed_def)
  with inv' t vals show ?case by blast
qed


text \<open>The exported history: the roots of the ring buffer, in slot order, up to the first free slot.\<close>

lemma map_filter_all: "\<forall>x \<in> set xs. f x = Some (g x) \<Longrightarrow> List.map_filter f xs = map g xs"
  by (induction xs) (simp_all add: List.map_filter_simps)

lemma set_map_filter_cases: "y \<in> set (List.map_filter f xs) \<Longrightarrow> \<exists>x \<in> set xs. f x = Some y"
  by (induction xs) (auto simp: List.map_filter_simps split: option.splits)

lemma length_map_filter_le: "length (List.map_filter f xs) \<le> length xs"
  by (induction xs) (auto simp: List.map_filter_simps split: option.splits)

lemma map_filter_append: "List.map_filter f (xs @ ys) = List.map_filter f xs @ List.map_filter f ys"
  by (induction xs) (auto simp: List.map_filter_simps split: option.splits)

lemma ring_prefix:
  assumes "\<And>i. i < n \<Longrightarrow> f i \<noteq> None" and "\<And>i. n \<le> i \<Longrightarrow> i < N \<Longrightarrow> slice (f i) = []" and "n \<le> N"
  defines "H \<equiv> List.map_filter f [0..<N]"
  shows "length H \<le> N" and "i < N \<Longrightarrow> (if i < length H then H ! i else []) = slice (f i)"
proof -
  let ?A = "map (\<lambda>i. slice (f i)) [0..<n]" and ?B = "List.map_filter f [n..<N]"
  have "[0..<N] = [0..<n] @ [n..<N]" using assms(3) by (metis le_add_diff_inverse upt_add_eq_append zero_le)
  moreover have "List.map_filter f [0..<n] = ?A"
    using assms(1) by (intro map_filter_all) fastforce
  ultimately have H: "H = ?A @ ?B" by (simp add: H_def map_filter_append)
  show "length H \<le> N" unfolding H_def using length_map_filter_le [of f "[0..<N]"] by simp
  assume i: "i < N"
  have B: "b = []" if "b \<in> set ?B" for b
    using set_map_filter_cases [OF that] assms(2) by force
  show "(if i < length H then H ! i else []) = slice (f i)"
  proof (cases "i < n")
    case True
    then show ?thesis by (simp add: H nth_append)
  next
    case False
    then have "slice (f i) = []" using i assms(2) by simp
    moreover have "H ! i = []" if "i < length H"
      using False that B [OF nth_mem [of "i - n" ?B]] by (simp add: H nth_append)
    ultimately show ?thesis by simp
  qed
qed

lemma history_present:
  assumes h: "history_ok E d s t cs" and i: "i < min (length cs) 100"
  shows "kv_get s (RootHistoryKey t (of_nat i)) \<noteq> None"
proof -
  let ?n = "length cs"
  define j where "j = i + 100 * ((?n - 1 - i) div 100)"
  have "j mod 100 = i" using i by (simp add: j_def)
  have "(?n - 1 - i) mod 100 < 100" by simp
  then have "j < ?n \<and> ?n \<le> j + 100"
    using i div_mult_mod_eq [of "?n - 1 - i" 100] unfolding j_def by linarith
  with h \<open>j mod 100 = i\<close> show ?thesis unfolding history_ok_def by (metis option.distinct(1))
qed

lemma history_ok_cong:
  assumes "\<And>k. slice (kv_get s' (RootHistoryKey t k)) = slice (kv_get s (RootHistoryKey t k))"
    and "history_ok E d s t cs"
  shows "history_ok E d s' t cs"
proof -
  have "kv_get s' (RootHistoryKey t k) = Some (frBytes r)"
    if "kv_get s (RootHistoryKey t k) = Some (frBytes r)" for k r
  proof (cases "kv_get s' (RootHistoryKey t k)")
    case None
    with assms(1) [of k] that have "frBytes r = []" by simp
    then show ?thesis by simp
  next
    case (Some b)
    with assms(1) [of k] that show ?thesis by simp
  qed
  then show ?thesis
    using assms(2) unfolding history_ok_def assms(1) by blast
qed

lemma tree_rep_cong:
  assumes "kv_u64 s' (skey_bytes nkey) = kv_u64 s (skey_bytes nkey)"
    and "\<And>i. i < length cs \<Longrightarrow>
      kv_get s' (skey_bytes (ckey (of_nat i))) = kv_get s (skey_bytes (ckey (of_nat i)))"
    and "\<And>L. L < d \<Longrightarrow> frontier_of fkey s' L = frontier_of fkey s L"
    and "tree_rep E ckey fkey nkey d s cs"
  shows "tree_rep E ckey fkey nkey d s' cs"
  using assms by (simp add: tree_rep_def frontier_inv_def)


subsection \<open>One tree\<close>

text \<open>What export reads of a tree of the forest.\<close>

definition exported_tree :: "nat \<Rightarrow> store \<Rightarrow> u64 \<Rightarrow> bytes list \<Rightarrow> fr \<Rightarrow> TreeState" where
  "exported_tree d s t cs root =
     \<lparr>ts_TreeId = t, ts_Commitments = map Some cs,
       ts_Frontier = map (\<lambda>L. kv_get s (FrontierKey t (of_nat L))) [0..<d],
       ts_NextIndex = of_nat (length cs), ts_MerkleRoot = frBytes root,
       ts_RootHistory = List.map_filter (\<lambda>i. kv_get s (RootHistoryKey t (of_nat i))) [0..<100]\<rparr>"

lemma note_tree_length: "note_tree E d s t cs \<Longrightarrow> d < 64 \<Longrightarrow> length cs < 2 ^ 64"
proof -
  assume "note_tree E d s t cs" "d < 64"
  then have "length cs \<le> 2 ^ d" by (simp add: note_tree_def tree_rep_def)
  moreover have "(2::nat) ^ d < 2 ^ 64" using \<open>d < 64\<close> by (intro power_strict_increasing) simp_all
  ultimately show ?thesis by linarith
qed

lemma export_tree_eq:
  assumes tree: "note_tree E d s t cs" and d: "d < 64" "unat depth = d"
  shows "export_tree E s depth t = Inr (exported_tree d s t cs (roots_of E d cs))"
proof -
  have len: "unat (of_nat (length cs) :: u64) = length cs"
    using note_tree_length [OF tree d(1)] by (rule unat_of_nat_u64)
  have "map (\<lambda>i. kv_get s (CommitmentKey t (of_nat i))) [0..<length cs] = map Some cs"
    using tree by (intro nth_equalityI) (simp_all add: note_tree_def tree_rep_def)
  then show ?thesis
    using tree d(2)
    by (simp add: export_tree_def exported_tree_def note_tree_def tree_rep_def GetTreeNextIndex_def
        GetTreeRoot_def len levels_def comp_def)
qed

lemma u64_inj_on: "n < 2 ^ 64 \<Longrightarrow> inj_on (\<lambda>i. of_nat i :: u64) {0..<n}"
proof (rule inj_onI)
  fix i j assume n: "n < 2 ^ 64" and "i \<in> {0..<n}" "j \<in> {0..<n}" "(of_nat i :: u64) = of_nat j"
  then have "unat (of_nat i :: u64) = unat (of_nat j :: u64)" "i < 2 ^ 64" "j < 2 ^ 64" by simp_all
  then show "i = j" by (simp only: unat_of_nat_u64)
qed

lemma u32_inj_on: "n < 2 ^ 32 \<Longrightarrow> inj_on (\<lambda>i. of_nat i :: u32) {0..<n}"
proof (rule inj_onI)
  fix i j assume n: "n < 2 ^ 32" and "i \<in> {0..<n}" "j \<in> {0..<n}" "(of_nat i :: u32) = of_nat j"
  then have "unat (of_nat i :: u32) = unat (of_nat j :: u32)" "i < 2 ^ 32" "j < 2 ^ 32" by simp_all
  then show "i = j" by (simp only: unat_of_nat_u32)
qed

lemma import_inv_frame:
  assumes "touches K s s'" "\<And>r. KRootIndex r \<notin> K" "\<And>t. KTreeRoot t \<notin> K"
    "\<And>t i. KRootHistory t i \<notin> K" and "import_inv m s"
  shows "import_inv m s'"
  using assms(5) index_frame [OF assms(1-4), of m] by (simp add: import_inv_def)

text \<open>The first three loops of a tree: leaves, frontier, next index.\<close>

lemma import_leaves:
  fixes t :: u64 and cs :: "bytes list" and fs :: "bytes option list"
  assumes cs: "length cs < 2 ^ 64" and fs: "length fs < 2 ^ 32" "\<forall>f \<in> set fs. storable E f"
  obtains s1 s2 where
    "forM (enumerate 0 (map Some cs)) (\<lambda>(i, c). set_slice E (skey_bytes (KCommitment t (of_nat i))) c) s = (Inr (), s1)"
    and "forM (enumerate 0 fs) (\<lambda>(i, f). set_slice E (skey_bytes (KFrontier t (of_nat i))) f) s1 = (Inr (), s2)"
    and "\<And>i. i < length cs \<Longrightarrow> kv_get s2 (CommitmentKey t (of_nat i)) = Some (cs ! i)"
    and "\<And>L. L < length fs \<Longrightarrow> kv_get s2 (FrontierKey t (of_nat L)) = fs ! L"
    and "touches (range (KCommitment t) \<union> range (KFrontier t)) s s2"
proof -
  let ?C = "\<lambda>i. KCommitment t (of_nat i)" and ?F = "\<lambda>i. KFrontier t (of_nat i)"
  have "\<forall>x \<in> set (map Some cs). storable E x" by (simp add: storable_def)
  moreover have "inj_on ?C {0..<0 + length (map Some cs)}"
    using u64_inj_on [OF cs] by (simp add: inj_on_def)
  ultimately obtain s1 where
    1: "forM (enumerate 0 (map Some cs)) (\<lambda>(i, c). set_slice E (skey_bytes (?C i)) c) s = (Inr (), s1)"
    and g1: "\<And>i. i < length cs \<Longrightarrow> kv_get s1 (skey_bytes (?C i)) = Some (cs ! i)"
    and t1: "touches (?C ` {0..<length cs}) s s1"
    using bulk_set [of "map Some cs" E ?C 0 s] by auto
  have "inj_on ?F {0..<0 + length fs}" using u32_inj_on [OF fs(1)] by (simp add: inj_on_def)
  with fs(2) obtain s2 where
    2: "forM (enumerate 0 fs) (\<lambda>(i, f). set_slice E (skey_bytes (?F i)) f) s1 = (Inr (), s2)"
    and g2: "\<And>i. i < length fs \<Longrightarrow> kv_get s2 (skey_bytes (?F i)) = fs ! i"
    and t2: "touches (?F ` {0..<length fs}) s1 s2"
    using bulk_set [of fs E ?F 0 s1] by auto
  have "kv_get s2 (skey_bytes (?C i)) = kv_get s1 (skey_bytes (?C i))" for i
    by (rule touches_get [OF t2]) auto
  moreover have "touches (range (KCommitment t) \<union> range (KFrontier t)) s s2"
    by (rule touch.R_trans [OF touches_mono [OF t1] touches_mono [OF t2]]) auto
  ultimately show ?thesis using 1 2 g1 g2 by (intro that [of s1 s2]) simp_all
qed


text \<open>The root and the history of a tree whose slots are empty.\<close>

lemma import_roots:
  assumes inv: "import_inv m s" and t: "t < of_nat m"
    and empty: "\<And>k. slice (kv_get s (RootHistoryKey t k)) = []"
    and rs: "length rs \<le> 100"
  obtains s1 s2 where "setTreeRootIndexed t (frBytes r) s = (Inr (), s1)"
    and "forM (enumerate 0 rs) (\<lambda>(i, r). setRootHistoryIndexed t (of_nat i) r) s1 = (Inr (), s2)"
    and "import_inv m s2" and "kv_get s2 (TreeRootKey t) = Some (frBytes r)"
    and "\<And>i. i < 2 ^ 64 \<Longrightarrow>
      slice (kv_get s2 (RootHistoryKey t (of_nat i))) = (if i < length rs then rs ! i else [])"
    and "touches (insert (KTreeRoot t) (history_skeys t)) s s2"
proof -
  have slots: "CurrentRoot t \<in> set (scan_slots (of_nat m))"
    "i < 100 \<Longrightarrow> HistoryRoot t (of_nat i) \<in> set (scan_slots (of_nat m))" for i
    using t by (auto simp: set_scan_slots MaxRootHistory_def word_less_nat_alt unat_of_nat_u64)
  obtain s1 where 1: "setSlotIndexed (skey_bytes (slot_skey (CurrentRoot t))) (frBytes r) s = (Inr (), s1)"
    and inv1: "import_inv m s1"
    and g1: "slice (kv_get s1 (skey_bytes (slot_skey (CurrentRoot t)))) = frBytes r"
    and t1: "touches (insert (slot_skey (CurrentRoot t)) (range KRootIndex)) s s1"
    using import_set [OF inv slots(1)] .
  from import_history [OF inv1 slots(2), of 0 rs] rs obtain s2 where
    2: "forM (enumerate 0 rs) (\<lambda>(i, r). setRootHistoryIndexed t (of_nat i) r) s1 = (Inr (), s2)"
    and inv2: "import_inv m s2" and t2: "touches (history_skeys t) s1 s2"
    and g2: "\<And>i. i < 2 ^ 64 \<Longrightarrow> slice (kv_get s2 (RootHistoryKey t (of_nat i))) =
      (if i < length rs then rs ! i else slice (kv_get s1 (RootHistoryKey t (of_nat i))))" by auto
  have "kv_get s1 (RootHistoryKey t k) = kv_get s (RootHistoryKey t k)" for k
    using touches_get [OF t1, of "KRootHistory t k"] by (simp add: image_iff)
  with empty g2 have g2': "\<And>i. i < 2 ^ 64 \<Longrightarrow>
      slice (kv_get s2 (RootHistoryKey t (of_nat i))) = (if i < length rs then rs ! i else [])" by simp
  have "kv_get s2 (TreeRootKey t) = kv_get s1 (TreeRootKey t)"
    using touches_get [OF t2, of "KTreeRoot t"] by (simp add: history_skeys_def image_iff)
  moreover have "kv_get s1 (TreeRootKey t) = Some (frBytes r)"
    using g1 by (cases "kv_get s1 (skey_bytes (KTreeRoot t))") (simp_all add: frBytes_not_Nil [symmetric])
  ultimately have root: "kv_get s2 (TreeRootKey t) = Some (frBytes r)" by simp
  have fr: "touches (insert (KTreeRoot t) (history_skeys t)) s s2"
    by (rule touch.R_trans [OF touches_mono [OF t1] touches_mono [OF t2]]) (auto simp: history_skeys_def)
  have 1: "setTreeRootIndexed t (frBytes r) s = (Inr (), s1)"
    using 1 by (simp add: setTreeRootIndexed_def)
  show ?thesis by (rule that [OF 1 2 inv2 root g2' fr])
qed


definition import_skeys :: "u64 \<Rightarrow> skey set" where
  "import_skeys t = tree_skeys t \<union> range KRootIndex"

lemma import_tree:
  assumes tree: "note_tree E d s0 t cs" and d: "d < 64"
    and inv: "import_inv m s" and t: "t < of_nat m"
    and empty: "\<And>k. k \<in> tree_skeys t \<Longrightarrow> kv_get s (skey_bytes k) = None"
    and fs: "\<forall>L < d. storable E (kv_get s0 (FrontierKey t (of_nat L)))"
  obtains s' where "init_tree E (exported_tree d s0 t cs (roots_of E d cs)) s = (Inr (), s')"
    and "import_inv m s'" and "note_tree E d s' t cs" and "touches (import_skeys t) s s'"
proof -
  let ?f = "\<lambda>L. kv_get s0 (FrontierKey t (of_nat L))" and ?h = "\<lambda>i. kv_get s0 (RootHistoryKey t (of_nat i))"
  let ?rs = "List.map_filter ?h [0..<100]"
  have len: "length cs < 2 ^ 64" using tree d by (rule note_tree_length)
  have hist: "history_ok E d s0 t cs" using tree by (simp add: note_tree_def)
  have ring: "length ?rs \<le> 100" "i < 100 \<Longrightarrow> (if i < length ?rs then ?rs ! i else []) = slice (?h i)" for i
  proof -
    have 1: "i < min (length cs) 100 \<Longrightarrow> ?h i \<noteq> None" for i using hist by (rule history_present)
    have 2: "min (length cs) 100 \<le> i \<Longrightarrow> i < 100 \<Longrightarrow> slice (?h i) = []" for i
      using hist by (simp add: history_ok_def unat_of_nat_u64)
    show "length ?rs \<le> 100" "i < 100 \<Longrightarrow> (if i < length ?rs then ?rs ! i else []) = slice (?h i)"
      using ring_prefix [of "min (length cs) 100" ?h 100] 1 2 by simp_all
  qed
  obtain s1 s2 where
    1: "forM (enumerate 0 (map Some cs)) (\<lambda>(i, c). set_slice E (skey_bytes (KCommitment t (of_nat i))) c) s = (Inr (), s1)"
    and 2: "forM (enumerate 0 (map ?f [0..<d])) (\<lambda>(i, f). set_slice E (skey_bytes (KFrontier t (of_nat i))) f) s1 = (Inr (), s2)"
    and c2: "\<And>i. i < length cs \<Longrightarrow> kv_get s2 (CommitmentKey t (of_nat i)) = Some (cs ! i)"
    and f2: "\<And>L. L < length (map ?f [0..<d]) \<Longrightarrow> kv_get s2 (FrontierKey t (of_nat L)) = map ?f [0..<d] ! L"
    and t2: "touches (range (KCommitment t) \<union> range (KFrontier t)) s s2"
    by (rule import_leaves [OF len, of "map ?f [0..<d]" E t s]) (use d fs in auto)
  let ?n = "of_nat (length cs) :: u64"
  define s3 where "s3 = (if ?n > 0 then kv_set (TreeNextIndexKey t) (be64 ?n) s2 else s2)"
  let ?K = "range (KCommitment t) \<union> range (KFrontier t) \<union> {KTreeNextIndex t}"
  have t3: "touches ?K s s3"
  proof (rule touch.R_trans)
    show "touches ?K s s2" using t2 by (rule touches_mono) auto
    show "touches ?K s2 s3" by (simp add: s3_def touch.R_refl)
  qed
  have n3: "kv_u64 s3 (TreeNextIndexKey t) = Inr ?n"
  proof (cases "?n > 0")
    case True
    then show ?thesis by (simp add: s3_def)
  next
    case False
    have "kv_get s2 (TreeNextIndexKey t) = None"
      using touches_get [OF t2, of "KTreeNextIndex t"] empty by (auto simp: tree_skeys_def)
    moreover have "?n = 0" using False by (simp add: word_gt_0)
    ultimately show ?thesis by (simp add: s3_def kv_u64_def)
  qed
  have inv3: "import_inv m s3" by (rule import_inv_frame [OF t3 _ _ _ inv]) auto
  have empty3: "slice (kv_get s3 (RootHistoryKey t k)) = []" for k
  proof -
    have "kv_get s3 (RootHistoryKey t k) = kv_get s (RootHistoryKey t k)"
      using touches_get [OF t3, of "KRootHistory t k"] by (simp add: image_iff)
    then show ?thesis using empty by (simp add: tree_skeys_def)
  qed
  obtain s4 s5 where
    4: "setTreeRootIndexed t (frBytes (roots_of E d cs)) s3 = (Inr (), s4)"
    and 5: "forM (enumerate 0 ?rs) (\<lambda>(i, r). setRootHistoryIndexed t (of_nat i) r) s4 = (Inr (), s5)"
    and inv5: "import_inv m s5" and root5: "kv_get s5 (TreeRootKey t) = Some (frBytes (roots_of E d cs))"
    and hist5: "\<And>i. i < 2 ^ 64 \<Longrightarrow>
      slice (kv_get s5 (RootHistoryKey t (of_nat i))) = (if i < length ?rs then ?rs ! i else [])"
    and t5: "touches (insert (KTreeRoot t) (history_skeys t)) s3 s5"
    using import_roots [OF inv3 t empty3 ring(1)] by blast
  have keep: "kv_get s5 (skey_bytes k) = kv_get s3 (skey_bytes k)"
    if "k \<in> ?K" for k
    using that by (intro touches_get [OF t5]) (auto simp: history_skeys_def)
  have keep2: "kv_get s3 (skey_bytes k) = kv_get s2 (skey_bytes k)" if "k \<noteq> KTreeNextIndex t" for k
    using that by (simp add: s3_def)
  have "history_ok E d s5 t cs"
  proof (rule history_ok_cong [OF _ hist])
    fix k :: u64
    have k: "of_nat (unat k) = k" "unat k < 2 ^ 64" using unat_u64_less by simp_all
    have "slice (?h (unat k)) = []" if "100 \<le> unat k"
      using hist that by (simp add: history_ok_def)
    then show "slice (kv_get s5 (RootHistoryKey t k)) = slice (kv_get s0 (RootHistoryKey t k))"
      using hist5 [OF k(2)] ring(1) ring(2) [of "unat k"] k(1) by (cases "unat k < 100") auto
  qed
  moreover have "tree_rep E (KCommitment t) (KFrontier t) (KTreeNextIndex t) d s5 cs"
  proof (rule tree_rep_cong)
    show "tree_rep E (KCommitment t) (KFrontier t) (KTreeNextIndex t) d s0 cs"
      using tree by (simp add: note_tree_def)
    then have "kv_u64 s0 (TreeNextIndexKey t) = Inr ?n" by (simp add: tree_rep_def)
    with n3 show "kv_u64 s5 (skey_bytes (KTreeNextIndex t)) = kv_u64 s0 (skey_bytes (KTreeNextIndex t))"
      using keep [of "KTreeNextIndex t"] by (simp add: kv_u64_def)
  next
    fix i assume i: "i < length cs"
    have "kv_get s0 (CommitmentKey t (of_nat i)) = Some (cs ! i)"
      using tree i by (simp add: note_tree_def tree_rep_def)
    then show "kv_get s5 (skey_bytes (KCommitment t (of_nat i))) =
        kv_get s0 (skey_bytes (KCommitment t (of_nat i)))"
      using c2 [OF i] keep [of "KCommitment t (of_nat i)"] keep2 [of "KCommitment t (of_nat i)"] by simp
  next
    fix L assume L: "L < d"
    then show "frontier_of (KFrontier t) s5 L = frontier_of (KFrontier t) s0 L"
      using f2 [of L] keep [of "KFrontier t (of_nat L)"] keep2 [of "KFrontier t (of_nat L)"]
      by (simp add: frontier_of_def)
  qed
  ultimately have tree5: "note_tree E d s5 t cs" using root5 by (simp add: note_tree_def)
  have fr: "touches (import_skeys t) s s5"
    by (rule touch.R_trans [OF touches_mono [OF t3] touches_mono [OF t5]])
      (auto simp: import_skeys_def tree_skeys_def history_skeys_def)
  have "init_tree E (exported_tree d s0 t cs (roots_of E d cs)) s = (Inr (), s5)"
    using 1 2 4 5
    by (simp add: init_tree_def exported_tree_def bindM_def s3_def if_distrib split: if_splits)
  then show thesis using inv5 tree5 fr by (rule that)
qed


subsection \<open>The forest\<close>

lemma forM_append: "forM (xs @ ys) f s = bindM (forM xs f) (\<lambda>_. forM ys f) s"
  by (induction xs arbitrary: s) (simp_all add: bindM_def split: prod.split sum.split)

lemma import_skeys_other: "t \<noteq> u \<Longrightarrow> k \<in> tree_skeys u \<Longrightarrow> k \<notin> import_skeys t"
  by (auto simp: import_skeys_def tree_skeys_def)

lemma import_trees:
  assumes trees: "\<And>t. t < length css \<Longrightarrow> note_tree E d s0 (of_nat t) (css ! t)" and d: "d < 64"
    and m: "length css < tree_bound"
    and fs: "\<And>t L. t < length css \<Longrightarrow> L < d \<Longrightarrow> storable E (kv_get s0 (FrontierKey (of_nat t) (of_nat L)))"
    and inv: "import_inv (length css) s"
    and empty: "\<And>k. k \<in> (\<Union>t. tree_skeys t) \<Longrightarrow> kv_get s (skey_bytes k) = None"
  shows "n \<le> length css \<Longrightarrow>
    \<exists>s'. forM (map (\<lambda>t. exported_tree d s0 (of_nat t) (css ! t) (roots_of E d (css ! t))) [0..<n])
        (init_tree E) s = (Inr (), s') \<and>
      import_inv (length css) s' \<and> (\<forall>t < n. note_tree E d s' (of_nat t) (css ! t)) \<and>
      touches (\<Union>t < n. import_skeys (of_nat t)) s s'"
proof (induction n)
  case 0
  then show ?case using inv by (simp add: touch.R_refl)
next
  case (Suc n)
  let ?T = "\<lambda>t. exported_tree d s0 (of_nat t) (css ! t) (roots_of E d (css ! t))"
  let ?U = "\<lambda>n. \<Union>t < n. import_skeys (of_nat t)"
  have n: "n < length css" using Suc.prems by simp
  obtain s1 where run: "forM (map ?T [0..<n]) (init_tree E) s = (Inr (), s1)"
    and inv1: "import_inv (length css) s1"
    and imported: "\<And>t. t < n \<Longrightarrow> note_tree E d s1 (of_nat t) (css ! t)" and t1: "touches (?U n) s s1"
    using Suc by auto
  have other: "(of_nat t :: u64) \<noteq> of_nat n" if "t < n" for t
    using of_nat_tree_inj [of t n] that n m by simp
  have "kv_get s1 (skey_bytes k) = None" if "k \<in> tree_skeys (of_nat n)" for k
  proof -
    have "k \<notin> ?U n" using that import_skeys_other [OF other] by blast
    with t1 have "kv_get s1 (skey_bytes k) = kv_get s (skey_bytes k)" by (rule touches_get)
    then show ?thesis using empty [of k] that by auto
  qed
  moreover have "(of_nat n :: u64) < of_nat (length css)"
    using of_nat_tree_less [of n "length css"] n m by simp
  moreover have "\<forall>L < d. storable E (kv_get s0 (FrontierKey (of_nat n) (of_nat L)))"
    using fs n by blast
  ultimately obtain s2 where run2: "init_tree E (?T n) s1 = (Inr (), s2)"
    and inv2: "import_inv (length css) s2" and new: "note_tree E d s2 (of_nat n) (css ! n)"
    and t2: "touches (import_skeys (of_nat n)) s1 s2"
    using import_tree [OF trees [OF n] d inv1] by blast
  have "note_tree E d s2 (of_nat t) (css ! t)" if "t < Suc n" for t
  proof (cases "t = n")
    case True
    with new show ?thesis by simp
  next
    case False
    with that have t: "t < n" by simp
    have "import_skeys (of_nat n) \<inter> tree_skeys (of_nat t) = {}"
      using import_skeys_other [OF other [OF t, symmetric]] by blast
    with imported [OF t] t2 show ?thesis by (rule tree_frame_other)
  qed
  moreover have "touches (?U (Suc n)) s s2"
    by (rule touch.R_trans [OF touches_mono [OF t1] touches_mono [OF t2]]) (auto simp: lessThan_Suc)
  moreover have "forM (map ?T [0..<Suc n]) (init_tree E) s = (Inr (), s2)"
    using run run2 by (simp add: forM_append bindM_def)
  ultimately show ?case using inv2 by blast
qed


subsection \<open>Iterating a prefix\<close>

lemma store_prefixes_last: "list_all (\<lambda>p. bytes_of p \<noteq> [] \<and> last (bytes_of p) \<noteq> 255) store_prefixes"
  by code_simp

lemma iterator_mem:
  "(b, w) \<in> set (kv_iterator a e s) \<longleftrightarrow> kv_has s b \<and> a \<le> b \<and> b < e \<and> w = kv_get s b"
proof
  assume m: "(b, w) \<in> set (kv_iterator a e s)"
  then have "b \<in> fst ` set (kv_iterator a e s)" by (rule rev_image_eqI) simp
  with kv_iterator_val [OF m] show "kv_has s b \<and> a \<le> b \<and> b < e \<and> w = kv_get s b"
    by (simp add: kv_iterator_key)
next
  assume b: "kv_has s b \<and> a \<le> b \<and> b < e \<and> w = kv_get s b"
  then have "b \<in> fst ` set (kv_iterator a e s)" by (simp add: kv_iterator_key)
  then obtain w' where m: "(b, w') \<in> set (kv_iterator a e s)" by auto
  with kv_iterator_val [OF m] b show "(b, w) \<in> set (kv_iterator a e s)" by simp
qed

lemma iterate_mem:
  "(b, v) \<in> set (iteratePrefix E P s) \<longleftrightarrow>
     kv_has s b \<and> (P \<le> b \<and> b < prefixEnd E P) \<and> v = slice (kv_get s b)"
proof -
  have "(b, v) \<in> set (iteratePrefix E P s) \<longleftrightarrow>
      (\<exists>w. (b, w) \<in> set (kv_iterator P (prefixEnd E P) s) \<and> v = slice w)"
    by (auto simp: iteratePrefix_def)
  then show ?thesis by (simp only: iterator_mem) blast
qed

lemma iterate_slots:
  assumes law: "prefix_end_law E" and slots: "slots_only s" and pre: "pre \<in> set store_prefixes"
  shows "(b, v) \<in> set (iteratePrefix E (bytes_of pre) s) \<longleftrightarrow>
    (\<exists>k. skey_prefix k = pre \<and> b = skey_bytes k \<and> kv_has s b \<and> v = slice (kv_get s b))"
proof -
  let ?P = "bytes_of pre"
  have "?P \<noteq> [] \<and> last ?P \<noteq> 255" using store_prefixes_last pre by (auto simp: list_all_iff)
  then have rng: "?P \<le> x \<and> x < prefixEnd E ?P \<longleftrightarrow> prefix ?P x" for x
    using law by (simp add: prefix_end_law_def)
  have "(b, v) \<in> set (iteratePrefix E ?P s) \<longleftrightarrow>
      kv_has s b \<and> prefix ?P b \<and> v = slice (kv_get s b)"
    unfolding iterate_mem rng [symmetric] by blast
  also have "\<dots> \<longleftrightarrow> (\<exists>k. skey_prefix k = pre \<and> b = skey_bytes k \<and> kv_has s b \<and> v = slice (kv_get s b))"
    using slots prefix_skey_bytes [OF pre] prefix_skey_bytes_self by (auto simp: slots_only_def)
  finally show ?thesis .
qed

lemma export_marks:
  assumes law: "prefix_end_law E" and slots: "slots_only s" and pre: "pre \<in> set store_prefixes"
    and K: "\<And>k. skey_prefix k = pre \<longleftrightarrow> k \<in> range K" "\<And>x. skey_suffix (K x) = frBytes x"
  shows "SetBytes ` set (map (\<lambda>(k, v). drop (length (bytes_of pre)) k) (iteratePrefix E (bytes_of pre) s))
    = {x. kv_has s (skey_bytes (K x))}"
proof -
  have bytes: "skey_bytes (K x) = bytes_of pre @ frBytes x" for x
    using K(1) [of "K x"] K(2) by (simp add: skey_bytes_def)
  then have drop: "SetBytes (drop (length (bytes_of pre)) (skey_bytes (K x))) = x" for x by simp
  show ?thesis
  proof (intro set_eqI iffI)
    fix x assume "x \<in> SetBytes ` set (map (\<lambda>(k, v). drop (length (bytes_of pre)) k)
      (iteratePrefix E (bytes_of pre) s))"
    then obtain b v where b: "(b, v) \<in> set (iteratePrefix E (bytes_of pre) s)"
      and x: "x = SetBytes (drop (length (bytes_of pre)) b)" by auto
    from b [unfolded iterate_slots [OF law slots pre]] obtain k where
      k: "skey_prefix k = pre" "b = skey_bytes k" "kv_has s b" by (elim exE conjE)
    then obtain y where "k = K y" unfolding K(1) by (elim rangeE)
    with k x drop show "x \<in> {x. kv_has s (skey_bytes (K x))}" by simp
  next
    fix x assume "x \<in> {x. kv_has s (skey_bytes (K x))}"
    then have "(skey_bytes (K x), slice (kv_get s (skey_bytes (K x)))) \<in> set (iteratePrefix E (bytes_of pre) s)"
      unfolding iterate_slots [OF law slots pre] K(1) by (intro exI [of _ "K x"]) simp
    then show "x \<in> SetBytes ` set (map (\<lambda>(k, v). drop (length (bytes_of pre)) k)
        (iteratePrefix E (bytes_of pre) s))"
      unfolding set_map image_image
      by (rule rev_image_eqI) (simp add: drop [unfolded length_bytes_of])
  qed
qed

lemma key_index_range:
  "key_index k = 14 \<Longrightarrow> k \<in> range KNullifier"
  "key_index k = 12 \<Longrightarrow> k \<in> range KCommitmentUsed"
  "key_index k = 17 \<Longrightarrow> k \<in> range KAuditorData"
  "key_index k = 16 \<Longrightarrow> k \<in> range KVK"
  by (cases k; simp)+

lemma skey_prefix_iff:
  "skey_prefix k = nullifierPrefix \<longleftrightarrow> k \<in> range KNullifier"
  "skey_prefix k = commitmentUsedPrefix \<longleftrightarrow> k \<in> range KCommitmentUsed"
  "skey_prefix k = auditorDataPrefix \<longleftrightarrow> k \<in> range KAuditorData"
  "skey_prefix k = vkPrefix \<longleftrightarrow> k \<in> range KVK"
proof -
  have idx: "key_index k = key_index k'" if "skey_prefix k = skey_prefix k'" for k'
    using that by (rule key_index_prefix)
  show "skey_prefix k = nullifierPrefix \<longleftrightarrow> k \<in> range KNullifier"
    using idx [of "KNullifier 0"] key_index_range(1) by fastforce
  show "skey_prefix k = commitmentUsedPrefix \<longleftrightarrow> k \<in> range KCommitmentUsed"
    using idx [of "KCommitmentUsed 0"] key_index_range(2) by fastforce
  show "skey_prefix k = auditorDataPrefix \<longleftrightarrow> k \<in> range KAuditorData"
    using idx [of "KAuditorData []"] key_index_range(3) by fastforce
  show "skey_prefix k = vkPrefix \<longleftrightarrow> k \<in> range KVK"
    using idx [of "KVK []"] key_index_range(4) by fastforce
qed


subsection \<open>The registration tree\<close>

lemma import_reg_leaves:
  assumes "n + length cs < 2 ^ 64"
  shows "\<exists>t. forM (enumerate n (map Some cs)) (\<lambda>(i, c).
      bindM (set_slice E (RegCommitmentKey (of_nat i)) c) (\<lambda>_.
      modifyM (kv_set (RegCommitmentUsedKey (slice c)) [1]))) s = (Inr (), t) \<and>
    (\<forall>i < length cs. kv_get t (RegCommitmentKey (of_nat (n + i))) = Some (cs ! i)) \<and>
    (\<forall>i < n. kv_get t (RegCommitmentKey (of_nat i)) = kv_get s (RegCommitmentKey (of_nat i))) \<and>
    (\<forall>x. kv_has t (skey_bytes (KRegCommitmentUsed x)) \<longleftrightarrow>
      kv_has s (skey_bytes (KRegCommitmentUsed x)) \<or> x \<in> SetBytes ` set cs) \<and>
    touches (range KRegCommitment \<union> range KRegCommitmentUsed) s t"
  using assms
proof (induction cs arbitrary: n s)
  case Nil
  then show ?case by (simp add: touch.R_refl)
next
  case (Cons c cs)
  let ?s = "kv_set (RegCommitmentUsedKey c) [1] (kv_set (RegCommitmentKey (of_nat n)) c s)"
  let ?K = "range KRegCommitment \<union> range KRegCommitmentUsed"
  have "Suc n + length cs < 2 ^ 64" using Cons.prems by simp
  from Cons.IH [OF this, of ?s] obtain t where
    run: "forM (enumerate (Suc n) (map Some cs)) (\<lambda>(i, c).
      bindM (set_slice E (RegCommitmentKey (of_nat i)) c) (\<lambda>_.
      modifyM (kv_set (RegCommitmentUsedKey (slice c)) [1]))) ?s = (Inr (), t)"
    and get: "\<And>i. i < length cs \<Longrightarrow> kv_get t (RegCommitmentKey (of_nat (Suc n + i))) = Some (cs ! i)"
    and old: "\<And>i. i < Suc n \<Longrightarrow> kv_get t (RegCommitmentKey (of_nat i)) = kv_get ?s (RegCommitmentKey (of_nat i))"
    and used: "\<And>x. kv_has t (skey_bytes (KRegCommitmentUsed x)) \<longleftrightarrow>
      kv_has ?s (skey_bytes (KRegCommitmentUsed x)) \<or> x \<in> SetBytes ` set cs"
    and t: "touches ?K ?s t" by blast
  have "touches ?K s ?s"
    by (rule touch.R_trans [of ?K s "kv_set (RegCommitmentKey (of_nat n)) c s"]) simp_all
  from this t have fr: "touches ?K s t" by (rule touch.R_trans)
  have "(of_nat i :: u64) \<noteq> of_nat n" if "i < n" for i
    using that Cons.prems of_nat_u64_inj [of i "of_nat (Suc n)" n] unat_of_nat_u64 [of "Suc n"] by simp
  then have keep: "kv_get t (RegCommitmentKey (of_nat i)) = kv_get s (RegCommitmentKey (of_nat i))"
    if "i < n" for i using old [of i] that by simp
  have vals: "kv_get t (RegCommitmentKey (of_nat (n + i))) = Some ((c # cs) ! i)"
    if "i < length (c # cs)" for i
  proof (cases i)
    case 0
    with old [of n] show ?thesis by simp
  next
    case (Suc j)
    with get [of j] that show ?thesis by simp
  qed
  have marks: "kv_has t (skey_bytes (KRegCommitmentUsed x)) \<longleftrightarrow>
      kv_has s (skey_bytes (KRegCommitmentUsed x)) \<or> x \<in> SetBytes ` set (c # cs)" for x
    using used [of x] by auto
  have "set_slice E (RegCommitmentKey (of_nat n)) (Some c) s = (Inr (), kv_set (RegCommitmentKey (of_nat n)) c s)"
    by (simp add: set_slice_def kv_set_slice_def)
  with run have "forM (enumerate n (map Some (c # cs))) (\<lambda>(i, c).
      bindM (set_slice E (RegCommitmentKey (of_nat i)) c) (\<lambda>_.
      modifyM (kv_set (RegCommitmentUsedKey (slice c)) [1]))) s = (Inr (), t)"
    by (simp add: bindM_def)
  with vals keep marks fr show ?case by blast
qed


lemma import_reg:
  assumes reg: "reg_ok E s0 cs" and fs: "\<And>L. L < reg_depth \<Longrightarrow> storable E (kv_get s0 (RegFrontierKey (of_nat L)))"
    and empty: "\<And>k. k \<in> reg_skeys \<Longrightarrow> kv_get s (skey_bytes k) = None \<and> \<not> kv_has s (skey_bytes k)"
    and gs: "gs_RegCommitments gs = map Some cs" "gs_RegNextIndex gs = of_nat (length cs)"
      "gs_RegFrontier gs = map (\<lambda>L. kv_get s0 (RegFrontierKey (of_nat L))) [0..<reg_depth]"
      "gs_RegMerkleRoot gs = frBytes (roots_of E reg_depth cs)"
  obtains s' where "init_reg E gs s = (Inr (), s')" "reg_ok E s' cs" "touches reg_skeys s s'"
proof -
  let ?f = "\<lambda>L. kv_get s0 (RegFrontierKey (of_nat L))" and ?n = "of_nat (length cs) :: u64"
  let ?r = "frBytes (roots_of E reg_depth cs)"
  have rep: "tree_rep E KRegCommitment KRegFrontier KRegNextIndex reg_depth s0 cs"
    using reg by (simp add: reg_ok_def)
  then have "length cs \<le> 2 ^ reg_depth" by (simp add: tree_rep_def)
  then have len: "0 + length cs < 2 ^ 64" by (simp add: reg_depth_def)
  from import_reg_leaves [OF len, of E s] obtain s1 where
    1: "forM (enumerate 0 (map Some cs)) (\<lambda>(i, c).
      bindM (set_slice E (RegCommitmentKey (of_nat i)) c) (\<lambda>_.
      modifyM (kv_set (RegCommitmentUsedKey (slice c)) [1]))) s = (Inr (), s1)"
    and c1: "\<forall>i < length cs. kv_get s1 (RegCommitmentKey (of_nat (0 + i))) = Some (cs ! i)"
    and u1: "\<forall>x. kv_has s1 (skey_bytes (KRegCommitmentUsed x)) \<longleftrightarrow>
      kv_has s (skey_bytes (KRegCommitmentUsed x)) \<or> x \<in> SetBytes ` set cs"
    and t1: "touches (range KRegCommitment \<union> range KRegCommitmentUsed) s s1" by blast
  have "inj_on (\<lambda>i. KRegFrontier (of_nat i)) {0..<0 + length (map ?f [0..<reg_depth])}"
    using u32_inj_on [of reg_depth] by (simp add: inj_on_def reg_depth_def)
  moreover have "\<forall>x \<in> set (map ?f [0..<reg_depth]). storable E x" using fs by simp
  ultimately obtain s2 where
    2: "forM (enumerate 0 (map ?f [0..<reg_depth])) (\<lambda>(i, f). set_slice E (skey_bytes (KRegFrontier (of_nat i))) f) s1 = (Inr (), s2)"
    and f2: "\<forall>L < length (map ?f [0..<reg_depth]). kv_get s2 (skey_bytes (KRegFrontier (of_nat (0 + L)))) = map ?f [0..<reg_depth] ! L"
    and t2: "touches ((\<lambda>i. KRegFrontier (of_nat i)) ` {0..<0 + length (map ?f [0..<reg_depth])}) s1 s2"
    using bulk_set [of "map ?f [0..<reg_depth]" E "\<lambda>i. KRegFrontier (of_nat i)" 0 s1] by blast
  define s3 where "s3 = (if ?n > 0 then kv_set RegNextIndexKeyBytes (be64 ?n) s2 else s2)"
  let ?s4 = "kv_set RegRootKeyBytes ?r s3"
  have k12: "kv_get s2 (skey_bytes k) = kv_get s1 (skey_bytes k)" "kv_has s2 (skey_bytes k) = kv_has s1 (skey_bytes k)"
    if "k \<notin> range KRegFrontier" for k
    using that by (auto intro!: touches_get [OF t2] touches_has [OF t2])
  have k24: "kv_get ?s4 (skey_bytes k) = kv_get s2 (skey_bytes k)" "kv_has ?s4 (skey_bytes k) = kv_has s2 (skey_bytes k)"
    if "k \<noteq> KRegNextIndex" "k \<noteq> KRegRoot" for k
    using that by (simp_all add: s3_def)
  have nxt: "kv_u64 ?s4 RegNextIndexKeyBytes = Inr ?n"
  proof (cases "?n > 0")
    case True
    then show ?thesis by (simp add: s3_def kv_u64_def)
  next
    case False
    have "kv_get s1 RegNextIndexKeyBytes = kv_get s RegNextIndexKeyBytes"
      using touches_get [OF t1, of KRegNextIndex] by (simp add: image_iff)
    also have "\<dots> = None" using empty [of KRegNextIndex] by (simp add: reg_skeys_def)
    finally have "kv_get s2 RegNextIndexKeyBytes = None" using k12(1) [of KRegNextIndex] by (simp add: image_iff)
    moreover have "?n = 0" using False by (simp add: word_gt_0)
    ultimately show ?thesis by (simp add: s3_def kv_u64_def)
  qed
  have "tree_rep E KRegCommitment KRegFrontier KRegNextIndex reg_depth ?s4 cs"
  proof (rule tree_rep_cong [OF _ _ _ rep])
    show "kv_u64 ?s4 (skey_bytes KRegNextIndex) = kv_u64 s0 (skey_bytes KRegNextIndex)"
      using nxt rep by (simp add: tree_rep_def)
  next
    fix i assume "i < length cs"
    then show "kv_get ?s4 (skey_bytes (KRegCommitment (of_nat i))) = kv_get s0 (skey_bytes (KRegCommitment (of_nat i)))"
      using rep c1 k24(1) [of "KRegCommitment (of_nat i)"] k12(1) [of "KRegCommitment (of_nat i)"]
      by (simp add: tree_rep_def image_iff)
  next
    fix L assume "L < reg_depth"
    then show "frontier_of KRegFrontier ?s4 L = frontier_of KRegFrontier s0 L"
      using f2 k24(1) [of "KRegFrontier (of_nat L)"] by (simp add: frontier_of_def)
  qed
  moreover have "kv_has ?s4 (skey_bytes (KRegCommitmentUsed x)) \<longleftrightarrow> x \<in> SetBytes ` set cs" for x
    using u1 empty [of "KRegCommitmentUsed x"] k24(2) [of "KRegCommitmentUsed x"] k12(2) [of "KRegCommitmentUsed x"]
    by (simp add: reg_skeys_def image_iff)
  moreover have "distinct (map SetBytes cs)" using reg by (simp add: reg_ok_def)
  ultimately have ok: "reg_ok E ?s4 cs" by (simp add: reg_ok_def GetRegMerkleRoot_def)
  have fr: "touches reg_skeys s ?s4"
  proof (rule touch.R_trans)
    show "touches reg_skeys s s2"
      by (rule touch.R_trans [OF touches_mono [OF t1] touches_mono [OF t2]]) (auto simp: reg_skeys_def)
    have "touches reg_skeys s2 s3" by (simp add: s3_def reg_skeys_def touch.R_refl)
    then show "touches reg_skeys s2 ?s4" by (rule touch.R_trans) (simp add: reg_skeys_def)
  qed
  have "init_reg E gs s = (Inr (), ?s4)"
    using 1 2 by (simp add: init_reg_def gs bindM_def s3_def split: if_splits)
  then show thesis using ok fr by (rule that)
qed


subsection \<open>Loops over key-value pairs\<close>

lemma bulk_assoc:
  assumes "inj K" and "\<forall>(k, v) \<in> set kvs. storable E v \<and> v = f k"
  shows "\<exists>t. forM kvs (\<lambda>(k, v). set_slice E (skey_bytes (K k)) v) s = (Inr (), t) \<and>
    (\<forall>k. kv_get t (skey_bytes (K k)) = (if k \<in> fst ` set kvs then f k else kv_get s (skey_bytes (K k)))) \<and>
    (\<forall>k. kv_has t (skey_bytes (K k)) \<longleftrightarrow> k \<in> fst ` set kvs \<or> kv_has s (skey_bytes (K k))) \<and>
    touches (range K) s t"
  using assms(2)
proof (induction kvs arbitrary: s)
  case Nil
  then show ?case by (simp add: touch.R_refl)
next
  case (Cons kv kvs)
  obtain k v where kv: "kv = (k, v)" by (cases kv)
  let ?s = "kv_put (skey_bytes (K k)) v s"
  have kvs: "\<forall>(k, v) \<in> set kvs. storable E v \<and> v = f k" and v: "storable E v" "v = f k"
    using Cons.prems by (auto simp: kv)
  from Cons.IH [OF kvs, of ?s] obtain t where
    run: "forM kvs (\<lambda>(k, v). set_slice E (skey_bytes (K k)) v) ?s = (Inr (), t)"
    and get: "\<forall>k. kv_get t (skey_bytes (K k)) = (if k \<in> fst ` set kvs then f k else kv_get ?s (skey_bytes (K k)))"
    and has: "\<forall>k. kv_has t (skey_bytes (K k)) \<longleftrightarrow> k \<in> fst ` set kvs \<or> kv_has ?s (skey_bytes (K k))"
    and t: "touches (range K) ?s t" by blast
  have "touches (range K) s ?s" by simp
  from this t have fr: "touches (range K) s t" by (rule touch.R_trans)
  have get': "kv_get t (skey_bytes (K x)) =
      (if x \<in> fst ` set (kv # kvs) then f x else kv_get s (skey_bytes (K x)))" for x
    using get v assms(1) by (auto simp: kv inj_eq)
  have has': "kv_has t (skey_bytes (K x)) \<longleftrightarrow> x \<in> fst ` set (kv # kvs) \<or> kv_has s (skey_bytes (K x))" for x
    using has assms(1) by (auto simp: kv inj_eq)
  have "forM (kv # kvs) (\<lambda>(k, v). set_slice E (skey_bytes (K k)) v) s = (Inr (), t)"
    using run v by (simp add: kv bindM_def set_slice_eval)
  with get' has' fr show ?case by blast
qed

lemma forM_cong: "(\<And>x. x \<in> set xs \<Longrightarrow> f x = g x) \<Longrightarrow> forM xs f = forM xs g"
  by (induction xs) simp_all

lemma forM_map: "forM (map h xs) f = forM xs (\<lambda>x. f (h x))"
  by (induction xs) simp_all

lemma init_vk_canonical:
  assumes "NormalizeVKData E bz = Inr bz"
  shows "init_vk E (n, bz) = set_slice E (VKKey n) (Some bz)"
  using assms by (intro ext) (simp add: init_vk_def set_slice_def kv_set_slice_def bindM_lift)

lemma init_vks_canonical:
  assumes "\<forall>(n, bz) \<in> set kvs. NormalizeVKData E bz = Inr bz"
  shows "forM kvs (init_vk E) =
    forM (map (\<lambda>(n, bz). (n, Some bz)) kvs) (\<lambda>(n, v). set_slice E (skey_bytes (KVK n)) v)"
  unfolding forM_map
  by (rule forM_cong) (use assms init_vk_canonical [of E] in \<open>auto split: prod.splits\<close>)

subsection \<open>Export\<close>

lemma mapE_all_Inr: "(\<And>x. x \<in> set xs \<Longrightarrow> f x = Inr (g x)) \<Longrightarrow> mapE f xs = Inr (map g xs)"
  by (simp add: mapE_Inr_iff list_all2_conv_all_nth)

lemma export_reg:
  assumes "reg_ok E s cs"
  shows "kv_u64 s RegNextIndexKeyBytes = Inr (of_nat (length cs))"
    and "map (\<lambda>i. kv_get s (RegCommitmentKey (of_nat i))) [0..<unat (of_nat (length cs) :: u64)] = map Some cs"
proof -
  have rep: "tree_rep E KRegCommitment KRegFrontier KRegNextIndex reg_depth s cs"
    using assms by (simp add: reg_ok_def)
  then have "length cs \<le> 2 ^ reg_depth" by (simp add: tree_rep_def)
  then have "unat (of_nat (length cs) :: u64) = length cs"
    by (intro unat_of_nat_u64) (simp add: reg_depth_def)
  with rep show "kv_u64 s RegNextIndexKeyBytes = Inr (of_nat (length cs))"
    and "map (\<lambda>i. kv_get s (RegCommitmentKey (of_nat i))) [0..<unat (of_nat (length cs) :: u64)] = map Some cs"
    by (auto simp: tree_rep_def intro: nth_equalityI)
qed

text \<open>What export makes of a store that represents a forest and a registration tree.\<close>

definition exported :: "('vk, 'b) ext \<Rightarrow> nat \<Rightarrow> store \<Rightarrow> params \<Rightarrow> bytes list list \<Rightarrow> bytes list \<Rightarrow> GenesisState" where
  "exported E d s p css rcs =
     \<lparr>gs_Params = Some p,
       gs_Trees = map (\<lambda>t. exported_tree d s (of_nat t) (css ! t) (roots_of E d (css ! t))) [0..<length css],
       gs_ActiveTreeId = of_nat (length css - 1), gs_TreeCount = of_nat (length css),
       gs_RegCommitments = map Some rcs,
       gs_RegFrontier = map (\<lambda>L. kv_get s (RegFrontierKey (of_nat L))) [0..<reg_depth],
       gs_RegNextIndex = of_nat (length rcs),
       gs_RegMerkleRoot = frBytes (roots_of E reg_depth rcs),
       gs_Nullifiers = map (\<lambda>(k, v). drop (length (bytes_of nullifierPrefix)) k)
         (iteratePrefix E (bytes_of nullifierPrefix) s),
       gs_AuditorData = map (\<lambda>(k, v). (drop (length (bytes_of auditorDataPrefix)) k, Some v))
         (iteratePrefix E (bytes_of auditorDataPrefix) s),
       gs_CommitmentsUsed = map (\<lambda>(k, v). drop (length (bytes_of commitmentUsedPrefix)) k)
         (iteratePrefix E (bytes_of commitmentUsedPrefix) s),
       gs_VerificationKeys = map (\<lambda>(k, v). (string_of (drop (length (bytes_of vkPrefix)) k), v))
         (iteratePrefix E (bytes_of vkPrefix) s)\<rparr>"

lemma exported_simps:
  "gs_RegCommitments (exported E d s p css rcs) = map Some rcs"
  "gs_RegFrontier (exported E d s p css rcs) = map (\<lambda>L. kv_get s (RegFrontierKey (of_nat L))) [0..<reg_depth]"
  "gs_RegNextIndex (exported E d s p css rcs) = of_nat (length rcs)"
  "gs_RegMerkleRoot (exported E d s p css rcs) = frBytes (roots_of E reg_depth rcs)"
  by (simp_all add: exported_def)

lemma export_eq:
  assumes f: "forest_ok E d s css" and reg: "reg_ok E s rcs"
    and p: "GetParams E s = Inr p" "unat (effective_depth p) = d" "d < 64"
  shows "ExportGenesis E s = Inr (exported E d s p css rcs)"
proof -
  have len: "length css < tree_bound" using f by (simp add: forest_ok_def)
  then have cnt: "unat (of_nat (length css) :: u64) = length css"
    by (intro unat_of_nat_u64) (simp add: tree_bound_def)
  have trees: "mapE (\<lambda>t. export_tree E s (effective_depth p) (of_nat t)) [0..<length css] =
      Inr (map (\<lambda>t. exported_tree d s (of_nat t) (css ! t) (roots_of E d (css ! t))) [0..<length css])"
    using f p by (intro mapE_all_Inr export_tree_eq) (simp_all add: forest_ok_def)
  have "levels DefaultRegTreeDepth = map of_nat [0..<reg_depth]"
    by (simp add: levels_def reg_depth_word)
  moreover have "GetRegMerkleRoot E s = frBytes (roots_of E reg_depth rcs)"
    using reg by (simp add: reg_ok_def)
  ultimately show ?thesis
    using f p trees export_reg [OF reg]
    by (simp add: ExportGenesis_def exported_def forest_ok_def cnt comp_def NullifierPrefix_def
        CommitmentUsedPrefix_def AuditorDataPrefix_def VKPrefix_def copyBytes_def)
qed


subsection \<open>The round trip\<close>

text \<open>What the genesis state of a store is made of beside the trees: the marked nullifiers and note
  commitments, the auditor's ciphertexts and the verification keys.\<close>

lemma drop_prefix: "skey_prefix k = pre \<Longrightarrow> drop (length (bytes_of pre)) (skey_bytes k) = skey_suffix k"
  by (auto simp: skey_bytes_def)

lemma export_auditor:
  assumes law: "prefix_end_law E" and slots: "slots_only s"
  defines "kvs \<equiv> map (\<lambda>(k, v). (drop (length (bytes_of auditorDataPrefix)) k, Some v))
    (iteratePrefix E (bytes_of auditorDataPrefix) s)"
  shows "\<forall>(h, v) \<in> set kvs. storable E v \<and> v = Some (slice (kv_get s (AuditorDataKey h)))"
    and "fst ` set kvs = {h. kv_has s (AuditorDataKey h)}"
proof -
  have pre: "auditorDataPrefix \<in> set store_prefixes" by (simp add: store_prefixes_def)
  have mem: "(b, v) \<in> set (iteratePrefix E (bytes_of auditorDataPrefix) s) \<longleftrightarrow>
      (\<exists>h. b = AuditorDataKey h \<and> kv_has s b \<and> v = slice (kv_get s b))" for b v
    unfolding iterate_slots [OF law slots pre] skey_prefix_iff by auto
  have drop: "drop (length (bytes_of auditorDataPrefix)) (AuditorDataKey h) = h" for h
    using drop_prefix [of "KAuditorData h"] by simp
  have kvs: "(h, v) \<in> set kvs \<longleftrightarrow> kv_has s (AuditorDataKey h) \<and> v = Some (slice (kv_get s (AuditorDataKey h)))"
    for h v
  proof -
    have "(h, v) \<in> set kvs \<longleftrightarrow> (\<exists>b w. (b, w) \<in> set (iteratePrefix E (bytes_of auditorDataPrefix) s) \<and>
        h = drop (length (bytes_of auditorDataPrefix)) b \<and> v = Some w)"
      unfolding kvs_def by force
    then show ?thesis unfolding mem using drop by metis
  qed
  then show "\<forall>(h, v) \<in> set kvs. storable E v \<and> v = Some (slice (kv_get s (AuditorDataKey h)))"
    by (auto simp: storable_def simp del: key_simps)
  have "h \<in> fst ` set kvs \<longleftrightarrow> (\<exists>v. (h, v) \<in> set kvs)" for h
    by force
  then have "h \<in> fst ` set kvs \<longleftrightarrow> kv_has s (AuditorDataKey h)" for h
    unfolding kvs by blast
  then show "fst ` set kvs = {h. kv_has s (AuditorDataKey h)}" by blast
qed

lemma export_vks:
  assumes law: "prefix_end_law E" and slots: "slots_only s"
    and canon: "\<And>n. kv_has s (VKKey n) \<Longrightarrow>
      \<exists>bz. kv_get s (VKKey n) = Some bz \<and> NormalizeVKData E bz = Inr bz"
  defines "kvs \<equiv> map (\<lambda>(k, v). (string_of (drop (length (bytes_of vkPrefix)) k), v))
    (iteratePrefix E (bytes_of vkPrefix) s)"
  shows "(n, bz) \<in> set kvs \<longleftrightarrow> kv_get s (VKKey n) = Some bz"
    and "(n, bz) \<in> set kvs \<Longrightarrow> NormalizeVKData E bz = Inr bz"
proof -
  have pre: "vkPrefix \<in> set store_prefixes" by (simp add: store_prefixes_def)
  have mem: "(b, v) \<in> set (iteratePrefix E (bytes_of vkPrefix) s) \<longleftrightarrow>
      (\<exists>n. b = VKKey n \<and> kv_has s b \<and> v = slice (kv_get s b))" for b v
    unfolding iterate_slots [OF law slots pre] skey_prefix_iff by auto
  have drop: "string_of (drop (length (bytes_of vkPrefix)) (VKKey n)) = n" for n
    using drop_prefix [of "KVK n"] by simp
  have kvs: "(n, bz) \<in> set kvs \<longleftrightarrow> kv_has s (VKKey n) \<and> bz = slice (kv_get s (VKKey n))" for n bz
  proof -
    have "(n, bz) \<in> set kvs \<longleftrightarrow> (\<exists>b w. (b, w) \<in> set (iteratePrefix E (bytes_of vkPrefix) s) \<and>
        n = string_of (drop (length (bytes_of vkPrefix)) b) \<and> bz = w)"
      unfolding kvs_def by force
    then show ?thesis unfolding mem using drop by metis
  qed
  have has: "kv_get s (VKKey n) = Some b \<Longrightarrow> kv_has s (VKKey n)" for n b
    using kv_get_not_has by force
  show *: "(n, bz) \<in> set kvs \<longleftrightarrow> kv_get s (VKKey n) = Some bz"
    unfolding kvs using canon [of n] has [of n bz] by force
  assume "(n, bz) \<in> set kvs"
  then have bz: "kv_get s (VKKey n) = Some bz" unfolding * .
  with canon [OF has [OF bz]] show "NormalizeVKData E bz = Inr bz" by simp
qed


lemma empty_import: "import_inv m kv_empty" if "m \<le> 2 * tree_bound"
proof -
  have roots: "slot_root kv_empty = (\<lambda>_. None)" by (rule ext) (simp add: slot_root_def)
  then have "index_ok kv_empty"
    by (simp add: index_ok_def index_is_def index_entry_def holders_def)
  with roots that show ?thesis by (simp add: import_inv_def root_slots_in_def)
qed

text \<open>The part of \<open>InitGenesis\<close> up to the registration tree.\<close>

lemma import_forest:
  assumes f: "forest_ok E d s css" and d: "d < 64"
    and fs: "\<And>t L. t < length css \<Longrightarrow> L < d \<Longrightarrow> storable E (kv_get s (FrontierKey (of_nat t) (of_nat L)))"
  obtains s2 where
    "forM (gs_Trees (exported E d s p css rcs)) (init_tree E) (kv_set ParamsKeyBytes bz kv_empty) = (Inr (), s2)"
    and "import_inv (length css) s2"
    and "\<forall>t < length css. note_tree E d s2 (of_nat t) (css ! t)"
    and "touches (\<Union>t. import_skeys t) (kv_set ParamsKeyBytes bz kv_empty) s2"
proof -
  let ?s1 = "kv_set ParamsKeyBytes bz kv_empty"
  have m: "length css < tree_bound" using f by (simp add: forest_ok_def)
  have "touches {KParams} kv_empty ?s1" by simp
  then have inv: "import_inv (length css) ?s1"
    by (rule import_inv_frame) (use m in \<open>auto intro: empty_import\<close>)
  have empty: "kv_get ?s1 (skey_bytes k) = None" if "k \<in> (\<Union>t. tree_skeys t)" for k
    using that by (auto simp: tree_skeys_def)
  have trees: "note_tree E d s (of_nat t) (css ! t)" if "t < length css" for t
    using f that by (simp add: forest_ok_def)
  obtain s2 where "forM (gs_Trees (exported E d s p css rcs)) (init_tree E) ?s1 = (Inr (), s2)"
    "import_inv (length css) s2" "\<forall>t < length css. note_tree E d s2 (of_nat t) (css ! t)"
    and t: "touches (\<Union>t < length css. import_skeys (of_nat t)) ?s1 s2"
    using import_trees [OF trees d m fs inv empty, where n = "length css"] by (auto simp: exported_def)
  moreover have "touches (\<Union>t. import_skeys t) ?s1 s2" using t by (rule touches_mono) auto
  ultimately show ?thesis using that by blast
qed

text \<open>The two halves of \<open>InitGenesis\<close>: parameters and forest, and everything after them.\<close>

definition init_head :: "('vk, 'b) ext \<Rightarrow> GenesisState \<Rightarrow> (store, unit) M" where
  "init_head E gs =
     bindM (SetParams E (case gs_Params gs of None \<Rightarrow> DefaultParams | Some p \<Rightarrow> p)) (\<lambda>_.
     bindM (forM (gs_Trees gs) (init_tree E)) (\<lambda>_.
     bindM (modifyM (kv_set ActiveTreeIdKey (be64 (gs_ActiveTreeId gs)))) (\<lambda>_.
     modifyM (kv_set TreeCountKey (be64 (gs_TreeCount gs))))))"

definition init_marks :: "('vk, 'b) ext \<Rightarrow> GenesisState \<Rightarrow> (store, unit) M" where
  "init_marks E gs =
     bindM (forM (gs_Nullifiers gs) (\<lambda>n. modifyM (kv_set (NullifierKey n) [1]))) (\<lambda>_.
     forM (gs_CommitmentsUsed gs) (\<lambda>c. modifyM (kv_set (CommitmentUsedKey c) [1])))"

definition init_data :: "('vk, 'b) ext \<Rightarrow> GenesisState \<Rightarrow> (store, unit) M" where
  "init_data E gs =
     bindM (forM (gs_AuditorData gs) (\<lambda>(txHash, data). set_slice E (AuditorDataKey txHash) data)) (\<lambda>_.
     forM (gs_VerificationKeys gs) (init_vk E))"

lemma bindM_assoc_eq: "bindM (bindM m f) g = bindM m (\<lambda>x. bindM (f x) g)"
  by (rule ext) (rule bindM_assoc)

lemma InitGenesis_split:
  "InitGenesis E gs s = bindM (init_head E gs) (\<lambda>_. bindM (init_reg E gs) (\<lambda>_.
     bindM (init_marks E gs) (\<lambda>_. init_data E gs))) s"
  by (simp add: InitGenesis_def init_head_def init_marks_def init_data_def bindM_assoc_eq)

definition head_skeys :: "skey set" where
  "head_skeys = (\<Union>t. import_skeys t) \<union> {KTreeCount, KActiveTreeId, KParams}"

definition mark_skeys :: "skey set" where
  "mark_skeys = range KNullifier \<union> range KCommitmentUsed"

definition data_skeys :: "skey set" where
  "data_skeys = range KAuditorData \<union> range KVK"

lemma mem_skeys:
  "KNullifier x \<in> mark_skeys" "KCommitmentUsed x \<in> mark_skeys" "KAuditorData h \<in> data_skeys" "KVK n \<in> data_skeys"
  "k \<in> reg_skeys \<Longrightarrow> k \<notin> head_skeys \<and> k \<notin> mark_skeys \<and> k \<notin> data_skeys"
  "k \<in> mark_skeys \<Longrightarrow> k \<notin> head_skeys \<and> k \<notin> reg_skeys \<and> k \<notin> data_skeys"
  "k \<in> data_skeys \<Longrightarrow> k \<notin> head_skeys \<and> k \<notin> reg_skeys \<and> k \<notin> mark_skeys"
  "k \<in> head_skeys \<Longrightarrow> k \<notin> reg_skeys \<and> k \<notin> mark_skeys \<and> k \<notin> data_skeys"
  by (auto simp: head_skeys_def mark_skeys_def data_skeys_def import_skeys_def tree_skeys_def reg_skeys_def)

lemma init_head_ok:
  assumes f: "forest_ok E d s css" and d: "d < 64" and json: "json_law E p"
    and fs: "\<And>t L. t < length css \<Longrightarrow> L < d \<Longrightarrow> storable E (kv_get s (FrontierKey (of_nat t) (of_nat L)))"
    and gs_def: "gs = exported E d s p css rcs"
  shows "\<exists>s'. init_head E gs kv_empty = (Inr (), s') \<and> import_inv (length css) s' \<and>
    (\<forall>t < length css. note_tree E d s' (of_nat t) (css ! t)) \<and> GetParams E s' = Inr p \<and>
    GetTreeCount s' = Inr (of_nat (length css)) \<and> GetActiveTreeId s' = Inr (of_nat (length css - 1)) \<and>
    touches head_skeys kv_empty s'"
proof -
  obtain bz where bz: "marshalParams E p = Inr bz" "unmarshalParams E bz = Inr p"
    using json by (auto simp: json_law_def)
  let ?s1 = "kv_set ParamsKeyBytes bz kv_empty" and ?m = "length css"
  obtain s2 where
    r2: "forM (gs_Trees gs) (init_tree E) ?s1 = (Inr (), s2)" and inv2: "import_inv ?m s2"
    and trees2: "\<forall>t < ?m. note_tree E d s2 (of_nat t) (css ! t)"
    and t2: "touches (\<Union>t. import_skeys t) ?s1 s2"
    unfolding gs_def by (rule import_forest [OF f d fs, of p rcs bz])
  let ?a = "kv_set ActiveTreeIdKey (be64 (gs_ActiveTreeId gs)) s2"
  let ?s4 = "kv_set TreeCountKey (be64 (gs_TreeCount gs)) ?a"
  have t4: "touches {KTreeCount, KActiveTreeId} s2 ?s4"
    by (rule touch.R_trans [of _ _ ?a]) simp_all
  have fr: "touches head_skeys kv_empty ?s4"
    by (rule touch.R_trans [OF _ touch.R_trans [OF touches_mono [OF t2] touches_mono [OF t4]]])
      (auto simp: head_skeys_def)
  have trees: "note_tree E d ?s4 (of_nat t) (css ! t)" if "t < ?m" for t
    by (rule note_tree_frame [OF trees2 [rule_format, OF that] t4]) (auto simp: tree_skeys_def)
  have inv: "import_inv ?m ?s4" by (rule import_inv_frame [OF t4 _ _ _ inv2]) auto
  have cnt: "GetTreeCount ?s4 = Inr (of_nat ?m)" "GetActiveTreeId ?s4 = Inr (of_nat (?m - 1))"
    by (simp_all add: GetTreeCount_def GetActiveTreeId_def gs_def exported_def)
  have par: "GetParams E ?s4 = Inr p"
  proof -
    have "GetParams E s2 = GetParams E ?s1"
      by (rule GetParams_frame [OF t2]) (auto simp: import_skeys_def tree_skeys_def)
    then show ?thesis using GetParams_frame [OF t4, of E] bz(2) by (simp add: GetParams_def)
  qed
  have "init_head E gs kv_empty = (Inr (), ?s4)"
    using r2 bz(1) by (simp add: init_head_def SetParams_def bindM_def gs_def exported_def bindM_lift)
  with inv trees par cnt fr show ?thesis by blast
qed

lemma init_marks_ok:
  assumes law: "prefix_end_law E" and slots: "slots_only s0"
    and gs: "gs = exported E d s0 p css rcs"
    and empty: "\<And>k. k \<in> mark_skeys \<Longrightarrow> \<not> kv_has s (skey_bytes k)"
  shows "\<exists>s'. init_marks E gs s = (Inr (), s') \<and> touches mark_skeys s s' \<and>
    (\<forall>x. kv_has s' (skey_bytes (KNullifier x)) = kv_has s0 (skey_bytes (KNullifier x))) \<and>
    (\<forall>x. kv_has s' (skey_bytes (KCommitmentUsed x)) = kv_has s0 (skey_bytes (KCommitmentUsed x)))"
proof -
  have inj: "inj KNullifier" "inj KCommitmentUsed" by (simp_all add: inj_def)
  obtain s1 where r1: "forM (gs_Nullifiers gs) (\<lambda>n. modifyM (kv_set (NullifierKey n) [1])) s = (Inr (), s1)"
    and h1: "\<And>x. kv_has s1 (skey_bytes (KNullifier x)) \<longleftrightarrow>
      kv_has s (skey_bytes (KNullifier x)) \<or> x \<in> SetBytes ` set (gs_Nullifiers gs)"
    and t1: "touches (range KNullifier) s s1"
    using bulk_marks [OF inj(1), of "gs_Nullifiers gs" s] unfolding key_simps by blast
  obtain s2 where r2: "forM (gs_CommitmentsUsed gs) (\<lambda>n. modifyM (kv_set (CommitmentUsedKey n) [1])) s1 = (Inr (), s2)"
    and h2: "\<And>x. kv_has s2 (skey_bytes (KCommitmentUsed x)) \<longleftrightarrow>
      kv_has s1 (skey_bytes (KCommitmentUsed x)) \<or> x \<in> SetBytes ` set (gs_CommitmentsUsed gs)"
    and t2: "touches (range KCommitmentUsed) s1 s2"
    using bulk_marks [OF inj(2), of "gs_CommitmentsUsed gs" s1] unfolding key_simps by blast
  have n: "SetBytes ` set (gs_Nullifiers gs) = {x. kv_has s0 (skey_bytes (KNullifier x))}"
    using export_marks [OF law slots, of nullifierPrefix KNullifier] skey_prefix_iff
    by (simp add: gs exported_def store_prefixes_def)
  have c: "SetBytes ` set (gs_CommitmentsUsed gs) = {x. kv_has s0 (skey_bytes (KCommitmentUsed x))}"
    using export_marks [OF law slots, of commitmentUsedPrefix KCommitmentUsed] skey_prefix_iff
    by (simp add: gs exported_def store_prefixes_def)
  have "kv_has s2 (skey_bytes (KNullifier x)) = kv_has s0 (skey_bytes (KNullifier x))" for x
    using touches_has [OF t2, of "KNullifier x"] h1 [of x] n empty [OF mem_skeys(1)] by (simp add: image_iff)
  moreover have "kv_has s2 (skey_bytes (KCommitmentUsed x)) = kv_has s0 (skey_bytes (KCommitmentUsed x))" for x
    using touches_has [OF t1, of "KCommitmentUsed x"] h2 [of x] c empty [OF mem_skeys(2)] by (simp add: image_iff)
  moreover have "touches mark_skeys s s2"
    by (rule touch.R_trans [OF touches_mono [OF t1] touches_mono [OF t2]]) (auto simp: mark_skeys_def)
  moreover have "init_marks E gs s = (Inr (), s2)" using r1 r2 by (simp only: init_marks_def bindM_Inr)
  ultimately show ?thesis by blast
qed


lemma init_data_ok:
  assumes law: "prefix_end_law E" and slots: "slots_only s0"
    and canon: "\<And>n. kv_has s0 (VKKey n) \<Longrightarrow>
      \<exists>bz. kv_get s0 (VKKey n) = Some bz \<and> NormalizeVKData E bz = Inr bz"
    and gs: "gs = exported E d s0 p css rcs"
    and empty: "\<And>k. k \<in> data_skeys \<Longrightarrow> kv_get s (skey_bytes k) = None \<and> \<not> kv_has s (skey_bytes k)"
  shows "\<exists>s'. init_data E gs s = (Inr (), s') \<and> touches data_skeys s s' \<and>
    (\<forall>n. GetVerificationKeyFromState s' n = GetVerificationKeyFromState s0 n) \<and>
    (\<forall>h. kv_has s' (AuditorDataKey h) = kv_has s0 (AuditorDataKey h) \<and>
      slice (kv_get s' (AuditorDataKey h)) = slice (kv_get s0 (AuditorDataKey h)))"
proof -
  have inj: "inj KAuditorData" "inj KVK" by (simp_all add: inj_def)
  note aud = export_auditor [OF law slots]
  obtain s1 where r1: "forM (gs_AuditorData gs) (\<lambda>(h, v). set_slice E (skey_bytes (KAuditorData h)) v) s = (Inr (), s1)"
    and g1: "\<And>h. kv_get s1 (skey_bytes (KAuditorData h)) =
      (if h \<in> fst ` set (gs_AuditorData gs) then Some (slice (kv_get s0 (AuditorDataKey h)))
       else kv_get s (skey_bytes (KAuditorData h)))"
    and h1: "\<And>h. kv_has s1 (skey_bytes (KAuditorData h)) \<longleftrightarrow>
      h \<in> fst ` set (gs_AuditorData gs) \<or> kv_has s (skey_bytes (KAuditorData h))"
    and t1: "touches (range KAuditorData) s s1"
    using bulk_assoc [OF inj(1) aud(1), of s] by (auto simp: gs exported_def)
  have in_gs: "h \<in> fst ` set (gs_AuditorData gs) \<longleftrightarrow> kv_has s0 (AuditorDataKey h)" for h
    using aud(2) by (auto simp: gs exported_def)
  have vks: "(n, v) \<in> set (gs_VerificationKeys gs) \<longleftrightarrow> kv_get s0 (VKKey n) = Some v"
    "(n, v) \<in> set (gs_VerificationKeys gs) \<Longrightarrow> NormalizeVKData E v = Inr v" for n v
    using export_vks [OF law slots canon, of n v] by (simp_all add: gs exported_def)
  let ?kvs = "map (\<lambda>(n, v). (n, Some v)) (gs_VerificationKeys gs)"
  have kvs: "\<forall>(n, v) \<in> set ?kvs. storable E v \<and> v = kv_get s0 (VKKey n)"
    using vks(1) by (auto simp: storable_def)
  have fst_kvs: "n \<in> fst ` set ?kvs \<longleftrightarrow> kv_get s0 (VKKey n) \<noteq> None" for n
    using vks(1) by (force simp: image_iff)
  obtain s2 where r2: "forM ?kvs (\<lambda>(n, v). set_slice E (skey_bytes (KVK n)) v) s1 = (Inr (), s2)"
    and g2: "\<And>n. kv_get s2 (skey_bytes (KVK n)) =
      (if n \<in> fst ` set ?kvs then kv_get s0 (VKKey n) else kv_get s1 (skey_bytes (KVK n)))"
    and t2: "touches (range KVK) s1 s2"
    using bulk_assoc [OF inj(2) kvs, of s1] by blast
  have "forM (gs_VerificationKeys gs) (init_vk E) s1 = (Inr (), s2)"
    using r2 vks(2) by (subst init_vks_canonical) auto
  then have "init_data E gs s = (Inr (), s2)" using r1 by (simp add: init_data_def bindM_Inr)
  moreover have "touches data_skeys s s2"
    by (rule touch.R_trans [OF touches_mono [OF t1] touches_mono [OF t2]]) (auto simp: data_skeys_def)
  moreover have "GetVerificationKeyFromState s2 n = GetVerificationKeyFromState s0 n" for n
    using g2 [of n] fst_kvs [of n] empty [OF mem_skeys(4)] touches_get [OF t1, of "KVK n"]
    by (auto simp: GetVerificationKeyFromState_def image_iff)
  moreover have "kv_has s2 (AuditorDataKey h) = kv_has s0 (AuditorDataKey h) \<and>
      slice (kv_get s2 (AuditorDataKey h)) = slice (kv_get s0 (AuditorDataKey h))" for h
  proof -
    have "kv_get s2 (skey_bytes (KAuditorData h)) = kv_get s1 (skey_bytes (KAuditorData h))"
      "kv_has s2 (skey_bytes (KAuditorData h)) = kv_has s1 (skey_bytes (KAuditorData h))"
      using touches_get [OF t2, of "KAuditorData h"] touches_has [OF t2, of "KAuditorData h"]
      by (simp_all add: image_iff)
    then show ?thesis
      using g1 [of h] h1 [of h] in_gs [of h] empty [OF mem_skeys(3)] kv_get_not_has [of s0 "AuditorDataKey h"]
      by auto
  qed
  ultimately show ?thesis by blast
qed

lemma genesis_import_export:
  assumes law: "prefix_end_law E" and slots: "slots_only s"
    and f: "forest_ok E d s css" and reg: "reg_ok E s rcs"
    and p: "GetParams E s = Inr p" "unat (effective_depth p) = d" "d < 64" and json: "json_law E p"
    and fs: "\<And>t L. t < length css \<Longrightarrow> L < d \<Longrightarrow> storable E (kv_get s (FrontierKey (of_nat t) (of_nat L)))"
    and rfs: "\<And>L. L < reg_depth \<Longrightarrow> storable E (kv_get s (RegFrontierKey (of_nat L)))"
    and canon: "\<And>n. kv_has s (VKKey n) \<Longrightarrow>
      \<exists>bz. kv_get s (VKKey n) = Some bz \<and> NormalizeVKData E bz = Inr bz"
  shows "\<exists>gs s'. ExportGenesis E s = Inr gs \<and> InitGenesis E gs kv_empty = (Inr (), s') \<and>
    forest_ok E d s' css \<and> reg_ok E s' rcs \<and> GetParams E s' = Inr p \<and>
    (\<forall>x. kv_has s' (skey_bytes (KNullifier x)) = kv_has s (skey_bytes (KNullifier x))) \<and>
    (\<forall>n. GetVerificationKeyFromState s' n = GetVerificationKeyFromState s n) \<and>
    (\<forall>h. kv_has s' (AuditorDataKey h) = kv_has s (AuditorDataKey h) \<and>
      slice (kv_get s' (AuditorDataKey h)) = slice (kv_get s (AuditorDataKey h)))"
proof -
  define gs where gs: "gs = exported E d s p css rcs"
  have export: "ExportGenesis E s = Inr gs"
    unfolding gs by (rule export_eq [OF f reg p])
  obtain s1 where r1: "init_head E gs kv_empty = (Inr (), s1)" and inv1: "import_inv (length css) s1"
    and trees1: "\<And>t. t < length css \<Longrightarrow> note_tree E d s1 (of_nat t) (css ! t)"
    and par1: "GetParams E s1 = Inr p" and cnt1: "GetTreeCount s1 = Inr (of_nat (length css))"
      "GetActiveTreeId s1 = Inr (of_nat (length css - 1))" and t1: "touches head_skeys kv_empty s1"
    using init_head_ok [OF f p(3) json fs gs] by blast
  have empty1: "kv_get s1 (skey_bytes k) = None \<and> \<not> kv_has s1 (skey_bytes k)" if "k \<notin> head_skeys" for k
    using touches_get [OF t1 that] touches_has [OF t1 that] by simp
  obtain s2 where r2: "init_reg E gs s1 = (Inr (), s2)" and reg2: "reg_ok E s2 rcs"
    and t2: "touches reg_skeys s1 s2"
  proof (rule import_reg [OF reg rfs])
    show "kv_get s1 (skey_bytes k) = None \<and> \<not> kv_has s1 (skey_bytes k)" if "k \<in> reg_skeys" for k
      using mem_skeys(5) [OF that] empty1 by blast
    show "gs_RegCommitments gs = map Some rcs" "gs_RegNextIndex gs = of_nat (length rcs)"
      "gs_RegFrontier gs = map (\<lambda>L. kv_get s (RegFrontierKey (of_nat L))) [0..<reg_depth]"
      "gs_RegMerkleRoot gs = frBytes (roots_of E reg_depth rcs)"
      unfolding gs by (rule exported_simps)+
  qed
  have "\<not> kv_has s2 (skey_bytes k)" if "k \<in> mark_skeys" for k
    using mem_skeys(6) [OF that] empty1 [of k] touches_has [OF t2, of k] by simp
  from init_marks_ok [OF law slots gs this] obtain s3 where r3: "init_marks E gs s2 = (Inr (), s3)"
    and t3: "touches mark_skeys s2 s3"
    and n3: "\<And>x. kv_has s3 (skey_bytes (KNullifier x)) = kv_has s (skey_bytes (KNullifier x))"
    and c3: "\<And>x. kv_has s3 (skey_bytes (KCommitmentUsed x)) = kv_has s (skey_bytes (KCommitmentUsed x))" by blast
  have "kv_get s3 (skey_bytes k) = None \<and> \<not> kv_has s3 (skey_bytes k)" if "k \<in> data_skeys" for k
    using mem_skeys(7) [OF that] empty1 [of k] touches_has [OF t2, of k] touches_has [OF t3, of k]
      touches_get [OF t2, of k] touches_get [OF t3, of k] by simp
  from init_data_ok [OF law slots canon gs this] obtain s4 where r4: "init_data E gs s3 = (Inr (), s4)"
    and t4: "touches data_skeys s3 s4"
    and vks: "\<forall>n. GetVerificationKeyFromState s4 n = GetVerificationKeyFromState s n"
    and data: "\<forall>h. kv_has s4 (AuditorDataKey h) = kv_has s (AuditorDataKey h) \<and>
      slice (kv_get s4 (AuditorDataKey h)) = slice (kv_get s (AuditorDataKey h))" by blast
  let ?K = "reg_skeys \<union> mark_skeys \<union> data_skeys"
  have t: "touches ?K s1 s4"
    by (rule touch.R_trans [OF touches_mono [OF t2] touch.R_trans [OF touches_mono [OF t3] touches_mono [OF t4]]]) auto
  have K: "k \<notin> ?K" if "k \<in> head_skeys" for k using mem_skeys(8) [OF that] by blast
  have heads: "k \<in> head_skeys" if "k \<in> {KParams, KTreeCount, KActiveTreeId} \<union> (\<Union>t. import_skeys t)" for k
    using that by (auto simp: head_skeys_def)
  have marks: "kv_has s4 (skey_bytes k) = kv_has s3 (skey_bytes k)" if "k \<in> mark_skeys" for k
    using mem_skeys(6) [OF that] by (intro touches_has [OF t4]) blast
  have "reg_ok E s4 rcs"
    by (rule reg_frame [OF reg2, of "mark_skeys \<union> data_skeys"],
        rule touch.R_trans [OF touches_mono [OF t3] touches_mono [OF t4]]) (use mem_skeys(5) in blast)+
  moreover have "GetParams E s4 = Inr p"
    using GetParams_frame [OF t K [OF heads], of E] par1 by simp
  moreover have "forest_ok E d s4 css"
  proof -
    have "note_tree E d s4 (of_nat i) (css ! i)" if "i < length css" for i
      by (rule note_tree_frame [OF trees1 [OF that] t]) (use K heads in \<open>auto simp: import_skeys_def\<close>)
    moreover have "import_inv (length css) s4"
      by (rule import_inv_frame [OF t _ _ _ inv1])
        (auto simp: reg_skeys_def mark_skeys_def data_skeys_def)
    moreover have "GetTreeCount s4 = Inr (of_nat (length css))" "GetActiveTreeId s4 = Inr (of_nat (length css - 1))"
      using cnt1 touches_u64 [OF t K [OF heads], of KTreeCount] touches_u64 [OF t K [OF heads], of KActiveTreeId]
      by (simp_all add: GetTreeCount_def GetActiveTreeId_def)
    ultimately show ?thesis
      using f c3 marks [OF mem_skeys(2)] by (simp add: forest_ok_def import_inv_def)
  qed
  moreover have "InitGenesis E gs kv_empty = (Inr (), s4)"
    using r1 r2 r3 r4 by (simp add: InitGenesis_split bindM_def)
  ultimately show ?thesis using export vks data n3 marks [OF mem_skeys(1)] by auto
qed

end
