(* ===== verification/GenesisIndex.thy ===== *)
theory GenesisIndex
  imports GenesisSpec
begin

subsection \<open>Any genesis state\<close>

text \<open>Whatever the trees of a genesis state hold, the imported index is exact: the number of slots
  written is bounded by the number of roots in the state.\<close>

definition slots_at_most :: "store \<Rightarrow> nat \<Rightarrow> bool" where
  "slots_at_most s n \<longleftrightarrow> index_ok s \<and> card {sl. slot_root s sl \<noteq> None} \<le> n"

lemma slots_at_most_mono: "slots_at_most s m \<Longrightarrow> m \<le> n \<Longrightarrow> slots_at_most s n"
  by (simp add: slots_at_most_def)

lemma set_slot_at_most:
  assumes "slots_at_most s n" "n < 2 ^ 64 - 1"
    and "setSlotIndexed (skey_bytes (slot_skey sl)) b s = (r, s')"
  shows "slots_at_most s' (Suc n)"
proof -
  have ok: "index_ok s" "card {x. slot_root s x \<noteq> None} \<le> n" using assms(1) by (simp_all add: slots_at_most_def)
  then have "slots_bounded s" using assms(2) by (simp add: slots_bounded_def)
  from setSlotIndexed_correct [OF ok(1) this, of sl b] assms(3)
  have ok': "index_ok s'" and roots: "slot_root s' = (slot_root s)(sl := root_opt b)" by auto
  have "{x. slot_root s' x \<noteq> None} \<subseteq> insert sl {x. slot_root s x \<noteq> None}" by (auto simp: roots)
  then have "card {x. slot_root s' x \<noteq> None} \<le> card (insert sl {x. slot_root s x \<noteq> None})"
    by (intro card_mono) simp_all
  also have "\<dots> \<le> Suc n" using ok(2) by (simp add: card_insert_if)
  finally show ?thesis using ok' by (simp add: slots_at_most_def)
qed

lemma at_most_frame:
  assumes "touches K s s'" "\<And>r. KRootIndex r \<notin> K" "\<And>t. KTreeRoot t \<notin> K"
    "\<And>t i. KRootHistory t i \<notin> K" and "slots_at_most s n"
  shows "slots_at_most s' n"
proof -
  have k: "slot_skey sl \<notin> K" for sl using assms(3,4) by (cases sl) simp_all
  have "slot_root s' = slot_root s" by (rule touches_slot_root [OF assms(1) k])
  moreover have "index_ok s'"
    by (rule index_ok_frame(1) [OF assms(1) _ k, THEN iffD2]) (use assms(2,5) in \<open>auto simp: slots_at_most_def\<close>)
  ultimately show ?thesis using assms(5) by (simp add: slots_at_most_def)
qed


lemma stable_touches_slice [frame_rules]:
  "k \<in> K \<Longrightarrow> stable (touches K) (set_slice E (skey_bytes k) v)"
  by (simp add: stable_def set_slice_eval touch.R_refl)

text \<open>A call that leaves the roots alone.\<close>

lemma at_most_stable:
  assumes "stable (touches K) m" "m s = (r, s')" "slots_at_most s n"
    and "\<And>r. KRootIndex r \<notin> K" "\<And>t. KTreeRoot t \<notin> K" "\<And>t i. KRootHistory t i \<notin> K"
  shows "slots_at_most s' n"
  using stableD [OF assms(1,2)] assms(4-6,3) by (rule at_most_frame)

lemma history_at_most:
  assumes "forM (enumerate i rs) (\<lambda>(i, r). setRootHistoryIndexed t (of_nat i) r) s = (Inr u, s')"
    and "slots_at_most s n" and "n + length rs < 2 ^ 64 - 1"
  shows "slots_at_most s' (n + length rs)"
  using assms
proof (induction rs arbitrary: i s n)
  case Nil
  then show ?case by simp
next
  case (Cons r rs)
  obtain s1 where 1: "setRootHistoryIndexed t (of_nat i) r s = (Inr (), s1)"
    and 2: "forM (enumerate (Suc i) rs) (\<lambda>(i, r). setRootHistoryIndexed t (of_nat i) r) s1 = (Inr u, s')"
    using Cons.prems(1) by (auto simp: bindM_Inr_iff)
  have "slots_at_most s1 (Suc n)"
    using set_slot_at_most [OF Cons.prems(2), of "HistoryRoot t (of_nat i)" r] 1 Cons.prems(3)
    by (simp add: setRootHistoryIndexed_def)
  from Cons.IH [OF 2 this] Cons.prems(3) show ?case by (simp add: ac_simps)
qed

lemma init_tree_at_most:
  assumes run: "init_tree E tree s = (Inr u, s')" and inv: "slots_at_most s n"
    and n: "n + Suc (length (ts_RootHistory tree)) < 2 ^ 64 - 1"
  shows "slots_at_most s' (n + Suc (length (ts_RootHistory tree)))"
proof -
  let ?t = "ts_TreeId tree"
  let ?K = "range (KCommitment ?t) \<union> range (KFrontier ?t) \<union> {KTreeNextIndex ?t}"
  obtain s1 s2 s3 s4 where
    1: "forM (enumerate 0 (ts_Commitments tree)) (\<lambda>(i, c). set_slice E (CommitmentKey ?t (of_nat i)) c) s = (Inr (), s1)"
    and 2: "forM (enumerate 0 (ts_Frontier tree)) (\<lambda>(i, f). set_slice E (FrontierKey ?t (of_nat i)) f) s1 = (Inr (), s2)"
    and 3: "(if ts_NextIndex tree > 0 then modifyM (kv_set (TreeNextIndexKey ?t) (be64 (ts_NextIndex tree)))
        else returnM ()) s2 = (Inr (), s3)"
    and 4: "(if length (ts_MerkleRoot tree) > 0 then setTreeRootIndexed ?t (ts_MerkleRoot tree)
        else returnM ()) s3 = (Inr (), s4)"
    and 5: "forM (enumerate 0 (ts_RootHistory tree)) (\<lambda>(i, r). setRootHistoryIndexed ?t (of_nat i) r) s4 = (Inr u, s')"
    using run unfolding init_tree_def Let_def bindM_Inr_iff by (elim exE conjE) auto
  have "stable (touches ?K) (forM (enumerate 0 (ts_Commitments tree))
      (\<lambda>(i, c). set_slice E (CommitmentKey ?t (of_nat i)) c))"
    by (auto intro!: frame_rules touch.stable_for)
  from stableD [OF this 1] have "touches ?K s s1" .
  moreover have "stable (touches ?K) (forM (enumerate 0 (ts_Frontier tree))
      (\<lambda>(i, f). set_slice E (FrontierKey ?t (of_nat i)) f))"
    by (auto intro!: frame_rules touch.stable_for)
  from stableD [OF this 2] have "touches ?K s1 s2" .
  moreover have "stable (touches ?K) (if ts_NextIndex tree > 0
      then modifyM (kv_set (TreeNextIndexKey ?t) (be64 (ts_NextIndex tree))) else returnM ())"
    by (auto intro!: frame_rules touch.stable_modify touch.stable_return)
  from stableD [OF this 3] have "touches ?K s2 s3" .
  ultimately have "touches ?K s s3" by (blast intro: touch.R_trans)
  then have "slots_at_most s3 n"
    by (rule at_most_frame) (use inv in auto)
  then have "slots_at_most s4 (Suc n)"
    using 4 n set_slot_at_most [of s3 n "CurrentRoot ?t" "ts_MerkleRoot tree" "Inr ()" s4]
    by (auto simp: setTreeRootIndexed_def intro: slots_at_most_mono split: if_splits)
  from history_at_most [OF 5 this] n show ?thesis by simp
qed

definition genesis_roots :: "GenesisState \<Rightarrow> nat" where
  "genesis_roots gs = sum_list (map (\<lambda>tree. Suc (length (ts_RootHistory tree))) (gs_Trees gs))"

lemma init_trees_at_most:
  assumes "forM trees (init_tree E) s = (Inr u, s')" and "slots_at_most s n"
    and "n + sum_list (map (\<lambda>tree. Suc (length (ts_RootHistory tree))) trees) < 2 ^ 64 - 1"
  shows "slots_at_most s' (n + sum_list (map (\<lambda>tree. Suc (length (ts_RootHistory tree))) trees))"
  using assms
proof (induction trees arbitrary: s n)
  case Nil
  then show ?case by simp
next
  case (Cons tree trees)
  obtain s1 where 1: "init_tree E tree s = (Inr (), s1)" and 2: "forM trees (init_tree E) s1 = (Inr u, s')"
    using Cons.prems(1) by (auto simp: bindM_Inr_iff)
  have "slots_at_most s1 (n + Suc (length (ts_RootHistory tree)))"
    using Cons.prems(3) by (intro init_tree_at_most [OF 1 Cons.prems(2)]) simp
  from Cons.IH [OF 2 this] Cons.prems(3) show ?case by (simp add: ac_simps)
qed

text \<open>The stages after the trees write neither roots nor the index.\<close>

lemma init_reg_stable: "stable (touches reg_skeys) (init_reg E gs)"
  unfolding init_reg_def key_simps
  by (auto intro!: frame_rules touch.stable_for touch.stable_modify touch.stable_return touch.stable_bind
      simp: reg_skeys_def)

lemma init_marks_stable: "stable (touches mark_skeys) (init_marks E gs)"
  unfolding init_marks_def key_simps
  by (auto intro!: frame_rules touch.stable_for touch.stable_modify touch.stable_bind simp: mark_skeys_def)

lemma init_data_stable: "stable (touches data_skeys) (init_data E gs)"
  unfolding init_data_def init_vk_def key_simps
  by (auto intro!: frame_rules touch.stable_for touch.stable_modify touch.stable_bind touch.stable_lift
      simp: data_skeys_def split: prod.splits)

lemma init_head_at_most:
  assumes "init_head E gs kv_empty = (Inr (), s')" and "genesis_roots gs < 2 ^ 64 - 1"
  shows "slots_at_most s' (genesis_roots gs)"
proof -
  obtain s1 s2 where 1: "SetParams E (case gs_Params gs of None \<Rightarrow> DefaultParams | Some p \<Rightarrow> p) kv_empty = (Inr (), s1)"
    and 2: "forM (gs_Trees gs) (init_tree E) s1 = (Inr (), s2)"
    and s': "s' = kv_set TreeCountKey (be64 (gs_TreeCount gs)) (kv_set ActiveTreeIdKey (be64 (gs_ActiveTreeId gs)) s2)"
    using assms(1) by (auto simp: init_head_def bindM_Inr_iff)
  have none: "slot_root kv_empty sl = None" for sl by (simp add: slot_root_def)
  then have e: "slots_at_most kv_empty 0"
    by (simp add: slots_at_most_def index_ok_def holders_def index_is_def index_entry_def)
  have "touches {KParams} kv_empty s1"
    using 1 by (auto simp: SetParams_def bindM_Inr_iff)
  then have "slots_at_most s1 0" by (rule at_most_frame) (use e in auto)
  then have "slots_at_most s2 (genesis_roots gs)"
    using init_trees_at_most [OF 2, of 0] assms(2) by (simp add: genesis_roots_def)
  moreover have "touches {KTreeCount, KActiveTreeId} s2 s'"
    unfolding s' by (rule touch.R_trans [of _ _ "kv_set ActiveTreeIdKey (be64 (gs_ActiveTreeId gs)) s2"]) simp_all
  ultimately show ?thesis by (intro at_most_frame [of "{KTreeCount, KActiveTreeId}" s2 s']) auto
qed

lemma genesis_index_exact:
  assumes "InitGenesis E gs kv_empty = (Inr (), s')" and "genesis_roots gs < 2 ^ 64 - 1"
  shows "index_ok s'"
proof -
  obtain s1 s2 s3 where 1: "init_head E gs kv_empty = (Inr (), s1)" and 2: "init_reg E gs s1 = (Inr (), s2)"
    and 3: "init_marks E gs s2 = (Inr (), s3)" and 4: "init_data E gs s3 = (Inr (), s')"
    using assms(1) by (auto simp: InitGenesis_split bindM_Inr_iff)
  let ?K = "reg_skeys \<union> mark_skeys \<union> data_skeys"
  have "touches ?K s1 s2" "touches ?K s2 s3" "touches ?K s3 s'"
    using stableD [OF init_reg_stable 2] stableD [OF init_marks_stable 3] stableD [OF init_data_stable 4]
    by (auto intro: touches_mono)
  then have "touches ?K s1 s'" by (blast intro: touch.R_trans)
  then have "slots_at_most s' (genesis_roots gs)"
    by (rule at_most_frame) (use init_head_at_most [OF 1 assms(2)] in
      \<open>auto simp: reg_skeys_def mark_skeys_def data_skeys_def\<close>)
  then show ?thesis by (simp add: slots_at_most_def)
qed

end
