(* ===== verification/Query.thy ===== *)
theory Query
  imports Registration
begin

section \<open>Queries\<close>

text \<open>
  \<open>keeper/query_server.go\<close>: each handler reads the store and answers; none writes.  A request
  with no field is no argument, a response with one field is the field.
\<close>

record QueryTreeInfoResponse =
  ti_Root :: bytes
  ti_NextIndex :: u64
  ti_Depth :: u32
  ti_ActiveTreeId :: u64
  ti_TreeCount :: u64

definition Query_Root :: "('vk, 'b) ext \<Rightarrow> store \<Rightarrow> err + bytes" where
  "Query_Root E s = bindE (GetMerkleRoot E s) (\<lambda>root. Inr root)"

definition Query_NullifierStatus :: "store \<Rightarrow> bytes \<Rightarrow> err + bool" where
  "Query_NullifierStatus s nullifier = Inr (IsNullifierSpent s nullifier)"

definition Query_TreeInfo :: "('vk, 'b) ext \<Rightarrow> store \<Rightarrow> err + QueryTreeInfoResponse" where
  "Query_TreeInfo E s =
     bindE (GetMerkleRoot E s) (\<lambda>root.
     bindE (GetNextIndex s) (\<lambda>nextIndex.
     bindE (GetActiveTreeId s) (\<lambda>activeTreeId.
     bindE (GetTreeCount s) (\<lambda>treeCount.
     Inr \<lparr>ti_Root = root, ti_NextIndex = nextIndex, ti_Depth = DefaultTreeDepth,
       ti_ActiveTreeId = activeTreeId, ti_TreeCount = treeCount\<rparr>))))"

definition Query_Params :: "('vk, 'b) ext \<Rightarrow> store \<Rightarrow> err + params" where
  "Query_Params E s = bindE (GetParams E s) (\<lambda>params. Inr params)"

definition Query_RegistrationRoot :: "('vk, 'b) ext \<Rightarrow> store \<Rightarrow> err + bytes" where
  "Query_RegistrationRoot E s = Inr (GetRegMerkleRoot E s)"

definition Query_AuditorKey :: "('vk, 'b) ext \<Rightarrow> store \<Rightarrow> err + bytes" where
  "Query_AuditorKey E s = bindE (GetParams E s) (\<lambda>params. Inr (AuditorPubKey params))"

definition Query_SupportedDenoms :: "('vk, 'b) ext \<Rightarrow> store \<Rightarrow> err + string list" where
  "Query_SupportedDenoms E s = bindE (GetParams E s) (\<lambda>params. Inr (SupportedDenoms params))"

text \<open>What the queries answer on a store that represents a forest.\<close>

lemma active_tree:
  assumes "forest_ok E d s css" and "css \<noteq> []"
  shows "GetActiveTreeId s = Inr (of_nat (length css - 1))"
    and "note_tree E d s (of_nat (length css - 1)) (last css)"
  using assms by (auto simp: forest_ok_def last_conv_nth)

lemma TreeInfo_forest:
  assumes f: "forest_ok E d s css" and ne: "css \<noteq> []"
  shows "Query_TreeInfo E s = Inr \<lparr>ti_Root = frBytes (roots_of E d (last css)),
    ti_NextIndex = of_nat (length (last css)), ti_Depth = DefaultTreeDepth,
    ti_ActiveTreeId = of_nat (length css - 1), ti_TreeCount = of_nat (length css)\<rparr>"
proof -
  note act = active_tree [OF f ne]
  have "GetTreeCount s = Inr (of_nat (length css))" using f by (simp add: forest_ok_def)
  with act show ?thesis
    by (simp add: Query_TreeInfo_def GetMerkleRoot_def GetNextIndex_def GetTreeRoot_def
        GetTreeNextIndex_def note_tree_def tree_rep_def)
qed

end
