(* ===== verification/Module.thy ===== *)
theory Module
  imports GenesisIndex Query
begin

section \<open>The module: keeper construction, genesis entry points\<close>

text \<open>
  \<open>keeper.NewKeeper\<close>, \<open>module/module.go\<close> and \<open>module/depinject.go\<close>: how the keeper gets its
  authority, and what the SDK calls at genesis and export.  The JSON codec at type
  \<open>GenesisState\<close> and the SDK's address functions are parameters.
\<close>

record genesis_json =
  marshalGenesis :: "GenesisState \<Rightarrow> err + bytes"
  unmarshalGenesis :: "bytes \<Rightarrow> err + GenesisState"

subsection \<open>The authority\<close>

definition NewKeeper :: "(bytes \<Rightarrow> err + string) \<Rightarrow> bytes \<Rightarrow> ('vk, 'b) ext \<Rightarrow> err + ('vk, 'b) ext" where
  "NewKeeper bytesToString auth E =
     (case bytesToString auth of
        Inl e \<Rightarrow> Inl (Panic ''invalid authority address'')
      | Inr _ \<Rightarrow> Inr (E\<lparr>authority := auth\<rparr>))"

definition GovModuleName :: string where
  "GovModuleName = ''gov''"

definition ConsensusVersion :: u64 where
  "ConsensusVersion = 1"

definition AppModule_Name :: string where
  "AppModule_Name = ModuleName"

text \<open>The messages registered with the codecs.\<close>

definition RegisterLegacyAminoCodec :: "string list" where
  "RegisterLegacyAminoCodec = [''nixpool/MsgRegister'', ''nixpool/MsgDeposit'', ''nixpool/MsgTransact'',
     ''nixpool/MsgUpdateParams'', ''nixpool/MsgSetVerificationKey'']"

text \<open>The hooks of a block do nothing.\<close>

definition BeginBlock :: "(store, unit) M" where
  "BeginBlock = returnM ()"

definition EndBlock :: "(store, unit) M" where
  "EndBlock = returnM ()"

subsection \<open>Genesis\<close>

text \<open>\<open>DefaultGenesis\<close> drops the error of the encoder: the result is then the nil slice.\<close>

definition Module_DefaultGenesis :: "genesis_json \<Rightarrow> bytes" where
  "Module_DefaultGenesis J = (case marshalGenesis J DefaultGenesisState of Inl e \<Rightarrow> [] | Inr bz \<Rightarrow> bz)"

definition Module_ValidateGenesis :: "genesis_json \<Rightarrow> bytes \<Rightarrow> err + unit" where
  "Module_ValidateGenesis J bz = bindE (unmarshalGenesis J bz) GenesisState_Validate"

definition Module_InitGenesis :: "genesis_json \<Rightarrow> ('vk, 'b) ext \<Rightarrow> bytes \<Rightarrow> (store, unit) M" where
  "Module_InitGenesis J E data = (\<lambda>s.
     case unmarshalGenesis J data of
       Inl e \<Rightarrow> (Inl (Panic ''failed to unmarshal genesis state''), s)
     | Inr gs \<Rightarrow> (case InitGenesis E gs s of
         (Inl e, t) \<Rightarrow> (Inl (if is_panic e then e else Panic ''failed to initialize genesis state''), t)
       | (Inr u, t) \<Rightarrow> (Inr (), t)))"

definition Module_ExportGenesis :: "genesis_json \<Rightarrow> ('vk, 'b) ext \<Rightarrow> store \<Rightarrow> err + bytes" where
  "Module_ExportGenesis J E s =
     (case ExportGenesis E s of
        Inl e \<Rightarrow> Inl (if is_panic e then e else Panic ''failed to export genesis state'')
      | Inr gs \<Rightarrow> (case marshalGenesis J gs of
          Inl e \<Rightarrow> Inl (if is_panic e then e else Panic ''failed to marshal genesis state'')
        | Inr bz \<Rightarrow> Inr bz))"

text \<open>Documented behaviour of the codec: a state it encodes is read back.\<close>

definition genesis_codec_law :: "genesis_json \<Rightarrow> bool" where
  "genesis_codec_law J \<longleftrightarrow> (\<forall>gs. \<exists>bz. marshalGenesis J gs = Inr bz \<and> unmarshalGenesis J bz = Inr gs)"

lemma Module_export_import:
  assumes "genesis_codec_law J" "ExportGenesis E s = Inr gs" "InitGenesis E gs t = (Inr (), t')"
  shows "\<exists>bz. Module_ExportGenesis J E s = Inr bz \<and> Module_InitGenesis J E bz t = (Inr (), t')"
proof -
  obtain bz where "marshalGenesis J gs = Inr bz" "unmarshalGenesis J bz = Inr gs"
    using assms(1) by (auto simp: genesis_codec_law_def)
  with assms(2,3) show ?thesis
    by (simp add: Module_ExportGenesis_def Module_InitGenesis_def)
qed

subsection \<open>A chain that starts from the default genesis\<close>

definition default_store :: "bytes \<Rightarrow> store" where
  "default_store bz = kv_set TreeCountKey (be64 0) (kv_set ActiveTreeIdKey (be64 0)
     (kv_set ParamsKeyBytes bz kv_empty))"

lemma InitGenesis_default:
  assumes "marshalParams E DefaultParams = Inr bz"
  shows "InitGenesis E DefaultGenesisState kv_empty = (Inr (), default_store bz)"
  using assms
  by (simp add: InitGenesis_def DefaultGenesisState_def SetParams_def init_reg_def default_store_def bindM_def)

lemma default_store_get:
  "kv_get (default_store bz) (skey_bytes k) =
     (if k = KTreeCount \<or> k = KActiveTreeId then Some (be64 0) else if k = KParams then Some bz else None)"
  "kv_has (default_store bz) (skey_bytes k) \<longleftrightarrow> k = KTreeCount \<or> k = KActiveTreeId \<or> k = KParams"
  by (auto simp: default_store_def)

lemma default_store_ok:
  shows "forest_ok E d (default_store bz) []"
    and "zero_hash_laws E \<Longrightarrow> reg_ok E (default_store bz) []"
    and "slots_only (default_store bz)"
    and "forest_index (default_store bz) 0"
proof -
  have none: "kv_get (default_store bz) (skey_bytes (slot_skey sl)) = None" for sl
    by (cases sl) (simp_all add: default_store_get)
  then have roots: "slot_root (default_store bz) = (\<lambda>_. None)"
    by (intro ext) (simp add: slot_root_def)
  then show f: "forest_ok E d (default_store bz) []"
    by (simp add: forest_ok_def tree_bound_def GetTreeCount_def GetActiveTreeId_def kv_u64_def default_store_get
        index_ok_def index_is_def index_entry_def holders_def root_slots_in_def)
  show "zero_hash_laws E \<Longrightarrow> reg_ok E (default_store bz) []"
    using empty_root [OF _ reg_depth_word(2,1), of E]
    by (simp add: reg_ok_def tree_rep_def frontier_inv_empty GetRegMerkleRoot_def default_store_get kv_u64_def)
  show "slots_only (default_store bz)"
    by (auto simp: slots_only_def default_store_def)
  show "forest_index (default_store bz) 0"
    using f none by (simp add: forest_index_def forest_ok_def index_inv_def roots_canonical_def)
qed

end
