(* ===== verification/HandlerSpec.thy ===== *)
theory HandlerSpec
  imports IndexInv
begin

section \<open>What the handlers mean for the trees and the bank\<close>

text \<open>
  The handlers' effects in the terms of the specifications: the note forest, the registration
  tree, and payments as numbers.  Used by the properties of the root theory.
\<close>

subsection \<open>Notes\<close>

lemma InsertNote_forest:
  fixes c :: bytes
  assumes f: "forest_ok E d s css" and dep: "depth_is E s d" and laws: "zero_hash_laws E"
    and room: "Suc (length css) < tree_bound" and run: "InsertNote E c s = (Inr (root, idx, tid), s')"
  shows "forest_ok E d s' (forest_insert d css c)" and "depth_is E s' d"
    and "root = frBytes (roots_of E d (last (forest_insert d css c)))"
    and "idx = of_nat (length (last (forest_insert d css c)) - 1)"
    and "tid = of_nat (length (forest_insert d css c) - 1)"
proof -
  have fresh: "SetBytes c \<notin> SetBytes ` set (concat css)"
  proof
    assume "SetBytes c \<in> SetBytes ` set (concat css)"
    from InsertNote_duplicate [OF f this] run show False by simp
  qed
  obtain s2 where run2: "InsertNote E c s =
      (Inr (frBytes (roots_of E d (last (forest_insert d css c))),
            of_nat (length (last (forest_insert d css c)) - 1),
            of_nat (length (forest_insert d css c) - 1)), s2)"
    and f2: "forest_ok E d s2 (forest_insert d css c)" and t2: "touches note_skeys s s2"
    using InsertNote_ok [OF f dep laws room fresh] .
  have "depth_is E s2 d" using depth_is_frame [OF t2, of E d] dep by simp
  then show "forest_ok E d s' (forest_insert d css c)" "depth_is E s' d"
    "root = frBytes (roots_of E d (last (forest_insert d css c)))"
    "idx = of_nat (length (last (forest_insert d css c)) - 1)"
    "tid = of_nat (length (forest_insert d css c) - 1)"
    using run run2 f2 by simp_all
qed

lemma forest_frame:
  assumes "forest_ok E d s css" "touches K s s'" "K \<inter> note_skeys = {}"
  shows "forest_ok E d s' css"
proof -
  have k: "x \<in> note_skeys \<Longrightarrow> x \<notin> K" for x using assms(3) by blast
  have sub: "tree_skeys t \<subseteq> note_skeys" for t by (auto simp: note_skeys_def)
  have trees: "note_tree E d s' (of_nat t) (css ! t)" if "t < length css" for t
    by (rule note_tree_frame [OF _ assms(2)]) (use assms(1) that sub assms(3) in \<open>auto simp: forest_ok_def\<close>)
  have idx: "index_ok s'" "root_slots_in s' (length css)"
    by (rule index_frame [OF assms(2), where m = "length css"];
        use assms(1) k in \<open>simp add: forest_ok_def note_skeys_forest\<close>)+
  have "kv_has s' (skey_bytes (KCommitmentUsed x)) = kv_has s (skey_bytes (KCommitmentUsed x))" for x
    using touches_has [OF assms(2) k, of "KCommitmentUsed x"] by (simp add: note_skeys_def)
  moreover have "GetTreeCount s' = GetTreeCount s" "GetActiveTreeId s' = GetActiveTreeId s"
    using touches_u64 [OF assms(2) k, of KTreeCount] touches_u64 [OF assms(2) k, of KActiveTreeId]
    by (simp_all add: GetTreeCount_def GetActiveTreeId_def note_skeys_def)
  ultimately show ?thesis using assms(1) trees idx by (simp add: forest_ok_def)
qed

lemma length_forest_insert: "length (forest_insert d css c) \<le> Suc (length css)"
  by (simp add: forest_insert_def Let_def)

lemma output_forest:
  assumes "output_inserted E h s acc s' acc'" "forest_ok E d s css" "depth_is E s d" "zero_hash_laws E"
    and "Suc (length css) < tree_bound"
  defines "css' \<equiv> (if isZeroBytes h then css else forest_insert d css h)"
  shows "forest_ok E d s' css'" and "depth_is E s' d" and "length css' \<le> Suc (length css)"
  using assms InsertNote_forest [OF assms(2-5)] length_forest_insert [of d css h]
  by (auto simp: output_inserted_def split: if_splits)

text \<open>The forest after a transact: its non-zero outputs appended in order.\<close>

definition forest_after :: "nat \<Rightarrow> bytes list list \<Rightarrow> bytes list \<Rightarrow> bytes list list" where
  "forest_after d css hs = foldl (forest_insert d) css hs"

lemma Transact_forest:
  assumes run: "Transact E msg c = (Inr r, c')" and f: "forest_ok E d (kv c) css"
    and dep: "depth_is E (kv c) d" and laws: "zero_hash_laws E"
    and room: "Suc (Suc (length css)) < tree_bound"
  shows "forest_ok E d (kv c') (forest_after d css (output_notes msg))"
proof -
  obtain s1 s2 acc where
    s1: "s1 = mark_input (Nullifiers msg ! 1) (mark_input (Nullifiers msg ! 0) (kv c))"
    and len: "2 \<le> length (Outputs msg)"
    and out: "output_inserted E (NoteHash (Outputs msg ! 0)) s1 ([], []) s2 acc"
      "output_inserted E (NoteHash (Outputs msg ! 1)) s2 acc (kv c') r"
    using run by (rule Transact_success) blast
  have t1: "touches (range KNullifier) (kv c) s1"
    unfolding s1 by (rule touch.R_trans [OF mark_input_touches mark_input_touches])
  have f1: "forest_ok E d s1 css" by (rule forest_frame [OF f t1]) (auto simp: note_skeys_def tree_skeys_def)
  have d1: "depth_is E s1 d" using depth_is_frame [OF t1, of E d] dep by auto
  let ?css2 = "if isZeroBytes (NoteHash (Outputs msg ! 0)) then css
    else forest_insert d css (NoteHash (Outputs msg ! 0))"
  have "Suc (length css) < tree_bound" using room by simp
  from output_forest [OF out(1) f1 d1 laws this]
  have f2: "forest_ok E d s2 ?css2" and d2: "depth_is E s2 d" and l2: "length ?css2 \<le> Suc (length css)" .
  have "Suc (length ?css2) < tree_bound" using l2 room by linarith
  from output_forest(1) [OF out(2) f2 d2 laws this] show ?thesis
    by (auto simp: output_notes_def take_2 [OF len] forest_after_def split: if_splits)
qed

lemma Deposit_forest:
  assumes run: "Deposit E msg c = (Inr (idx, root), c')" and f: "forest_ok E d (kv c) css"
    and dep: "depth_is E (kv c) d" and laws: "zero_hash_laws E"
    and room: "Suc (length css) < tree_bound"
  shows "forest_ok E d (kv c') (forest_insert d css (dep_NoteCommitment msg))"
    and "root = frBytes (roots_of E d (last (forest_insert d css (dep_NoteCommitment msg))))"
    and "idx = of_nat (length (last (forest_insert d css (dep_NoteCommitment msg))) - 1)"
proof -
  obtain tid s' where ins: "InsertNote E (dep_NoteCommitment msg) (kv c) = (Inr (root, idx, tid), s')"
    and kv: "kv c' = auditor_kv E (txBytes c) (dep_AuditorEncryptedData msg) s'"
    using run by (rule Deposit_success) blast
  note ok = InsertNote_forest [OF f dep laws room ins]
  show "forest_ok E d (kv c') (forest_insert d css (dep_NoteCommitment msg))"
    unfolding kv by (rule forest_frame [OF ok(1) touches_auditor]) (auto simp: note_skeys_def tree_skeys_def)
  show "root = frBytes (roots_of E d (last (forest_insert d css (dep_NoteCommitment msg))))"
    "idx = of_nat (length (last (forest_insert d css (dep_NoteCommitment msg))) - 1)"
    by (fact ok)+
qed

subsection \<open>Payments as numbers\<close>

text \<open>\<open>n\<close> coins of the denomination, from the pool's account to an address; nothing for 0.\<close>

definition payout :: "('vk, 'b) ext \<Rightarrow> params \<Rightarrow> string \<Rightarrow> string \<Rightarrow> int \<Rightarrow> 'b \<Rightarrow> 'b \<Rightarrow> bool" where
  "payout E p denom addr n b b' \<longleftrightarrow>
     (if n = 0 then b' = b
      else \<exists>recipient coins. denom \<in> set (SupportedDenoms p) \<and> accAddress E addr = Inr recipient \<and>
        newCoins E denom n = Inr coins \<and>
        sendFromModule E ModuleName recipient coins b = (Inr (), b'))"

lemma fr_val_small: "0 \<le> n \<Longrightarrow> n < 2 ^ 64 \<Longrightarrow> fr_val (fr_of_int n) = n"
  by (simp add: fr_val_of_int fr_modulus_def)

lemma paid_payout:
  assumes "paid E s v denom addr b b'" "amount_ok E v" "amount_element E v = Inr x"
    and "GetParams E s = Inr p"
  shows "payout E p denom addr (fr_val x) b b'"
proof (cases "v = '''' \<or> v = ''0''")
  case True
  with assms show ?thesis by (auto simp: paid_def payout_def amount_element_Inr_iff)
next
  case False
  with assms(2,3) obtain n where n: "parseInt E v = Some n" "0 \<le> n" "n < 2 ^ 64" "x = fr_of_int n"
    by (auto simp: amount_ok_def amount_element_Inr_iff)
  with fr_val_small have "fr_val x = n" by blast
  with n assms(1,4) False show ?thesis by (auto simp: paid_def payout_def)
qed

subsection \<open>When a deposit and a registration succeed\<close>

text \<open>Evaluation of a handler step by step.\<close>

lemma bind_eval: "m s = (Inr x, t) \<Longrightarrow> f x t = r \<Longrightarrow> bindM m f s = r"
  by (simp add: bindM_def)

lemma Deposit_runs:
  assumes p: "GetParams E (kv c) = Inr p" and aud: "auditor_served p (dep_AuditorEncryptedData msg)"
    and parse: "ParsePublicInputs (dep_PublicInputs msg) = Inr xs"
    and amt: "parseInt E (dep_Amount msg) = Some amt" and cb: "ChainBinding p \<noteq> []"
    and ver: "VerifyDepositPublicInputs E xs (dep_NoteCommitment msg) amt (dep_Denom msg) p = Inr ()"
    and acc: "proof_accepted E (kv c) ''deposit'' (dep_Proof msg) xs" and gas: "gasOk E (gasLog c @ [verify_charge])"
    and den: "dep_Denom msg \<in> set (SupportedDenoms p)" and snd: "accAddress E (dep_Sender msg) = Inr sender"
    and coins: "newCoins E (dep_Denom msg) amt = Inr coins"
    and bnk: "sendToModule E sender ModuleName coins (bank c) = (Inr (), b)"
    and ins: "InsertNote E (dep_NoteCommitment msg) (kv c) = (Inr (root, idx, tid), s)"
  shows "Deposit E msg c = (Inr (idx, root), c\<lparr>gasLog := gasLog c @ [verify_charge], bank := b,
    kv := auditor_kv E (txBytes c) (dep_AuditorEncryptedData msg) s,
    emitted := emitted c @ [commitment_event EventTypeDeposit (dep_NoteCommitment msg) root idx]\<rparr>)"
proof -
  let ?c = "c\<lparr>gasLog := gasLog c @ [verify_charge]\<rparr>"
  have cb': "(length (ChainBinding p) = 0) = False" using cb by simp
  show ?thesis
    unfolding Deposit_def
    apply (rule bind_eval [where x = "()" and t = c], simp add: enforceAuditor_Inr_iff p aud)
    apply (rule bind_eval [where x = xs and t = c], simp add: parse)
    apply (rule bind_eval [where x = amt and t = c], simp add: amt)
    apply (rule bind_eval [where x = p and t = c], simp add: p readKV_def)
    apply (simp only: cb' if_False)
    apply (rule bind_eval [where x = "()" and t = c], simp add: ver)
    apply (rule bind_eval [where x = "()" and t = ?c], simp add: VerifyProof_Inr_iff acc gas)
    apply (rule bind_eval [where x = "()" and t = ?c], simp add: checkDenom_Inr_iff p den)
    apply (rule bind_eval [where x = sender and t = ?c], simp add: snd)
    apply (rule bind_eval [where x = coins and t = ?c], simp add: MsgDeposit_Coin_def amt coins)
    apply (rule bind_eval [where x = "()" and t = "?c\<lparr>bank := b\<rparr>"], simp add: onBank_Inr_iff bnk)
    apply (rule bind_eval [where x = "(root, idx, tid)" and t = "?c\<lparr>bank := b, kv := s\<rparr>"],
        simp add: onKV_Inr_iff ins)
    apply (simp add: bindM_def EmitEvent_def)
    done
qed

lemma Register_runs:
  assumes p: "GetParams E (kv c) = Inr p" and aud: "auditor_served p (reg_AuditorEncryptedData msg)"
    and parse: "ParsePublicInputs (reg_PublicInputs msg) = Inr xs"
    and ver: "VerifyRegisterPublicInputs xs (reg_IdentityCommitment msg) p = Inr ()"
    and acc: "proof_accepted E (kv c) ''registration'' (reg_Proof msg) xs"
    and gas: "gasOk E (gasLog c @ [verify_charge])"
    and ins: "InsertRegCommitment E (reg_IdentityCommitment msg) (kv c) = (Inr (root, idx), s)"
  shows "Register E msg c = (Inr (idx, root), c\<lparr>gasLog := gasLog c @ [verify_charge],
    kv := auditor_kv E (txBytes c) (reg_AuditorEncryptedData msg) s,
    emitted := emitted c @ [commitment_event EventTypeRegister (reg_IdentityCommitment msg) root idx]\<rparr>)"
proof -
  let ?c = "c\<lparr>gasLog := gasLog c @ [verify_charge]\<rparr>"
  show ?thesis
    unfolding Register_def
    apply (rule bind_eval [where x = "()" and t = c], simp add: enforceAuditor_Inr_iff p aud)
    apply (rule bind_eval [where x = xs and t = c], simp add: parse)
    apply (rule bind_eval [where x = p and t = c], simp add: p readKV_def)
    apply (rule bind_eval [where x = "()" and t = c], simp add: ver)
    apply (rule bind_eval [where x = "()" and t = ?c], simp add: VerifyProof_Inr_iff acc gas)
    apply (rule bind_eval [where x = "(root, idx)" and t = "?c\<lparr>kv := s\<rparr>"], simp add: onKV_Inr_iff ins)
    apply (simp add: bindM_def EmitEvent_def)
    done
qed

end
