(* ===== verification/Pool.thy ===== *)
theory Pool
  imports HandlerSpec
begin

section \<open>The abstract pool\<close>

text \<open>
  What the module promises to keep, without keys, frontiers, ring buffers and reference counts:
  the trees of notes and the registered identities as append-only lists, the spent nullifiers as
  a set of field elements.  \<open>pool_accepts\<close> is the condition under which a message may change it,
  \<open>pool_step\<close> the change.  Every run of the handlers on a store that represents a pool is a run of
  the abstract one: the store then represents the pool the abstract run ends in.
\<close>

record pool =
  trees :: "bytes list list"
  identities :: "bytes list"
  spent :: "fr set"

definition empty_pool :: pool where
  "empty_pool = \<lparr>trees = [], identities = [], spent = {}\<rparr>"

subsection \<open>The abstract machine\<close>

definition root_known :: "('vk, 'b) ext \<Rightarrow> nat \<Rightarrow> pool \<Rightarrow> bytes \<Rightarrow> bool" where
  "root_known E d P root \<longleftrightarrow> root = zeroRootBytes E DefaultTreeDepth \<or>
     root \<noteq> [] \<and> SetBytes root \<in> set (live_roots E d (trees P))"

text \<open>New as field elements: pairwise different and none in the list.\<close>

definition all_new :: "bytes list \<Rightarrow> bytes list \<Rightarrow> bool" where
  "all_new cs old \<longleftrightarrow> distinct (map SetBytes cs) \<and> (\<forall>c \<in> set cs. SetBytes c \<notin> SetBytes ` set old)"

fun pool_accepts :: "('vk, 'b) ext \<Rightarrow> nat \<Rightarrow> message \<Rightarrow> pool \<Rightarrow> bool" where
  "pool_accepts E d (TxRegister m) P \<longleftrightarrow>
     all_new [reg_IdentityCommitment m] (identities P) \<and> length (identities P) < 2 ^ reg_depth"
| "pool_accepts E d (TxDeposit m) P \<longleftrightarrow> all_new [dep_NoteCommitment m] (concat (trees P))"
| "pool_accepts E d (TxTransact m) P \<longleftrightarrow>
     RegistrationRoot m = frBytes (roots_of E reg_depth (identities P)) \<and>
     distinct (spends m) \<and> set (spends m) \<inter> spent P = {} \<and>
     (\<forall>i < 2. \<not> isZeroBytes (Nullifiers m ! i) \<longrightarrow> root_known E d P (MerkleRoots m ! i)) \<and>
     all_new (output_notes m) (concat (trees P))"
| "pool_accepts E d _ P \<longleftrightarrow> True"

fun pool_step :: "nat \<Rightarrow> message \<Rightarrow> pool \<Rightarrow> pool" where
  "pool_step d (TxRegister m) P = P\<lparr>identities := identities P @ [reg_IdentityCommitment m]\<rparr>"
| "pool_step d (TxDeposit m) P = P\<lparr>trees := forest_insert d (trees P) (dep_NoteCommitment m)\<rparr>"
| "pool_step d (TxTransact m) P =
     P\<lparr>trees := forest_after d (trees P) (output_notes m), spent := spent P \<union> set (spends m)\<rparr>"
| "pool_step d _ P = P"

fun pool_exec :: "('vk, 'b) ext \<Rightarrow> nat \<Rightarrow> message list \<Rightarrow> pool \<Rightarrow> pool option" where
  "pool_exec E d [] P = Some P"
| "pool_exec E d (m # ms) P =
     (if pool_accepts E d m P then pool_exec E d ms (pool_step d m P) else None)"

subsection \<open>Representation\<close>

definition represents :: "('vk, 'b) ext \<Rightarrow> nat \<Rightarrow> store \<Rightarrow> pool \<Rightarrow> bool" where
  "represents E d s P \<longleftrightarrow> zero_hash_laws E \<and> depth_is E s d \<and> forest_ok E d s (trees P) \<and>
     reg_ok E s (identities P) \<and> (\<forall>x. nullifier_spent s x \<longleftrightarrow> x \<in> spent P)"

text \<open>A message that leaves the depth of the trees as it is: parameters that are set have the same
  depth and are read back as they were written.\<close>

fun keeps_depth :: "('vk, 'b) ext \<Rightarrow> nat \<Rightarrow> message \<Rightarrow> bool" where
  "keeps_depth E d (TxUpdateParams u) \<longleftrightarrow>
     (\<exists>p. up_Params u = Some p \<and> unat (effective_depth p) = d \<and> json_law E p)"
| "keeps_depth E d _ \<longleftrightarrow> True"

lemma spent_step:
  assumes "step E m c c'" "\<forall>x. nullifier_spent (kv c) x \<longleftrightarrow> x \<in> S"
  shows "distinct (message_spends m)" "set (message_spends m) \<inter> S = {}"
    "\<forall>x. nullifier_spent (kv c') x \<longleftrightarrow> x \<in> S \<union> set (message_spends m)"
  using step_nullifiers [OF assms(1)] assms(2) by auto

lemma depth_step:
  assumes "step E m c c'" "depth_is E (kv c) d" "keeps_depth E d m"
  shows "depth_is E (kv c') d"
proof (cases "\<exists>u. m = TxUpdateParams u")
  case True
  then obtain u where m: "m = TxUpdateParams u" by blast
  with assms(1) have run: "UpdateParams E u c = (Inr (), c')" by (auto elim: step_paramsE)
  obtain p where p: "up_Params u = Some p" "unat (effective_depth p) = d" "json_law E p"
    using assms(3) m by auto
  obtain bz where bz: "marshalParams E p = Inr bz" "c' = c\<lparr>kv := kv_set ParamsKeyBytes bz (kv c)\<rparr>"
    using run p(1) by (auto simp: UpdateParams_Inr_iff)
  have "GetParams E (kv c') = Inr p" using bz p(3) by (simp add: GetParams_def json_law_def)
  with p assms(2) show ?thesis by (simp add: depth_is_def)
next
  case False
  have "KParams \<notin> message_skeys m" using False by (cases m) auto
  from depth_is_frame [OF step_touches [OF assms(1)] this, of E d] assms(2) show ?thesis by simp
qed

lemma message_skeys_apart:
  "message_skeys (TxRegister m) \<inter> note_skeys = {}"
  "message_skeys (TxDeposit m') \<inter> reg_skeys = {}" "message_skeys (TxTransact m'') \<inter> reg_skeys = {}"
  "message_skeys (TxUpdateParams u) \<inter> reg_skeys = {}" "message_skeys (TxUpdateParams u) \<inter> note_skeys = {}"
  "message_skeys (TxSetVK v) \<inter> reg_skeys = {}" "message_skeys (TxSetVK v) \<inter> note_skeys = {}"
  by (auto simp: note_skeys_def tree_skeys_def reg_skeys_def)

lemma reg_length: "reg_ok E s cs \<Longrightarrow> length cs \<le> 2 ^ reg_depth"
  by (simp add: reg_ok_def tree_rep_def)

lemma register_step:
  assumes run: "Register E m c = (Inr (idx, root), c')" and reg: "reg_ok E (kv c) cs" and laws: "zero_hash_laws E"
  shows "all_new [reg_IdentityCommitment m] cs" "length cs < 2 ^ reg_depth"
    "reg_ok E (kv c') (cs @ [reg_IdentityCommitment m])"
proof -
  let ?c = "reg_IdentityCommitment m"
  obtain s' where ins: "InsertRegCommitment E ?c (kv c) = (Inr (root, idx), s')"
    and kv: "kv c' = auditor_kv E (txBytes c) (reg_AuditorEncryptedData m) s'"
    using run by (rule Register_success) blast
  have new: "SetBytes ?c \<notin> SetBytes ` set cs"
    using InsertRegCommitment_duplicate [OF reg, of ?c] ins by auto
  then show "all_new [?c] cs" by (simp add: all_new_def)
  have "length cs \<noteq> 2 ^ reg_depth"
    using InsertRegCommitment_full [OF reg _ new] ins by auto
  with reg_length [OF reg] show len: "length cs < 2 ^ reg_depth" by simp
  obtain s2 where "InsertRegCommitment E ?c (kv c) =
      (Inr (frBytes (roots_of E reg_depth (cs @ [?c])), of_nat (length cs)), s2)"
    and r2: "reg_ok E s2 (cs @ [?c])"
    using InsertRegCommitment_ok [OF reg laws len new] by blast
  with ins have "s2 = s'" by simp
  with r2 show "reg_ok E (kv c') (cs @ [?c])"
    unfolding kv by (intro reg_frame [OF _ touches_auditor]) (auto simp: reg_skeys_def)
qed

lemma forest_new:
  "forest_ok E d s css \<Longrightarrow> distinct (map SetBytes cs) \<Longrightarrow> (\<forall>x \<in> SetBytes ` set cs. \<not> note_used s x) \<Longrightarrow>
     all_new cs (concat css)"
  by (auto simp: all_new_def forest_ok_def note_used_def)

lemma transact_guard:
  assumes run: "Transact E m c = (Inr r, c')" and rep: "represents E d (kv c) P"
  shows "pool_accepts E d (TxTransact m) P"
proof -
  have f: "forest_ok E d (kv c) (trees P)" and g: "reg_ok E (kv c) (identities P)"
    and sp: "\<forall>x. nullifier_spent (kv c) x \<longleftrightarrow> x \<in> spent P" using rep by (simp_all add: represents_def)
  have reg: "GetRegMerkleRoot E (kv c) = RegistrationRoot m"
    and roots: "\<forall>i < 2. \<not> isZeroBytes (Nullifiers m ! i) \<longrightarrow>
      IsValidRootAnyTree E (kv c) (MerkleRoots m ! i) = Inr True"
    using run by (rule Transact_success, blast)+
  have "RegistrationRoot m = frBytes (roots_of E reg_depth (identities P))"
    using reg g by (simp add: reg_ok_def)
  moreover have "\<forall>i < 2. \<not> isZeroBytes (Nullifiers m ! i) \<longrightarrow> root_known E d P (MerkleRoots m ! i)"
    using roots by (simp add: valid_roots_window [OF f] root_known_def)
  moreover have "all_new (output_notes m) (concat (trees P))"
    using Transact_notes [OF run] by (intro forest_new [OF f]) blast+
  ultimately show ?thesis using spent_step [OF step_transact [OF run] sp] by simp
qed

lemma represents_step:
  assumes st: "step E m c c'" and rep: "represents E d (kv c) P" and keep: "keeps_depth E d m"
    and room: "Suc (Suc (length (trees P))) < tree_bound"
  shows "pool_accepts E d m P \<and> represents E d (kv c') (pool_step d m P)"
proof -
  have laws: "zero_hash_laws E" and dep: "depth_is E (kv c) d" and f: "forest_ok E d (kv c) (trees P)"
    and g: "reg_ok E (kv c) (identities P)" and sp: "\<forall>x. nullifier_spent (kv c) x \<longleftrightarrow> x \<in> spent P"
    using rep by (simp_all add: represents_def)
  note dep' = depth_step [OF st dep keep] and sp' = spent_step(3) [OF st sp] and t = step_touches [OF st]
  show ?thesis
  proof (cases m)
    case (TxRegister rm)
    with st obtain idx root where run: "Register E rm c = (Inr (idx, root), c')" by (auto elim: step_registerE)
    from register_step [OF run g laws] forest_frame [OF f t] laws dep' sp' TxRegister message_skeys_apart(1)
    show ?thesis by (simp add: represents_def)
  next
    case (TxDeposit dm)
    with st obtain idx root where run: "Deposit E dm c = (Inr (idx, root), c')" by (auto elim: step_depositE)
    have "Suc (length (trees P)) < tree_bound" using room by simp
    from Deposit_forest(1) [OF run f dep laws this] reg_frame [OF g t] laws dep' sp' TxDeposit message_skeys_apart(2)
      step_notes [OF st]
    show ?thesis using forest_new [OF f, of "[dep_NoteCommitment dm]"] by (simp add: represents_def)
  next
    case (TxTransact tm)
    with st obtain r where run: "Transact E tm c = (Inr r, c')" by (auto elim: step_transactE)
    from transact_guard [OF run rep] Transact_forest [OF run f dep laws room] reg_frame [OF g t] laws dep' sp'
      TxTransact message_skeys_apart(3)
    show ?thesis by (simp add: represents_def)
  qed (use forest_frame [OF f t] reg_frame [OF g t] laws dep' sp' message_skeys_apart in \<open>simp_all add: represents_def\<close>)
qed

subsection \<open>Runs\<close>

text \<open>
  The contract between the messages and an abstract machine that runs them: one step of a message
  is one step of the machine, as long as the machine has room, and no step takes more than two
  places.  Then every run of messages is a run of the machine.
\<close>

locale abstract_machine =
  fixes E :: "('vk, 'b) ext" and rep :: "store \<Rightarrow> 'p \<Rightarrow> bool" and admits :: "message \<Rightarrow> bool"
    and accepts :: "message \<Rightarrow> 'p \<Rightarrow> bool" and effect :: "message \<Rightarrow> 'p \<Rightarrow> 'p"
    and exec :: "message list \<Rightarrow> 'p \<Rightarrow> 'p option" and used :: "'p \<Rightarrow> nat" and bound :: nat
  assumes step_refines: "step E m c c' \<Longrightarrow> rep (kv c) P \<Longrightarrow> admits m \<Longrightarrow> used P + 2 < bound \<Longrightarrow>
      accepts m P \<and> rep (kv c') (effect m P)"
    and effect_used: "used (effect m P) \<le> used P + 2"
    and exec_simps: "exec [] P = Some P"
      "exec (m # ms) P = (if accepts m P then exec ms (effect m P) else None)"
begin

lemma runs_refine:
  assumes "runs E ms s t" "rep s P" "\<forall>m \<in> set ms. admits m" "used P + 2 * length ms < bound"
  shows "\<exists>Q. exec ms P = Some Q \<and> rep t Q \<and> used Q \<le> used P + 2 * length ms"
  using assms
proof (induction arbitrary: P rule: runs.induct)
  case (runs_nil s)
  then show ?case by (simp add: exec_simps)
next
  case (runs_cons c s m c' ms t)
  have room: "used P + 2 < bound" using runs_cons.prems(3) by simp
  have st: "accepts m P" "rep (kv c') (effect m P)"
    using step_refines [OF runs_cons.hyps(2) _ _ room] runs_cons.prems(1,2) runs_cons.hyps(1) by simp_all
  have u: "used (effect m P) + 2 * length ms < bound"
    using effect_used [of m P] runs_cons.prems(3) by simp
  have "\<forall>m \<in> set ms. admits m" using runs_cons.prems(2) by simp
  from runs_cons.IH [OF st(2) this u] obtain Q where
    "exec ms (effect m P) = Some Q" "rep t Q" "used Q \<le> used (effect m P) + 2 * length ms" by blast
  with st(1) effect_used [of m P] show ?case by (simp add: exec_simps)
qed

end

lemma length_forest_after: "length (forest_after d css hs) \<le> length css + length hs"
proof (induction hs arbitrary: css)
  case (Cons h hs)
  from Cons.IH [of "forest_insert d css h"] length_forest_insert [of d css h]
  show ?case by (simp add: forest_after_def)
qed (simp add: forest_after_def)

lemma length_output_notes: "length (output_notes m) \<le> 2"
  using length_filter_le [of "\<lambda>h. \<not> isZeroBytes h" "map NoteHash (take 2 (Outputs m))"]
  by (simp add: output_notes_def)

lemma pool_step_trees: "length (trees (pool_step d m P)) \<le> length (trees P) + 2"
proof (cases m)
  case (TxDeposit dm)
  with length_forest_insert [of d "trees P" "dep_NoteCommitment dm"] show ?thesis by simp
next
  case (TxTransact tm)
  with length_forest_after [of d "trees P" "output_notes tm"] length_output_notes [of tm] show ?thesis by simp
qed simp_all

interpretation poolMachine: abstract_machine E "represents E d" "keeps_depth E d" "pool_accepts E d"
  "pool_step d" "pool_exec E d" "\<lambda>P. length (trees P)" tree_bound for E d
  by unfold_locales (simp add: represents_step, rule pool_step_trees, simp_all)

subsection \<open>Trees only grow\<close>

lemma forest_insert_nth:
  assumes "k < length css"
  shows "k < length (forest_insert d css c) \<and>
    (\<exists>ys. forest_insert d css c ! k = css ! k @ ys \<and> length ys \<le> 1)"
proof -
  obtain us xs where css: "css = us @ [xs]" using assms by (cases css rule: rev_cases) auto
  show ?thesis
    using assms by (auto simp: css forest_insert_def Let_def nth_append less_Suc_eq)
qed

lemma forest_after_nth:
  "k < length css \<Longrightarrow> k < length (forest_after d css hs) \<and>
     (\<exists>ys. forest_after d css hs ! k = css ! k @ ys \<and> length ys \<le> length hs)"
proof (induction hs arbitrary: css)
  case Nil
  then show ?case by (simp add: forest_after_def)
next
  case (Cons h hs)
  obtain ys where k: "k < length (forest_insert d css h)"
    and ys: "forest_insert d css h ! k = css ! k @ ys" "length ys \<le> 1"
    using forest_insert_nth [OF Cons.prems, of d h] by blast
  from Cons.IH [OF k] ys show ?case by (auto simp: forest_after_def)
qed

definition notes_in :: "message list \<Rightarrow> nat" where
  "notes_in ms = length (concat (map message_notes ms))"

lemma pool_step_nth:
  assumes "k < length (trees P)"
  shows "k < length (trees (pool_step d m P)) \<and>
    (\<exists>ys. trees (pool_step d m P) ! k = trees P ! k @ ys \<and> length ys \<le> length (message_notes m))"
  using forest_insert_nth [OF assms] forest_after_nth [OF assms] assms by (cases m) auto

lemma pool_exec_nth:
  "pool_exec E d ms P = Some Q \<Longrightarrow> k < length (trees P) \<Longrightarrow> k < length (trees Q) \<and>
     (\<exists>ys. trees Q ! k = trees P ! k @ ys \<and> length ys \<le> notes_in ms)"
proof (induction ms arbitrary: P)
  case Nil
  then show ?case by (simp add: notes_in_def)
next
  case (Cons m ms)
  then have ex: "pool_exec E d ms (pool_step d m P) = Some Q" by (simp split: if_splits)
  obtain ys where k: "k < length (trees (pool_step d m P))"
    and ys: "trees (pool_step d m P) ! k = trees P ! k @ ys" "length ys \<le> length (message_notes m)"
    using pool_step_nth [OF Cons.prems(2), of d m] by blast
  from Cons.IH [OF ex k] ys show ?case by (auto simp: notes_in_def)
qed

text \<open>A root is in the window of its tree while fewer than a hundred leaves follow it.\<close>

lemma window_member:
  assumes "xs \<noteq> []" "length ys < 100"
  shows "roots_of E d xs \<in> set (window_roots E d (xs @ ys))"
proof -
  let ?j = "length xs - 1"
  have "?j \<in> set [length (xs @ ys) - 100..<length (xs @ ys)]" using assms by (cases xs) auto
  moreover have "roots_of E d (take (Suc ?j) (xs @ ys)) = roots_of E d xs" using assms(1) by (cases xs) simp_all
  ultimately show ?thesis unfolding window_roots_def by (metis (no_types, lifting) image_eqI list.set_intros(2) set_map)
qed

lemma tree_length:
  assumes "forest_ok E d s css" "k < length css"
  shows "length (css ! k) \<le> 2 ^ d"
  using assms by (auto simp: forest_ok_def note_tree_def tree_rep_def)

lemma root_stays_known:
  assumes ex: "pool_exec E d ms P = Some Q" and k: "k < length (trees P)" and ne: "trees P ! k \<noteq> []"
    and rep: "represents E d t Q"
    and live: "notes_in ms < 100 \<or> 2 ^ d < length (trees P ! k) + 100"
  shows "IsValidRootAnyTree E t (frBytes (roots_of E d (trees P ! k))) = Inr True"
proof -
  have f: "forest_ok E d t (trees Q)" using rep by (simp add: represents_def)
  obtain ys where k': "k < length (trees Q)" and ys: "trees Q ! k = trees P ! k @ ys" "length ys \<le> notes_in ms"
    using pool_exec_nth [OF ex k] by blast
  have "length (trees P ! k @ ys) \<le> 2 ^ d" using tree_length [OF f k'] ys(1) by simp
  with live ys(2) have "length ys < 100" by auto
  from window_member [OF ne this] have "roots_of E d (trees P ! k) \<in> set (window_roots E d (trees Q ! k))"
    by (simp only: ys(1))
  then have "roots_of E d (trees P ! k) \<in> set (live_roots E d (trees Q))"
    unfolding live_roots_def using nth_mem [OF k'] by (simp only: set_concat set_map) blast
  then show ?thesis by (simp add: valid_roots_window [OF f])
qed

end
