(* ===== verification/Instances.thy ===== *)
theory Instances
  imports HandlerSpec
begin

section \<open>Concrete instances\<close>

text \<open>
  Concrete packages, parameters, stores and messages at which the properties are applied: a
  ledger of payments for the bank, addition for the hash, a verifier that accepts every proof but
  the empty one.
\<close>

type_synonym ledger = "(string \<times> bytes \<times> (string \<times> int) list) list"

definition params1 :: params where
  "params1 = \<lparr>TreeDepth = 3, RegTreeDepth = 20, AuditorPubKey = [],
     SupportedDenoms = [''anix''], ChainBinding = [7]\<rparr>"

definition ext1 :: "(bytes, ledger) ext" where
  "ext1 = \<lparr>hash2 = (\<lambda>a b. a + b), hashN = sum_list, zeroHash = (\<lambda>L. 0),
     prefixEnd = (\<lambda>p. butlast p @ [last p + 1]), nilValueOk = False,
     marshalParams = (\<lambda>p. Inr (be32 (TreeDepth p))),
     unmarshalParams = (\<lambda>bz. Inr (if bz = be32 5 then params1\<lparr>TreeDepth := 5\<rparr> else params1)),
     deserializeVK = (\<lambda>bz. Inr bz), deserializeBB = (\<lambda>bz. Inr bz), serializeVK = (\<lambda>vk. Inr vk),
     ultraVerify = (\<lambda>vk proof xs. Inr (proof \<noteq> [])),
     parseInt = (\<lambda>v. if v = ''5'' then Some 5 else if v = ''2'' then Some 2 else None),
     validateDenom = (\<lambda>d. Inr ()),
     newCoins = (\<lambda>d a. Inr [(d, a)]),
     accAddress = (\<lambda>a. Inr (bytes_of a)), addrToBytes = (\<lambda>a. Inr (bytes_of a)),
     moduleAddress = [1, 2, 3],
     sendToModule = (\<lambda>from m coins b. (Inr (), b @ [(''in'', from, coins)])),
     sendFromModule = (\<lambda>m recipient coins b. (Inr (), b @ [(''out'', recipient, coins)])),
     sha256 = (\<lambda>b. b), gasOk = (\<lambda>g. True), authority = bytes_of ''gov''\<rparr>"

definition store1 :: store where
  "store1 = kv_set (VKKey ''transact'') [9] (kv_set (VKKey ''deposit'') [9]
     (kv_set (VKKey ''registration'') [9] (kv_set ParamsKeyBytes [1] kv_empty)))"

definition chain1 :: "ledger chain" where
  "chain1 = \<lparr>kv = store1, bank = [], gasLog = [], emitted = [], txBytes = [4]\<rparr>"

definition zero32 :: bytes where
  "zero32 = replicate 32 0"

definition elem32 :: "byte \<Rightarrow> bytes" where
  "elem32 b = replicate 31 0 @ [b]"

definition no_output :: OutputNote where
  "no_output = \<lparr>NoteHash = zero32, EphemeralX = [], EphemeralY = [], EncAmount = [], EncSalt = [],
     AuditorEnc = [], AuditorAuthKeyX = [], AuditorAuthKeyY = [], AuditorEncRecipient = []\<rparr>"

text \<open>A withdrawal: one nullifier, no outputs, five coins out and a fee of two.\<close>

definition transact1 :: MsgTransact where
  "transact1 = \<lparr>tx_Sender = ''relay'', Nullifiers = [elem32 8, zero32],
     MerkleRoots = [zero32, zero32], Outputs = [no_output, no_output],
     WithdrawAmount = ''5'', WithdrawAddress = ''bob'', tx_Denom = ''anix'',
     RegistrationRoot = zero32, RelayerFee = ''2'', tx_Proof = [1]\<rparr>"

lemma be_bytes_zero: "be_bytes n 0 = replicate n 0"
  by (induction n) (simp_all flip: replicate_append_same)

lemma be_nat_zeros [simp]: "be_nat (replicate n 0) = 0"
  by (induction n) (simp_all add: be_nat_Cons)

lemma frBytes_zero: "frBytes 0 = zero32"
  by (simp add: frBytes_def zero32_def be_bytes_zero)

lemma SetBytes_elem32: "SetBytes (elem32 b) = fr_of_int (int (unat b))"
  by (simp add: SetBytes_def elem32_def be_nat_snoc)

lemma elem32_not_zero: "b \<noteq> 0 \<Longrightarrow> \<not> isZeroBytes (elem32 b)"
proof -
  have "zero32 = replicate 31 0 @ [0]" by (simp add: zero32_def replicate_append_same flip: replicate_Suc)
  then show "b \<noteq> 0 \<Longrightarrow> \<not> isZeroBytes (elem32 b)"
    by (simp add: isZeroBytes_def elem32_def zero32_def)
qed

lemma ext1_laws: "zero_hash_laws ext1"
  by (simp add: zero_hash_laws_def ext1_def)

lemma byte_less_Suc: "x \<noteq> 255 \<Longrightarrow> y < x + 1 \<longleftrightarrow> y \<le> x" for x y :: byte
proof -
  assume x: "x \<noteq> 255"
  have "1 + x \<noteq> 0"
  proof
    assume "1 + x = 0"
    then have "x = - 1" by (simp add: eq_neg_iff_add_eq_0 add.commute)
    with x show False by simp
  qed
  then have "unat (x + 1) = Suc (unat x)" by (simp add: unatSuc add.commute)
  then show ?thesis by (simp add: word_less_nat_alt word_le_nat_alt less_Suc_eq_le)
qed

lemma prefix_range:
  fixes p k :: bytes
  shows "p \<noteq> [] \<Longrightarrow> last p \<noteq> 255 \<Longrightarrow> p \<le> k \<and> k < butlast p @ [last p + 1] \<longleftrightarrow> prefix p k"
proof (induction p arbitrary: k)
  case Nil
  then show ?case by simp
next
  case (Cons a p)
  show ?case
  proof (cases k)
    case Nil
    then show ?thesis by simp
  next
    case k: (Cons y ys)
    show ?thesis
    proof (cases "p = []")
      case True
      with k Cons.prems byte_less_Suc [of a y] show ?thesis by auto
    next
      case False
      with Cons.IH [of ys] Cons.prems k show ?thesis by auto
    qed
  qed
qed

lemma ext1_prefix_end: "prefix_end_law ext1"
  by (simp add: prefix_end_law_def ext1_def prefix_range)

lemma chain1_kv [simp]: "kv chain1 = store1"
  by (simp add: chain1_def)

lemma store1_get:
  "kv_get store1 (skey_bytes k) =
     (if k = KVK ''transact'' \<or> k = KVK ''deposit'' \<or> k = KVK ''registration'' then Some [9]
      else if k = KParams then Some [1] else None)"
  by (simp add: store1_def)

lemma store1_has:
  "kv_has store1 (skey_bytes k) \<longleftrightarrow>
     k \<in> {KVK ''transact'', KVK ''deposit'', KVK ''registration'', KParams}"
  by (simp add: store1_def)

lemma be32_not_1: "[1] \<noteq> be32 5"
proof -
  have "length [1 :: byte] \<noteq> length (be32 5)" by simp
  then show ?thesis by metis
qed

lemma params1_read: "GetParams ext1 store1 = Inr params1"
  using be32_not_1 by (simp add: GetParams_def store1_get ext1_def)

lemma zero32_zero [simp]: "isZeroBytes zero32"
  by (simp add: isZeroBytes_def zero32_def)

definition chain1' :: "ledger chain" where
  "chain1' = chain1\<lparr>kv := mark_input (elem32 8) store1,
     bank := [(''out'', bytes_of ''bob'', [(''anix'', 5)]), (''out'', bytes_of ''relay'', [(''anix'', 2)])],
     gasLog := [verify_charge],
     emitted :=
       [\<lparr>ev_type = EventTypeTransact, ev_attrs = [(AttributeKeyNullifier, fmt_hex (elem32 8))]\<rparr>,
        \<lparr>ev_type = EventTypeTransact, ev_attrs =
          [(AttributeKeyWithdrawAmount, ''5''), (AttributeKeyWithdrawAddr, ''bob'')]\<rparr>,
        \<lparr>ev_type = EventTypeTransact, ev_attrs = [(AttributeKeyRelayerFee, ''2'')]\<rparr>]\<rparr>"

text \<open>The run of \<open>transact1\<close>, step by step.\<close>

lemma zero_root1: "zeroRootBytes ext1 d = zero32"
  by (simp add: zeroRootBytes_def ext1_def frBytes_zero)

lemma transact1_reg: "IsValidRegRoot ext1 store1 zero32"
  by (simp add: IsValidRegRoot_def GetRegMerkleRoot_def store1_get zero_root1)

lemmas run_simps = bindM_lift bindM_readKV bindM_read bindM_onKV onKV_eval onBank_eval index_at_def

lemma transact1_fields [simp]:
  "Nullifiers transact1 = [elem32 8, zero32]" "MerkleRoots transact1 = [zero32, zero32]"
  "Outputs transact1 = [no_output, no_output]" "WithdrawAmount transact1 = ''5''"
  "WithdrawAddress transact1 = ''bob''" "tx_Denom transact1 = ''anix''" "RelayerFee transact1 = ''2''"
  "tx_Sender transact1 = ''relay''" "RegistrationRoot transact1 = zero32" "tx_Proof transact1 = [1]"
  "NoteHash no_output = zero32"
  by (simp_all add: transact1_def no_output_def)

definition chain2 :: "ledger chain" where
  "chain2 = chain1\<lparr>kv := mark_input (elem32 8) store1, emitted :=
     [\<lparr>ev_type = EventTypeTransact, ev_attrs = [(AttributeKeyNullifier, fmt_hex (elem32 8))]\<rparr>]\<rparr>"

lemma chain2_fields [simp]:
  "kv chain2 = mark_input (elem32 8) store1" "bank chain2 = []" "gasLog chain2 = []"
  by (simp_all add: chain2_def chain1_def)

lemma transact1_consume:
  "forM [0, 1] (consume_nullifier ext1 transact1) chain1 = (Inr (), chain2)"
  by (simp add: consume_nullifier_def run_simps elem32_not_zero IsNullifierSpent_def store1_has
      IsValidRootAnyTree_def zero_root1 MarkNullifierSpent_def mark_input_def chain2_def
      bindM_def chain1_def)

lemma params1_read2: "GetParams ext1 (kv chain2) = Inr params1"
  using GetParams_frame [OF mark_input_touches, of ext1 "elem32 8" store1] params1_read
  by (auto simp: image_iff)

lemma transact1_assemble:
  "\<exists>xs. AssembleTransactPublicInputs ext1 transact1 params1 (moduleAddress ext1) = Inr xs"
  by (simp add: Assemble_iff params1_def amount_element_Inr_iff) (simp add: ext1_def)

lemma transact1_verify:
  "VerifyProof ext1 ''transact'' [1] xs chain2 = (Inr (), chain2\<lparr>gasLog := [verify_charge]\<rparr>)"
proof -
  have "kv_get (kv chain2) (VKKey ''transact'') = Some [9]"
    by (simp add: mark_input_def store1_get)
  then have "getVerificationKey ext1 (kv chain2) ''transact'' = Inr [9]"
    by (simp add: getVerificationKey_def GetVerificationKeyFromState_def ext1_def)
  then show ?thesis
    by (simp add: VerifyProof_Inr_iff proof_accepted_def) (simp add: ext1_def)
qed

lemma denom1:
  "kv c = mark_input (elem32 8) store1 \<Longrightarrow> bindM (checkDenom ext1 ''anix'') f c = f () c"
proof -
  assume c: "kv c = mark_input (elem32 8) store1"
  have "''anix'' \<in> set (SupportedDenoms params1)" by (simp add: params1_def)
  with c params1_read2 have "checkDenom ext1 ''anix'' c = (Inr (), c)"
    by (simp add: checkDenom_Inr_iff)
  then show ?thesis by (simp add: bindM_Inr)
qed

lemma ext1_calls:
  "parseInt ext1 v = (if v = ''5'' then Some 5 else if v = ''2'' then Some 2 else None)"
  "accAddress ext1 a = Inr (bytes_of a)" "newCoins ext1 d amt = Inr [(d, amt)]"
  "sendFromModule ext1 m recipient coins b = (Inr (), b @ [(''out'', recipient, coins)])"
  "sendToModule ext1 from m coins b = (Inr (), b @ [(''in'', from, coins)])"
  by (simp_all add: ext1_def)

definition chain3 :: "ledger chain" where
  "chain3 = chain2\<lparr>gasLog := [verify_charge],
     bank := [(''out'', bytes_of ''bob'', [(''anix'', 5)])],
     emitted := emitted chain2 @ [\<lparr>ev_type = EventTypeTransact, ev_attrs =
          [(AttributeKeyWithdrawAmount, ''5''), (AttributeKeyWithdrawAddr, ''bob'')]\<rparr>]\<rparr>"

lemma transact1_withdraw:
  "withdraw ext1 transact1 (chain2\<lparr>gasLog := [verify_charge]\<rparr>) = (Inr (), chain3)"
  by (simp add: withdraw_def run_simps ext1_calls denom1 chain3_def) (simp add: bindM_def onBank_eval ext1_calls)

lemma transact1_fee: "pay_relayer ext1 transact1 chain3 = (Inr (), chain1')"
  by (simp add: pay_relayer_def run_simps ext1_calls denom1 chain3_def)
    (simp add: bindM_def onBank_eval ext1_calls chain1'_def chain2_def chain1_def)

lemma transact1_outputs: "insert_output ext1 transact1 0 acc c = (Inr acc, c)"
  "insert_output ext1 transact1 1 acc c = (Inr acc, c)"
  by (cases acc; simp add: insert_output_def run_simps)+

lemma transact1_runs: "Transact ext1 transact1 chain1 = (Inr ([], []), chain1')"
proof -
  obtain xs where xs: "AssembleTransactPublicInputs ext1 transact1 params1 (moduleAddress ext1) = Inr xs"
    using transact1_assemble by blast
  show ?thesis
    unfolding Transact_def
    apply (rule bind_eval [where x = True and t = chain1])
     apply (simp add: transact1_reg)
    apply (simp only: not_True_eq_False if_False)
    apply (rule bind_eval, rule transact1_consume)
    apply (rule bind_eval [where x = params1 and t = chain2])
     apply (simp add: params1_read2 del: chain2_fields)
    apply (rule bind_eval [where x = xs and t = chain2])
     apply (simp add: xs)
    apply (rule bind_eval [where t = "chain2\<lparr>gasLog := [verify_charge]\<rparr>" and x = "()"])
     apply (simp add: transact1_verify)
    apply (rule bind_eval, rule transact1_outputs(1))
    apply (rule bind_eval, rule transact1_outputs(2))
    apply (simp only: prod.case)
    apply (rule bind_eval, rule transact1_withdraw)
    apply (rule bind_eval, rule transact1_fee)
    apply (rule monad_eval)
    done
qed

subsection \<open>A deposit and a registration\<close>

definition deposit1 :: MsgDeposit where
  "deposit1 = \<lparr>dep_Sender = ''ann'', dep_Denom = ''anix'', dep_Amount = ''5'',
     dep_NoteCommitment = frBytes (fr_of_int 6), dep_Proof = [1],
     dep_PublicInputs = concat (map frBytes
       [fr_of_int 6, fr_of_int 5, DenomToFieldElement ext1 ''anix'', 0, 0, 0, 0, 0]),
     dep_AuditorEncryptedData = []\<rparr>"

definition register1 :: MsgRegister where
  "register1 = \<lparr>reg_Sender = ''ann'', reg_IdentityCommitment = frBytes (fr_of_int 6), reg_Proof = [1],
     reg_PublicInputs = concat (map frBytes
       [fr_of_int 6, SetBytes [7], 0, 0, 0, 0, 0, 0, 0]),
     reg_AuditorEncryptedData = [3]\<rparr>"

lemma store1_vk: "n \<in> {''transact'', ''deposit'', ''registration''} \<Longrightarrow>
    proof_accepted ext1 store1 n [1] xs"
  by (auto simp: proof_accepted_def getVerificationKey_def GetVerificationKeyFromState_def store1_get ext1_def)

lemma verify1: "n \<in> {''transact'', ''deposit'', ''registration''} \<Longrightarrow>
    VerifyProof ext1 n [1] xs chain1 = (Inr (), chain1\<lparr>gasLog := [verify_charge]\<rparr>)"
proof -
  assume "n \<in> {''transact'', ''deposit'', ''registration''}"
  moreover have "gasLog chain1 = []" "gasOk ext1 g" for g by (simp_all add: chain1_def ext1_def)
  ultimately show ?thesis using store1_vk by (simp add: VerifyProof_Inr_iff)
qed

lemma auditor1: "enforceAuditor ext1 b chain1 = (Inr (), chain1)"
  using params1_read by (simp add: enforceAuditor_def run_simps) (simp add: params1_def)

lemma store1_no_notes: "no_notes store1"
  by (auto simp: no_notes_def store1_get store1_has note_skeys_def tree_skeys_def)

lemma store1_forest: "forest_ok ext1 3 store1 []"
  by (rule forest_start [OF store1_no_notes])

lemma store1_depth: "depth_is ext1 store1 3"
  by (simp add: depth_is_def params1_read effective_depth_def params1_def)

lemma store1_reg: "reg_ok ext1 store1 []"
  using empty_root [OF ext1_laws reg_depth_word(2,1)]
  by (simp add: reg_ok_def tree_rep_def frontier_inv_empty GetRegMerkleRoot_def store1_get store1_has kv_u64_def)

lemma insert1:
  "\<exists>root idx tid s'. InsertNote ext1 (frBytes (fr_of_int 6)) store1 = (Inr (root, idx, tid), s')"
  by (rule InsertNote_ok [OF store1_forest store1_depth ext1_laws, of "frBytes (fr_of_int 6)"])
    (simp add: tree_bound_def, simp, blast)

lemma insertReg1:
  "\<exists>root idx s'. InsertRegCommitment ext1 (frBytes (fr_of_int 6)) store1 = (Inr (root, idx), s')"
  by (rule InsertRegCommitment_ok [OF store1_reg ext1_laws, of "frBytes (fr_of_int 6)"])
    (simp add: reg_depth_def, simp, blast)

lemma deposit1_facts:
  "auditor_served params1 (dep_AuditorEncryptedData deposit1)"
  "ParsePublicInputs (dep_PublicInputs deposit1) =
     Inr [fr_of_int 6, fr_of_int 5, DenomToFieldElement ext1 ''anix'', 0, 0, 0, 0, 0]"
  "parseInt ext1 (dep_Amount deposit1) = Some 5" "ChainBinding params1 \<noteq> []"
  "VerifyDepositPublicInputs ext1 [fr_of_int 6, fr_of_int 5, DenomToFieldElement ext1 ''anix'', 0, 0, 0, 0, 0]
     (dep_NoteCommitment deposit1) 5 (dep_Denom deposit1) params1 = Inr ()"
  "proof_accepted ext1 (kv chain1) ''deposit'' (dep_Proof deposit1)
     [fr_of_int 6, fr_of_int 5, DenomToFieldElement ext1 ''anix'', 0, 0, 0, 0, 0]"
  "gasOk ext1 (gasLog chain1 @ [verify_charge])" "dep_Denom deposit1 \<in> set (SupportedDenoms params1)"
  "accAddress ext1 (dep_Sender deposit1) = Inr (bytes_of ''ann'')"
  "newCoins ext1 (dep_Denom deposit1) 5 = Inr [(''anix'', 5)]"
  "sendToModule ext1 (bytes_of ''ann'') ModuleName [(''anix'', 5)] (bank chain1) =
     (Inr (), [(''in'', bytes_of ''ann'', [(''anix'', 5)])])"
proof -
  show "ParsePublicInputs (dep_PublicInputs deposit1) =
     Inr [fr_of_int 6, fr_of_int 5, DenomToFieldElement ext1 ''anix'', 0, 0, 0, 0, 0]"
    by (simp only: ParsePublicInputs_iff deposit1_def MsgDeposit.simps)
  show "gasOk ext1 (gasLog chain1 @ [verify_charge])" by (simp add: ext1_def)
  show "proof_accepted ext1 (kv chain1) ''deposit'' (dep_Proof deposit1)
     [fr_of_int 6, fr_of_int 5, DenomToFieldElement ext1 ''anix'', 0, 0, 0, 0, 0]"
    using store1_vk [of "''deposit''"] by (simp add: deposit1_def)
qed (simp_all add: deposit1_def ext1_calls VerifyDeposit_iff verifyAuditor_iff params1_def auditor_served_def chain1_def)

lemma deposit1_runs: "\<exists>idx root c'. Deposit ext1 deposit1 chain1 = (Inr (idx, root), c')"
proof -
  obtain root idx tid s' where "InsertNote ext1 (frBytes (fr_of_int 6)) store1 = (Inr (root, idx, tid), s')"
    using insert1 by blast
  then have "InsertNote ext1 (dep_NoteCommitment deposit1) (kv chain1) = (Inr (root, idx, tid), s')"
    by (simp add: deposit1_def)
  from Deposit_runs [OF _ deposit1_facts this] show ?thesis
    using params1_read by auto
qed

lemma register1_facts:
  "auditor_served params1 (reg_AuditorEncryptedData register1)"
  "ParsePublicInputs (reg_PublicInputs register1) = Inr [fr_of_int 6, SetBytes [7], 0, 0, 0, 0, 0, 0, 0]"
  "VerifyRegisterPublicInputs [fr_of_int 6, SetBytes [7], 0, 0, 0, 0, 0, 0, 0]
     (reg_IdentityCommitment register1) params1 = Inr ()"
  "proof_accepted ext1 (kv chain1) ''registration'' (reg_Proof register1)
     [fr_of_int 6, SetBytes [7], 0, 0, 0, 0, 0, 0, 0]"
  "gasOk ext1 (gasLog chain1 @ [verify_charge])"
proof -
  show "ParsePublicInputs (reg_PublicInputs register1) = Inr [fr_of_int 6, SetBytes [7], 0, 0, 0, 0, 0, 0, 0]"
    by (simp only: ParsePublicInputs_iff register1_def MsgRegister.simps)
  show "gasOk ext1 (gasLog chain1 @ [verify_charge])" by (simp add: ext1_def)
  show "proof_accepted ext1 (kv chain1) ''registration'' (reg_Proof register1)
     [fr_of_int 6, SetBytes [7], 0, 0, 0, 0, 0, 0, 0]"
    using store1_vk [of "''registration''"] by (simp add: register1_def)
qed (simp_all add: register1_def VerifyRegister_iff verifyAuditor_iff params1_def auditor_served_def)

lemma register1_runs: "\<exists>idx root c'. Register ext1 register1 chain1 = (Inr (idx, root), c')"
proof -
  obtain root idx s' where "InsertRegCommitment ext1 (frBytes (fr_of_int 6)) store1 = (Inr (root, idx), s')"
    using insertReg1 by blast
  then have "InsertRegCommitment ext1 (reg_IdentityCommitment register1) (kv chain1) = (Inr (root, idx), s')"
    by (simp add: register1_def)
  from Register_runs [OF _ register1_facts this] show ?thesis using params1_read by auto
qed

subsection \<open>The withdrawal passes the stateless checks\<close>

lemma transact1_wellformed: "transact_wellformed ext1 transact1"
proof -
  have "canonical zero32" using canonical_frBytes [of 0] by (simp add: frBytes_zero)
  moreover have "canonical (elem32 8)"
    by (simp add: canonical_def elem32_def be_nat_snoc fr_modulus_def)
  ultimately show ?thesis by (simp add: transact_wellformed_def amount_ok_def ext1_calls)
qed

lemma transact1_valid: "MsgTransact_ValidateBasic ext1 transact1 = Inr ()"
  unfolding ValidateBasic_transact_iff
  by (simp add: transact1_wellformed ext1_calls) (simp add: ext1_def)

end
