(* ===== verification/Exact.thy ===== *)
theory Exact
  imports Pool Instances
begin

section \<open>Exactly when a message succeeds\<close>

text \<open>
  The converse of the inversion lemmas of \<open>Handlers\<close>: when every check holds, each step of a
  handler runs.  On a store that represents a pool the checks on the trees and the marks are the
  condition \<open>pool_accepts\<close> of the abstract machine, so that the success of each handler is
  characterized by that condition, its proof, its parameters and the bank.
\<close>

subsection \<open>Transact, step by step\<close>

lemma bindM_Emit: "bindM (EmitEvent e) f c = f () (c\<lparr>emitted := emitted c @ [e]\<rparr>)"
  by (simp add: bindM_def)

lemma consume_runs:
  assumes "i < length (Nullifiers msg)" "i < length (MerkleRoots msg)"
    and "\<not> isZeroBytes (Nullifiers msg ! i) \<Longrightarrow> IsValidRootAnyTree E (kv c) (MerkleRoots msg ! i) = Inr True \<and>
      \<not> IsNullifierSpent (kv c) (Nullifiers msg ! i)"
  obtains c' where "consume_nullifier E msg i c = (Inr (), c')" "kv c' = mark_input (Nullifiers msg ! i) (kv c)"
    "bank c' = bank c" "gasLog c' = gasLog c" "txBytes c' = txBytes c"
  using assms
  by (cases "isZeroBytes (Nullifiers msg ! i)")
    (simp_all add: consume_nullifier_def mark_input_def MarkNullifierSpent_def run_simps)

lemma output_runs:
  assumes "i < length (Outputs msg)" "output_inserted E (NoteHash (Outputs msg ! i)) (kv c) acc s' acc'"
  obtains c' where "insert_output E msg i acc c = (Inr acc', c')" "kv c' = s'" "bank c' = bank c"
    "gasLog c' = gasLog c"
  using assms
  by (cases acc; cases "isZeroBytes (NoteHash (Outputs msg ! i))")
    (auto simp: insert_output_def output_inserted_def run_simps bindM_Emit)

lemma checkDenom_bind:
  "GetParams E (kv c) = Inr p \<Longrightarrow> d \<in> set (SupportedDenoms p) \<Longrightarrow> bindM (checkDenom E d) f c = f () c"
  by (rule bindM_Inr) (simp add: checkDenom_Inr_iff)

lemma withdraw_runs:
  assumes "paid E (kv c) (WithdrawAmount msg) (tx_Denom msg) (WithdrawAddress msg) (bank c) b"
  obtains c' where "withdraw E msg c = (Inr (), c')" "kv c' = kv c" "bank c' = b" "gasLog c' = gasLog c"
proof (cases "WithdrawAmount msg = '''' \<or> WithdrawAmount msg = ''0''")
  case True
  with assms show ?thesis by (intro that [of c]) (auto simp: withdraw_def paid_def)
next
  case False
  with assms obtain amt p recipient coins where "parseInt E (WithdrawAmount msg) = Some amt" "0 < amt"
    "tx_Denom msg \<noteq> ''''" "GetParams E (kv c) = Inr p" "tx_Denom msg \<in> set (SupportedDenoms p)"
    "accAddress E (WithdrawAddress msg) = Inr recipient" "newCoins E (tx_Denom msg) amt = Inr coins"
    "sendFromModule E ModuleName recipient coins (bank c) = (Inr (), b)"
    by (auto simp: paid_def)
  with False show ?thesis
    by (intro that [of "c\<lparr>bank := b, emitted := emitted c @ [\<lparr>ev_type = EventTypeTransact, ev_attrs =
      [(AttributeKeyWithdrawAmount, WithdrawAmount msg), (AttributeKeyWithdrawAddr, WithdrawAddress msg)]\<rparr>]\<rparr>"])
      (simp_all add: withdraw_def checkDenom_bind run_simps bindM_def [of "onBank _"])
qed

lemma pay_relayer_runs:
  assumes "paid E (kv c) (RelayerFee msg) (tx_Denom msg) (tx_Sender msg) (bank c) b"
  obtains c' where "pay_relayer E msg c = (Inr (), c')" "kv c' = kv c" "bank c' = b" "gasLog c' = gasLog c"
proof (cases "RelayerFee msg = '''' \<or> RelayerFee msg = ''0''")
  case True
  with assms show ?thesis by (intro that [of c]) (auto simp: pay_relayer_def paid_def)
next
  case False
  with assms obtain amt p recipient coins where "parseInt E (RelayerFee msg) = Some amt" "0 < amt"
    "tx_Denom msg \<noteq> ''''" "GetParams E (kv c) = Inr p" "tx_Denom msg \<in> set (SupportedDenoms p)"
    "accAddress E (tx_Sender msg) = Inr recipient" "newCoins E (tx_Denom msg) amt = Inr coins"
    "sendFromModule E ModuleName recipient coins (bank c) = (Inr (), b)"
    by (auto simp: paid_def)
  with False show ?thesis
    by (intro that [of "c\<lparr>bank := b, emitted := emitted c @ [\<lparr>ev_type = EventTypeTransact, ev_attrs =
      [(AttributeKeyRelayerFee, RelayerFee msg)]\<rparr>]\<rparr>"])
      (simp_all add: pay_relayer_def checkDenom_bind run_simps bindM_def [of "onBank _"])
qed

lemma valid_root_frame:
  assumes "touches K s t" "\<And>r. KRootIndex r \<notin> K"
  shows "IsValidRootAnyTree E t x = IsValidRootAnyTree E s x"
  using touches_get [OF assms(1,2), of "SetBytes x"] by (simp add: IsValidRootAnyTree_def rootRefCount_def)

lemma proof_frame:
  assumes "touches K s t" "KVK n \<notin> K"
  shows "proof_accepted E t n p xs = proof_accepted E s n p xs"
  using GetVK_frame [OF assms] by (simp add: proof_accepted_def getVerificationKey_def)

lemma paid_frame: "GetParams E t = GetParams E s \<Longrightarrow> paid E t v d a b b' = paid E s v d a b b'"
  by (simp add: paid_def)

lemma spent_mark_input:
  "nullifier_spent (mark_input n s) x \<longleftrightarrow> nullifier_spent s x \<or> \<not> isZeroBytes n \<and> x = SetBytes n"
  by (auto simp: mark_input_def nullifier_spent_def)

text \<open>Both rounds over the nullifiers.\<close>

definition both_marked :: "MsgTransact \<Rightarrow> store \<Rightarrow> store" where
  "both_marked msg s = mark_input (Nullifiers msg ! 1) (mark_input (Nullifiers msg ! 0) s)"

lemma both_marked_touches: "touches (range KNullifier) s (both_marked msg s)"
  unfolding both_marked_def by (rule touch.R_trans [OF mark_input_touches mark_input_touches])

lemma consume_both_runs:
  assumes len: "2 \<le> length (Nullifiers msg)" "2 \<le> length (MerkleRoots msg)"
    and roots: "\<forall>i < 2. \<not> isZeroBytes (Nullifiers msg ! i) \<longrightarrow>
      IsValidRootAnyTree E (kv c) (MerkleRoots msg ! i) = Inr True"
    and new: "distinct (spends msg)" "\<forall>x \<in> set (spends msg). \<not> nullifier_spent (kv c) x"
  obtains c' where "forM [0, 1] (consume_nullifier E msg) c = (Inr (), c')" "kv c' = both_marked msg (kv c)"
    "bank c' = bank c" "gasLog c' = gasLog c"
proof -
  let ?n = "\<lambda>i. Nullifiers msg ! i"
  have sp: "spends msg = map SetBytes (filter (\<lambda>n. \<not> isZeroBytes n) [?n 0, ?n 1])"
    by (simp only: spends_def take_2 [OF len(1)])
  have l: "0 < length (Nullifiers msg)" "0 < length (MerkleRoots msg)" "1 < length (Nullifiers msg)"
    "1 < length (MerkleRoots msg)" using len by linarith+
  have ok0: "IsValidRootAnyTree E (kv c) (MerkleRoots msg ! 0) = Inr True \<and> \<not> IsNullifierSpent (kv c) (?n 0)"
    if "\<not> isZeroBytes (?n 0)" using roots new that by (simp add: sp IsNullifierSpent_eq)
  obtain c1 where 1: "consume_nullifier E msg 0 c = (Inr (), c1)" "kv c1 = mark_input (?n 0) (kv c)"
    "bank c1 = bank c" "gasLog c1 = gasLog c"
    using consume_runs [OF l(1,2) ok0] by blast
  have ok1: "IsValidRootAnyTree E (kv c1) (MerkleRoots msg ! 1) = Inr True \<and> \<not> IsNullifierSpent (kv c1) (?n 1)"
    if nz: "\<not> isZeroBytes (?n 1)"
  proof
    have "IsValidRootAnyTree E (kv c1) (MerkleRoots msg ! 1) = IsValidRootAnyTree E (kv c) (MerkleRoots msg ! 1)"
      unfolding 1(2) by (rule valid_root_frame [OF mark_input_touches]) auto
    then show "IsValidRootAnyTree E (kv c1) (MerkleRoots msg ! 1) = Inr True" using roots nz by simp
    show "\<not> IsNullifierSpent (kv c1) (?n 1)"
      using new nz by (auto simp: 1(2) sp IsNullifierSpent_eq spent_mark_input)
  qed
  obtain c2 where 2: "consume_nullifier E msg 1 c1 = (Inr (), c2)" "kv c2 = mark_input (?n 1) (kv c1)"
    "bank c2 = bank c1" "gasLog c2 = gasLog c1"
    using consume_runs [OF l(3,4) ok1] by blast
  have "forM [0, 1] (consume_nullifier E msg) c = (Inr (), c2)"
    using 1(1) 2(1) by (simp add: bindM_Inr)
  with 1 2 show ?thesis by (intro that [of c2]) (simp_all add: both_marked_def)
qed

lemma Assemble_lengths:
  "AssembleTransactPublicInputs E msg p a = Inr xs \<Longrightarrow>
     2 \<le> length (Nullifiers msg) \<and> 2 \<le> length (MerkleRoots msg) \<and> 2 \<le> length (Outputs msg)"
  by (auto simp: Assemble_iff)

lemma Transact_runs:
  assumes reg: "IsValidRegRoot E (kv c) (RegistrationRoot msg)"
    and roots: "\<forall>i < 2. \<not> isZeroBytes (Nullifiers msg ! i) \<longrightarrow>
      IsValidRootAnyTree E (kv c) (MerkleRoots msg ! i) = Inr True"
    and new: "distinct (spends msg)" "\<forall>x \<in> set (spends msg). \<not> nullifier_spent (kv c) x"
    and p: "GetParams E (kv c) = Inr p"
    and xs: "AssembleTransactPublicInputs E msg p (moduleAddress E) = Inr xs"
    and acc: "proof_accepted E (kv c) ''transact'' (tx_Proof msg) xs" and gas: "gasOk E (gasLog c @ [verify_charge])"
    and out: "output_inserted E (NoteHash (Outputs msg ! 0)) (both_marked msg (kv c)) ([], []) s2 r1"
      "output_inserted E (NoteHash (Outputs msg ! 1)) s2 r1 s3 r"
    and pay: "paid E (kv c) (WithdrawAmount msg) (tx_Denom msg) (WithdrawAddress msg) (bank c) b"
      "paid E (kv c) (RelayerFee msg) (tx_Denom msg) (tx_Sender msg) b b'"
  obtains c' where "Transact E msg c = (Inr r, c')" "kv c' = s3" "bank c' = b'"
proof -
  have len: "2 \<le> length (Nullifiers msg)" "2 \<le> length (MerkleRoots msg)" "0 < length (Outputs msg)"
    "1 < length (Outputs msg)" using Assemble_lengths [OF xs] by linarith+
  obtain c1 where 1: "forM [0, 1] (consume_nullifier E msg) c = (Inr (), c1)" "kv c1 = both_marked msg (kv c)"
    "bank c1 = bank c" "gasLog c1 = gasLog c" using consume_both_runs [OF len(1,2) roots new] by blast
  have p1: "GetParams E (kv c1) = Inr p"
    using GetParams_frame [OF both_marked_touches, of E msg "kv c"] p by (auto simp: 1(2))
  have acc1: "proof_accepted E (kv c1) ''transact'' (tx_Proof msg) xs"
    using proof_frame [OF both_marked_touches, of "''transact''" E msg "kv c"] acc by (auto simp: 1(2))
  let ?c2 = "c1\<lparr>gasLog := gasLog c1 @ [verify_charge]\<rparr>"
  have 2: "VerifyProof E ''transact'' (tx_Proof msg) xs c1 = (Inr (), ?c2)"
    using acc1 gas by (simp add: VerifyProof_Inr_iff 1(4))
  have o0: "output_inserted E (NoteHash (Outputs msg ! 0)) (kv ?c2) ([], []) s2 r1" using out(1) 1(2) by simp
  obtain c3 where 3: "insert_output E msg 0 ([], []) ?c2 = (Inr r1, c3)" "kv c3 = s2" "bank c3 = bank c1"
    using output_runs [OF len(3) o0] by auto
  have o1: "output_inserted E (NoteHash (Outputs msg ! 1)) (kv c3) r1 s3 r" using out(2) 3(2) by simp
  obtain c4 where 4: "insert_output E msg 1 r1 c3 = (Inr r, c4)" "kv c4 = s3" "bank c4 = bank c3"
    using output_runs [OF len(4) o1] by auto
  have "touchesC note_skeys ?c2 c4"
    by (rule touchC.R_trans [OF stableD [OF stableC_insert_output 3(1)] stableD [OF stableC_insert_output 4(1)]]) simp_all
  then have "touches note_skeys (kv c1) (kv c4)" by (simp add: touchesC_def via_kv_def)
  from GetParams_frame [OF this, of E] have p4: "GetParams E (kv c4) = GetParams E (kv c)" using p p1 by simp
  obtain c5 where 5: "withdraw E msg c4 = (Inr (), c5)" "kv c5 = kv c4" "bank c5 = b"
    using withdraw_runs [of E c4 msg b] pay(1) 1(3) 3(3) 4(3) paid_frame [OF p4] by auto
  obtain c6 where 6: "pay_relayer E msg c5 = (Inr (), c6)" "kv c6 = kv c5" "bank c6 = b'"
    using pay_relayer_runs [of E c5 msg b'] pay(2) 5(2,3) paid_frame [OF p4] by auto
  have "transact_rest E msg c1 = (Inr r, c6)"
    unfolding transact_rest_def
    apply (rule bind_eval [where x = p and t = c1], simp add: p1)
    apply (rule bind_eval [where x = xs and t = c1], simp add: xs)
    apply (rule bind_eval, rule 2)
    apply (rule bind_eval, rule 3(1))
    apply (rule bind_eval, rule 4(1))
    apply (simp add: case_prod_unfold bindM_def 5(1) 6(1))
    done
  with reg 1(1) have "Transact E msg c = (Inr r, c6)" by (auto simp: Transact_split simp del: forM.simps)
  with 4(2) 5(2) 6(2,3) show ?thesis by (intro that) simp_all
qed

subsection \<open>New notes always find room\<close>

lemma concat_forest_insert: "concat (forest_insert d css c) = concat css @ [c]"
  by (cases css rule: rev_cases) (simp_all add: forest_insert_def Let_def)

lemma all_new_Cons:
  "all_new (c # cs) old \<longleftrightarrow> SetBytes c \<notin> SetBytes ` set old \<and> all_new cs (old @ [c])"
  by (auto simp: all_new_def) (metis imageI)

lemma all_new_Nil [simp]: "all_new [] old"
  by (simp add: all_new_def)

lemma output_exists:
  assumes f: "forest_ok E d s css" and dep: "depth_is E s d" and laws: "zero_hash_laws E"
    and room: "Suc (length css) < tree_bound" and new: "all_new (filter (\<lambda>h. \<not> isZeroBytes h) [h]) (concat css)"
  obtains s' acc' where "output_inserted E h s acc s' acc'"
proof (cases "isZeroBytes h")
  case True
  then show ?thesis by (intro that [of s acc]) (simp add: output_inserted_def)
next
  case False
  with new have "SetBytes h \<notin> SetBytes ` set (concat css)" by (simp add: all_new_def)
  from InsertNote_ok [OF f dep laws room this] False that show ?thesis
    unfolding output_inserted_def by (metis (no_types))
qed

lemma outputs_exist:
  assumes f: "forest_ok E d s css" and dep: "depth_is E s d" and laws: "zero_hash_laws E"
    and room: "Suc (Suc (length css)) < tree_bound" and new: "all_new (output_notes msg) (concat css)"
    and len: "2 \<le> length (Outputs msg)"
  shows "\<exists>s2 r1 s3 r. output_inserted E (NoteHash (Outputs msg ! 0)) s ([], []) s2 r1 \<and>
    output_inserted E (NoteHash (Outputs msg ! 1)) s2 r1 s3 r"
proof -
  let ?h = "\<lambda>i. NoteHash (Outputs msg ! i)" and ?live = "filter (\<lambda>h. \<not> isZeroBytes h)"
  let ?css = "if isZeroBytes (?h 0) then css else forest_insert d css (?h 0)"
  have out: "output_notes msg = ?live [?h 0, ?h 1]" by (simp add: output_notes_def take_2 [OF len])
  have room1: "Suc (length css) < tree_bound" using room by simp
  have "all_new (?live [?h 0]) (concat css)" using new by (cases "isZeroBytes (?h 0)") (simp_all add: out all_new_Cons)
  then obtain s2 r1 where 1: "output_inserted E (?h 0) s ([], []) s2 r1"
    using output_exists [OF f dep laws room1] by blast
  note next1 = output_forest [OF 1 f dep laws room1]
  have "Suc (length ?css) < tree_bound" using next1(3) room by linarith
  moreover have "all_new (?live [?h 1]) (concat ?css)"
    using new by (cases "isZeroBytes (?h 0)"; cases "isZeroBytes (?h 1)")
      (simp_all add: out all_new_Cons concat_forest_insert)
  ultimately obtain s3 r where "output_inserted E (?h 1) s2 r1 s3 r"
    using output_exists [OF next1(1,2) laws] by blast
  with 1 show ?thesis by blast
qed

subsection \<open>Transact\<close>

text \<open>What a transact needs besides the state of the pool: a chain binding and fields that assemble,
  an accepted proof, gas for one verification, and a bank that makes the two payments.\<close>

definition transact_backed :: "('vk, 'b) ext \<Rightarrow> MsgTransact \<Rightarrow> 'b chain \<Rightarrow> bool" where
  "transact_backed E msg c \<longleftrightarrow> (\<exists>p xs b b'. GetParams E (kv c) = Inr p \<and>
     AssembleTransactPublicInputs E msg p (moduleAddress E) = Inr xs \<and>
     proof_accepted E (kv c) ''transact'' (tx_Proof msg) xs \<and> gasOk E (gasLog c @ [verify_charge]) \<and>
     paid E (kv c) (WithdrawAmount msg) (tx_Denom msg) (WithdrawAddress msg) (bank c) b \<and>
     paid E (kv c) (RelayerFee msg) (tx_Denom msg) (tx_Sender msg) b b')"

lemma Transact_backed:
  assumes "Transact E msg c = (Inr r, c')"
  shows "transact_backed E msg c"
  using assms by (rule Transact_success) (unfold transact_backed_def, blast)

lemma Transact_succeeds:
  assumes rep: "represents E d (kv c) P" and room: "Suc (Suc (length (trees P))) < tree_bound"
    and ok: "pool_accepts E d (TxTransact msg) P" and backed: "transact_backed E msg c"
  shows "\<exists>r c'. Transact E msg c = (Inr r, c')"
proof -
  have laws: "zero_hash_laws E" and dep: "depth_is E (kv c) d" and f: "forest_ok E d (kv c) (trees P)"
    and g: "reg_ok E (kv c) (identities P)" and sp: "\<forall>x. nullifier_spent (kv c) x \<longleftrightarrow> x \<in> spent P"
    using rep by (simp_all add: represents_def)
  obtain p xs b b' where p: "GetParams E (kv c) = Inr p"
    and xs: "AssembleTransactPublicInputs E msg p (moduleAddress E) = Inr xs"
    and acc: "proof_accepted E (kv c) ''transact'' (tx_Proof msg) xs" and gas: "gasOk E (gasLog c @ [verify_charge])"
    and pay: "paid E (kv c) (WithdrawAmount msg) (tx_Denom msg) (WithdrawAddress msg) (bank c) b"
      "paid E (kv c) (RelayerFee msg) (tx_Denom msg) (tx_Sender msg) b b'"
    using backed unfolding transact_backed_def by blast
  have reg: "IsValidRegRoot E (kv c) (RegistrationRoot msg)"
    using ok g by (simp add: IsValidRegRoot_def reg_ok_def)
  have roots: "\<forall>i < 2. \<not> isZeroBytes (Nullifiers msg ! i) \<longrightarrow>
      IsValidRootAnyTree E (kv c) (MerkleRoots msg ! i) = Inr True"
    using ok by (simp add: valid_roots_window [OF f] root_known_def)
  have new: "distinct (spends msg)" "\<forall>x \<in> set (spends msg). \<not> nullifier_spent (kv c) x"
    using ok sp by auto
  have f1: "forest_ok E d (both_marked msg (kv c)) (trees P)"
    by (rule forest_frame [OF f both_marked_touches]) (auto simp: note_skeys_def tree_skeys_def)
  have dep1: "depth_is E (both_marked msg (kv c)) d"
    using depth_is_frame [OF both_marked_touches, of E msg "kv c" d] dep by auto
  have "all_new (output_notes msg) (concat (trees P))" using ok by simp
  from outputs_exist [OF f1 dep1 laws room this] Assemble_lengths [OF xs] obtain s2 r1 s3 r where
    out: "output_inserted E (NoteHash (Outputs msg ! 0)) (both_marked msg (kv c)) ([], []) s2 r1"
      "output_inserted E (NoteHash (Outputs msg ! 1)) s2 r1 s3 r" by blast
  show ?thesis by (rule Transact_runs [OF reg roots new p xs acc gas out pay]) blast
qed

lemma Transact_iff:
  assumes "represents E d (kv c) P" "Suc (Suc (length (trees P))) < tree_bound"
  shows "(\<exists>r c'. Transact E msg c = (Inr r, c')) \<longleftrightarrow>
    pool_accepts E d (TxTransact msg) P \<and> transact_backed E msg c"
  using Transact_succeeds [OF assms] transact_guard [OF _ assms(1)] Transact_backed by blast

subsection \<open>Deposit\<close>

definition deposit_backed :: "('vk, 'b) ext \<Rightarrow> MsgDeposit \<Rightarrow> 'b chain \<Rightarrow> bool" where
  "deposit_backed E msg c \<longleftrightarrow> (\<exists>p xs amt sender coins b. GetParams E (kv c) = Inr p \<and>
     auditor_served p (dep_AuditorEncryptedData msg) \<and> ParsePublicInputs (dep_PublicInputs msg) = Inr xs \<and>
     parseInt E (dep_Amount msg) = Some amt \<and> ChainBinding p \<noteq> [] \<and>
     VerifyDepositPublicInputs E xs (dep_NoteCommitment msg) amt (dep_Denom msg) p = Inr () \<and>
     proof_accepted E (kv c) ''deposit'' (dep_Proof msg) xs \<and> gasOk E (gasLog c @ [verify_charge]) \<and>
     dep_Denom msg \<in> set (SupportedDenoms p) \<and> accAddress E (dep_Sender msg) = Inr sender \<and>
     newCoins E (dep_Denom msg) amt = Inr coins \<and>
     sendToModule E sender ModuleName coins (bank c) = (Inr (), b))"

lemma Deposit_backed:
  assumes "Deposit E msg c = (Inr r, c')"
  shows "deposit_backed E msg c"
proof (cases r)
  case (Pair idx root)
  with assms have "Deposit E msg c = (Inr (idx, root), c')" by simp
  then show ?thesis by (rule Deposit_success) (unfold deposit_backed_def, blast)
qed

lemma Deposit_iff:
  assumes rep: "represents E d (kv c) P" and room: "Suc (length (trees P)) < tree_bound"
  shows "(\<exists>r c'. Deposit E msg c = (Inr r, c')) \<longleftrightarrow>
    pool_accepts E d (TxDeposit msg) P \<and> deposit_backed E msg c"
proof
  assume "\<exists>r c'. Deposit E msg c = (Inr r, c')"
  then obtain r c' where run: "Deposit E msg c = (Inr r, c')" by blast
  have "all_new [dep_NoteCommitment msg] (concat (trees P))"
    using step_notes [OF step_deposit [OF run]] rep by (intro forest_new [of E d "kv c"]) (simp_all add: represents_def)
  with Deposit_backed [OF run] show "pool_accepts E d (TxDeposit msg) P \<and> deposit_backed E msg c" by simp
next
  assume ok: "pool_accepts E d (TxDeposit msg) P \<and> deposit_backed E msg c"
  have f: "forest_ok E d (kv c) (trees P)" "depth_is E (kv c) d" "zero_hash_laws E"
    using rep by (simp_all add: represents_def)
  have "SetBytes (dep_NoteCommitment msg) \<notin> SetBytes ` set (concat (trees P))"
    using ok by (simp add: all_new_def)
  then obtain root idx tid s where ins: "InsertNote E (dep_NoteCommitment msg) (kv c) = (Inr (root, idx, tid), s)"
    using InsertNote_ok [OF f room] by metis
  from ok obtain p xs amt sender coins b where "GetParams E (kv c) = Inr p"
     "auditor_served p (dep_AuditorEncryptedData msg)" "ParsePublicInputs (dep_PublicInputs msg) = Inr xs"
     "parseInt E (dep_Amount msg) = Some amt" "ChainBinding p \<noteq> []"
     "VerifyDepositPublicInputs E xs (dep_NoteCommitment msg) amt (dep_Denom msg) p = Inr ()"
     "proof_accepted E (kv c) ''deposit'' (dep_Proof msg) xs" "gasOk E (gasLog c @ [verify_charge])"
     "dep_Denom msg \<in> set (SupportedDenoms p)" "accAddress E (dep_Sender msg) = Inr sender"
     "newCoins E (dep_Denom msg) amt = Inr coins" "sendToModule E sender ModuleName coins (bank c) = (Inr (), b)"
    unfolding deposit_backed_def by blast
  from Deposit_runs [OF this ins] show "\<exists>r c'. Deposit E msg c = (Inr r, c')" by blast
qed

subsection \<open>Register\<close>

definition register_backed :: "('vk, 'b) ext \<Rightarrow> MsgRegister \<Rightarrow> 'b chain \<Rightarrow> bool" where
  "register_backed E msg c \<longleftrightarrow> (\<exists>p xs. GetParams E (kv c) = Inr p \<and>
     auditor_served p (reg_AuditorEncryptedData msg) \<and> ParsePublicInputs (reg_PublicInputs msg) = Inr xs \<and>
     VerifyRegisterPublicInputs xs (reg_IdentityCommitment msg) p = Inr () \<and>
     proof_accepted E (kv c) ''registration'' (reg_Proof msg) xs \<and> gasOk E (gasLog c @ [verify_charge]))"

lemma Register_backed:
  assumes "Register E msg c = (Inr r, c')"
  shows "register_backed E msg c"
proof (cases r)
  case (Pair idx root)
  with assms have "Register E msg c = (Inr (idx, root), c')" by simp
  then show ?thesis by (rule Register_success) (unfold register_backed_def, blast)
qed

lemma Register_iff:
  assumes rep: "represents E d (kv c) P"
  shows "(\<exists>r c'. Register E msg c = (Inr r, c')) \<longleftrightarrow>
    pool_accepts E d (TxRegister msg) P \<and> register_backed E msg c"
proof
  have g: "reg_ok E (kv c) (identities P)" and laws: "zero_hash_laws E" using rep by (simp_all add: represents_def)
  {
    assume "\<exists>r c'. Register E msg c = (Inr r, c')"
    then obtain idx root c' where run: "Register E msg c = (Inr (idx, root), c')" by auto
    with register_step [OF run g laws] Register_backed [OF run]
    show "pool_accepts E d (TxRegister msg) P \<and> register_backed E msg c" by simp
  next
    assume ok: "pool_accepts E d (TxRegister msg) P \<and> register_backed E msg c"
    then have "SetBytes (reg_IdentityCommitment msg) \<notin> SetBytes ` set (identities P)"
      "length (identities P) < 2 ^ reg_depth" by (simp_all add: all_new_def)
    then obtain root idx s where
      ins: "InsertRegCommitment E (reg_IdentityCommitment msg) (kv c) = (Inr (root, idx), s)"
      using InsertRegCommitment_ok [OF g laws] by metis
    from ok obtain p xs where "GetParams E (kv c) = Inr p" "auditor_served p (reg_AuditorEncryptedData msg)"
      "ParsePublicInputs (reg_PublicInputs msg) = Inr xs"
      "VerifyRegisterPublicInputs xs (reg_IdentityCommitment msg) p = Inr ()"
      "proof_accepted E (kv c) ''registration'' (reg_Proof msg) xs" "gasOk E (gasLog c @ [verify_charge])"
      unfolding register_backed_def by blast
    from Register_runs [OF this ins] show "\<exists>r c'. Register E msg c = (Inr r, c')" by blast
  }
qed

end
