(* ===== verification/Lifecycle.thy ===== *)
theory Lifecycle
  imports Module Exact
begin

section \<open>The life of a chain: genesis, messages, export\<close>

text \<open>
  Properties that join genesis, the runs of the handlers and the abstract pool.  The genesis
  properties are applied at a store after one registration and one note, the runs from the default
  genesis state at a chain on which governance sets the parameters and a key before a deposit.
\<close>

subsection \<open>Frontier slots that are written stay written\<close>

definition kept :: "skey set \<Rightarrow> store \<Rightarrow> store \<Rightarrow> bool" where
  "kept K s t \<longleftrightarrow> (\<forall>k \<in> K. kv_get s (skey_bytes k) \<noteq> None \<longrightarrow> kv_get t (skey_bytes k) \<noteq> None)"

interpretation keep: step_relation "kept K" for K
  by unfold_locales (auto simp: kept_def)

definition frontier_skeys :: "skey set" where
  "frontier_skeys = \<Union> (range (\<lambda>t. range (KFrontier t))) \<union> range KRegFrontier"

lemma kept_set [frame_rules]: "stable (kept K) (modifyM (kv_set key v))"
  by (rule keep.stable_modify) (simp add: kept_def)

lemma kept_delete [frame_rules]: "stable (kept frontier_skeys) (modifyM (kv_delete (skey_bytes (KRootIndex r))))"
  by (rule keep.stable_modify) (auto simp: kept_def frontier_skeys_def)

lemma kept_index [frame_rules]:
  "stable (kept frontier_skeys) (rootIndexIncr r)" "stable (kept frontier_skeys) (rootIndexDecr r)"
  unfolding rootIndexIncr_def rootIndexDecr_def key_simps by (intro frame_rules)+

lemma kept_slot [frame_rules]: "stable (kept frontier_skeys) (setSlotIndexed key r)"
  unfolding setSlotIndexed_def by (intro frame_rules)

lemma kept_walk [frame_rules]: "stable (kept K) (walk_up E fk n L i c)"
  by (induction n arbitrary: L i c) (auto simp: Let_def intro!: frame_rules)

lemma kept_leaf [frame_rules]: "stable (kept frontier_skeys) (insertLeafIntoTree E t c depth)"
  unfolding insertLeafIntoTree_def Let_def setTreeRootIndexed_def setRootHistoryIndexed_def by (intro frame_rules)

lemma kept_create [frame_rules]: "stable (kept frontier_skeys) (CreateTree E)"
  unfolding CreateTree_def Let_def setTreeRootIndexed_def setTreeCount_def setActiveTreeId_def by (intro frame_rules)

lemma written_fold:
  "l \<in> set ls \<Longrightarrow> kv_get (fold (\<lambda>l. kv_set (key l) (v l)) ls s) (key l) \<noteq> None"
proof (induction ls arbitrary: s)
  case (Cons a ls)
  have stay: "kv_get s k \<noteq> None \<Longrightarrow> kv_get (fold (\<lambda>l. kv_set (key l) (v l)) ls s) k \<noteq> None" for s k
    by (induction ls arbitrary: s) simp_all
  from Cons show ?case
    using stay [of "kv_set (key a) (v a) s" "key a"] by (auto)
qed simp

lemma kept_frontier:
  "stable (kept frontier_skeys) m \<Longrightarrow> m s = (r, t) \<Longrightarrow> kv_get s (FrontierKey i l) \<noteq> None \<Longrightarrow>
    kv_get t (FrontierKey i l) \<noteq> None"
  by (drule (1) stableD) (force simp: kept_def frontier_skeys_def)

text \<open>A tree is created with all levels of its frontier; the first registration writes all levels of
  the registration frontier.\<close>

lemma CreateTree_writes:
  assumes "CreateTree E s = (Inr t, s')" and "GetTreeCount s = Inr n" and "GetParams E s = Inr p"
    and "l \<in> set (levels (effective_depth p))"
  shows "kv_get s' (FrontierKey n l) \<noteq> None"
proof -
  let ?s1 = "fold (\<lambda>l. kv_set (FrontierKey n l) (frBytes (zeroHash E l))) (levels (effective_depth p)) s"
  let ?rest = "bindM (setTreeRootIndexed n (zeroRootBytes E (effective_depth p))) (\<lambda>_.
     bindM (modifyM (kv_set (TreeNextIndexKey n) (be64 0))) (\<lambda>_.
     bindM (setTreeCount (n + 1)) (\<lambda>_. bindM (setActiveTreeId n) (\<lambda>_. returnM n))))"
  have run: "?rest ?s1 = (Inr t, s')"
    using assms(1-3) by (simp add: CreateTree_def Let_def bindM_read bindM_Inr [OF forM_modify] del: key_simps)
  have "stable (kept frontier_skeys) ?rest"
    unfolding setTreeRootIndexed_def setTreeCount_def setActiveTreeId_def by (intro frame_rules)
  from kept_frontier [OF this run written_fold [OF assms(4)]] show ?thesis .
qed

lemma InsertNote_writes:
  assumes "InsertNote E c s = (Inr r, s')" and "GetTreeCount s = Inr 0" and "GetParams E s = Inr p"
    and "l \<in> set (levels (effective_depth p))"
  shows "kv_get s' (FrontierKey 0 l) \<noteq> None"
proof -
  obtain m s1 where ens: "EnsureTreeExists E s = (Inr (), s1)" and rest: "m s1 = (Inr r, s')"
    and st: "stable (kept frontier_skeys) m"
  proof -
    from assms(1) obtain s1 where "EnsureTreeExists E s = (Inr (), s1)"
      unfolding InsertNote_def by (auto simp: bindM_Inr_iff)
    moreover define m where "m = (let usedKey = CommitmentUsedKey c in
     bindM (readM (\<lambda>s. Inr (kv_has s usedKey))) (\<lambda>has.
     if has then throwM (Nix ErrDuplicateCommitment)
     else
       bindM (readM GetActiveTreeId) (\<lambda>activeId.
       bindM (readM (GetParams E)) (\<lambda>params.
       let depth = effective_depth params in
       bindM (readM (\<lambda>s. GetTreeNextIndex s activeId)) (\<lambda>nextIdx.
       bindM (if nextIdx \<ge> maxLeaves depth then CreateTree E else returnM activeId) (\<lambda>treeId.
       bindM (insertLeafIntoTree E treeId c depth) (\<lambda>(root, leafIndex).
       bindM (modifyM (kv_set usedKey [1])) (\<lambda>_.
       returnM (root, leafIndex, treeId)))))))))"
    moreover have "stable (kept frontier_skeys) m" unfolding m_def Let_def by (intro frame_rules)
    ultimately show ?thesis
      using assms(1) that [of s1 m] by (simp add: InsertNote_def bindM_Inr m_def)
  qed
  obtain t where "CreateTree E s = (Inr t, s1)"
    using ens assms(2) by (auto simp: EnsureTreeExists_def bindM_read bindM_Inr_iff)
  from CreateTree_writes [OF this assms(2-4)] show ?thesis by (rule kept_frontier [OF st rest])
qed

lemma walk_writes:
  "walk_up E fk n (of_nat L) 0 c s = (r, s') \<Longrightarrow> L \<le> l \<Longrightarrow> l < L + n \<Longrightarrow> (\<And>l. fk l = skey_bytes (f l)) \<Longrightarrow>
    kv_get s' (fk (of_nat l)) \<noteq> None"
proof (induction n arbitrary: L c s)
  case (Suc n)
  let ?s = "kv_set (fk (of_nat L)) (frBytes c) s"
  have lev: "(of_nat L :: u32) + 1 = of_nat (Suc L)" by (simp add: add.commute)
  have run: "walk_up E fk n (of_nat (Suc L)) 0 (hash2 E c (zeroHash E (of_nat L))) ?s = (r, s')"
    using Suc.prems(1) by (simp add: bindM_assoc lev del: of_nat_Suc)
  show ?case
  proof (cases "l = L")
    case True
    have "kept UNIV ?s s'" using kept_walk run by (rule stableD)
    moreover have "kv_get ?s (fk (of_nat L)) \<noteq> None" by simp
    ultimately show ?thesis using True Suc.prems(4) by (simp add: kept_def)
  next
    case False
    with Suc.IH [OF run] Suc.prems(2-4) show ?thesis by simp
  qed
qed simp

lemma InsertReg_writes:
  assumes "InsertRegCommitment E c s = (Inr r, s')" and "kv_u64 s RegNextIndexKeyBytes = Inr 0"
    and "l < reg_depth"
  shows "kv_get s' (RegFrontierKey (of_nat l)) \<noteq> None"
proof -
  let ?s1 = "kv_set (RegCommitmentKey 0) c s"
  obtain s2 x where walk: "walk_up E RegFrontierKey (unat DefaultRegTreeDepth) 0 0 (SetBytes c) ?s1 = (Inr x, s2)"
    and s': "s' = kv_set (RegCommitmentUsedKey c) [1] (kv_set RegNextIndexKeyBytes (be64 1)
      (kv_set RegRootKeyBytes (frBytes x) s2))"
    using assms(1,2) unfolding InsertRegCommitment_def insertLeafSingleTree_def Let_def
    by (auto simp: bindM_Inr_iff bindM_read split: if_splits simp del: key_simps)
  have walk: "walk_up E RegFrontierKey (unat DefaultRegTreeDepth) (of_nat 0) 0 (SetBytes c) ?s1 = (Inr x, s2)"
    using walk by simp
  have "kv_get s2 (RegFrontierKey (of_nat l)) \<noteq> None"
    by (rule walk_writes [OF walk]) (use assms(3) reg_depth_word(1) in simp_all)
  with s' show ?thesis by (auto simp del: key_simps)
qed

subsection \<open>Concrete chains\<close>

lemma params1_json: "json_law ext1 params1"
proof -
  have "be32 3 \<noteq> be32 5" by simp
  then show ?thesis by (simp add: json_law_def) (simp add: ext1_def params1_def)
qed

definition vk1 :: bytes where
  "vk1 = replicate 1752 0"

definition base1 :: store where
  "base1 = kv_set (VKKey ''deposit'') vk1 (kv_set ParamsKeyBytes [1] kv_empty)"

lemma base1_get:
  "kv_get base1 (skey_bytes k) = (if k = KVK ''deposit'' then Some vk1 else if k = KParams then Some [1] else None)"
  "kv_has base1 (skey_bytes k) \<longleftrightarrow> k = KVK ''deposit'' \<or> k = KParams"
  by (simp_all add: base1_def)

lemma base1_ok: "forest_ok ext1 3 base1 []" "reg_ok ext1 base1 []" "slots_only base1"
  "GetParams ext1 base1 = Inr params1"
proof -
  show "forest_ok ext1 3 base1 []"
    by (rule forest_start) (auto simp: no_notes_def base1_get note_skeys_def tree_skeys_def)
  show "reg_ok ext1 base1 []"
    using empty_root [OF ext1_laws reg_depth_word(2,1)]
    by (simp add: reg_ok_def tree_rep_def frontier_inv_empty GetRegMerkleRoot_def base1_get kv_u64_def)
  show "slots_only base1" by (auto simp: slots_only_def base1_def)
  show "GetParams ext1 base1 = Inr params1"
    using be32_not_1 by (simp add: GetParams_def base1_get) (simp add: ext1_def)
qed

text \<open>Packages that read back the default parameters and others of the same depth; deposits of five
  coins for any note, and when they go through.\<close>

definition params20 :: params where
  "params20 = params1\<lparr>TreeDepth := 20\<rparr>"

definition ext4 :: "(bytes, ledger) ext" where
  "ext4 = ext1\<lparr>marshalParams := (\<lambda>p. Inr (if p = params20 then [1] else [2])),
     unmarshalParams := (\<lambda>bz. Inr (if bz = [1] then params20 else DefaultParams))\<rparr>"

lemma ext4_laws: "zero_hash_laws ext4" "json_law ext4 DefaultParams" "json_law ext4 params20"
proof -
  have "params20 \<noteq> DefaultParams" by (simp add: params20_def params1_def DefaultParams_def)
  then show "json_law ext4 DefaultParams" "json_law ext4 params20" by (auto simp: json_law_def ext4_def)
  show "zero_hash_laws ext4" using ext1_laws by (simp add: zero_hash_laws_def ext4_def)
qed

definition deposit_of :: "int \<Rightarrow> MsgDeposit" where
  "deposit_of n = deposit1\<lparr>dep_NoteCommitment := frBytes (fr_of_int n), dep_PublicInputs := concat (map frBytes
     [fr_of_int n, fr_of_int 5, DenomToFieldElement ext1 ''anix'', 0, 0, 0, 0, 0])\<rparr>"

lemma deposit_of_runs:
  assumes E: "E = ext1 \<or> E = ext4" and p: "GetParams E (kv c) = Inr p" "p = params1 \<or> p = params20"
    and vk: "GetVerificationKeyFromState (kv c) ''deposit'' = Some k"
    and f: "forest_ok E d (kv c) css" "depth_is E (kv c) d" "Suc (length css) < tree_bound"
    and fresh: "fr_of_int n \<notin> SetBytes ` set (concat css)"
  shows "\<exists>idx root c'. Deposit E (deposit_of n) c = (Inr (idx, root), c')"
proof -
  let ?xs = "[fr_of_int n, fr_of_int 5, DenomToFieldElement ext1 ''anix'', 0, 0, 0, 0, 0]"
  have laws: "zero_hash_laws E" using E ext1_laws ext4_laws(1) by auto
  have den: "DenomToFieldElement E = DenomToFieldElement ext1"
    using E by (intro ext) (auto simp: DenomToFieldElement_def stringToFieldElement_def ext4_def)
  have par: "ChainBinding p = [7]" "AuditorPubKey p = []" "SupportedDenoms p = [''anix'']"
    using p(2) by (auto simp: params20_def params1_def)
  obtain root idx tid s where ins: "InsertNote E (dep_NoteCommitment (deposit_of n)) (kv c) = (Inr (root, idx, tid), s)"
    by (rule InsertNote_ok [OF f(1,2) laws f(3), of "frBytes (fr_of_int n)"])
      (use fresh in \<open>simp_all add: deposit_of_def\<close>)
  have "Deposit E (deposit_of n) c = (Inr (idx, root), c\<lparr>gasLog := gasLog c @ [verify_charge],
    bank := bank c @ [(''in'', bytes_of ''ann'', [(''anix'', 5)])],
    kv := auditor_kv E (txBytes c) (dep_AuditorEncryptedData (deposit_of n)) s,
    emitted := emitted c @ [commitment_event EventTypeDeposit (dep_NoteCommitment (deposit_of n)) root idx]\<rparr>)"
  proof (rule Deposit_runs [OF p(1) _ _ _ _ _ _ _ _ _ _ _ ins])
    show "ParsePublicInputs (dep_PublicInputs (deposit_of n)) = Inr ?xs"
      unfolding ParsePublicInputs_iff deposit_of_def deposit1_def
      by (simp only: MsgDeposit.select_convs MsgDeposit.update_convs)
    show "VerifyDepositPublicInputs E ?xs (dep_NoteCommitment (deposit_of n)) 5 (dep_Denom (deposit_of n)) p = Inr ()"
      by (simp add: VerifyDeposit_iff verifyAuditor_iff den par deposit_of_def deposit1_def)
    show "proof_accepted E (kv c) ''deposit'' (dep_Proof (deposit_of n)) ?xs"
      using E vk by (auto simp: proof_accepted_def getVerificationKey_def deposit_of_def deposit1_def) (simp_all add: ext4_def ext1_def)
    show "gasOk E (gasLog c @ [verify_charge])" using E by (auto simp: ext4_def ext1_def)
    show "parseInt E (dep_Amount (deposit_of n)) = Some 5"
      using E by (auto simp: deposit_of_def deposit1_def) (simp_all add: ext4_def ext1_def)
    show "accAddress E (dep_Sender (deposit_of n)) = Inr (bytes_of ''ann'')"
      using E by (auto simp: deposit_of_def deposit1_def) (simp_all add: ext4_def ext1_def)
    show "newCoins E (dep_Denom (deposit_of n)) 5 = Inr [(''anix'', 5)]"
      using E by (auto simp: deposit_of_def deposit1_def) (simp_all add: ext4_def ext1_def)
    show "sendToModule E (bytes_of ''ann'') ModuleName [(''anix'', 5)] (bank c) =
        (Inr (), bank c @ [(''in'', bytes_of ''ann'', [(''anix'', 5)])])"
      using E by (auto simp: ext4_def ext1_def)
  qed (simp_all add: par auditor_served_def deposit_of_def deposit1_def)
  then show ?thesis by blast
qed

abbreviation six :: bytes where
  "six \<equiv> frBytes (fr_of_int 6)"

text \<open>A store after one registration and one note, over a backend that refuses nil values.\<close>

lemma store2_exists:
  "\<exists>s. forest_ok ext1 3 s [[six]] \<and> reg_ok ext1 s [six] \<and> slots_only s \<and> GetParams ext1 s = Inr params1 \<and>
    (\<forall>n. kv_get s (VKKey n) = kv_get base1 (VKKey n)) \<and> (\<forall>n. kv_has s (VKKey n) = kv_has base1 (VKKey n)) \<and>
    (\<forall>L < 3. kv_get s (FrontierKey 0 (of_nat L)) \<noteq> None) \<and>
    (\<forall>L < reg_depth. kv_get s (RegFrontierKey (of_nat L)) \<noteq> None)"
proof -
  obtain r1 s1 where reg: "InsertRegCommitment ext1 six base1 = (Inr r1, s1)" "reg_ok ext1 s1 [six]"
    and t1: "touches reg_skeys base1 s1"
    by (rule InsertRegCommitment_ok [OF base1_ok(2) ext1_laws, of six]) (simp_all add: reg_depth_def)
  have f1: "forest_ok ext1 3 s1 []"
    by (rule forest_frame [OF base1_ok(1) t1]) (auto simp: reg_skeys_def note_skeys_def tree_skeys_def)
  have p1: "GetParams ext1 s1 = Inr params1"
    using GetParams_frame [OF t1, of ext1] base1_ok(4) by (auto simp: reg_skeys_def)
  have d1: "depth_is ext1 s1 3" by (simp add: depth_is_def p1 effective_depth_def params1_def)
  obtain r2 s where ins: "InsertNote ext1 six s1 = (Inr r2, s)"
    and f: "forest_ok ext1 3 s (forest_insert 3 [] six)" and t2: "touches note_skeys s1 s"
    by (rule InsertNote_ok [OF f1 d1 ext1_laws, of six]) (simp_all add: tree_bound_def)
  have "reg_ok ext1 s [six]" by (rule reg_frame [OF reg(2) t2]) (auto simp: reg_skeys_def note_skeys_def tree_skeys_def)
  moreover have "kv_get s (VKKey n) = kv_get base1 (VKKey n)" "kv_has s (VKKey n) = kv_has base1 (VKKey n)" for n
    using touches_get [OF t1, of "KVK n"] touches_has [OF t1, of "KVK n"] touches_get [OF t2, of "KVK n"]
      touches_has [OF t2, of "KVK n"] by (auto simp: reg_skeys_def)
  moreover have "GetParams ext1 s = Inr params1" using GetParams_frame [OF t2, of ext1] p1 by simp
  moreover have "slots_only s" by (rule touches_slots_only [OF t2 touches_slots_only [OF t1 base1_ok(3)]])
  moreover have "kv_get s (FrontierKey 0 (of_nat L)) \<noteq> None" if "L < 3" for L
    using that f1 by (intro InsertNote_writes [OF ins _ p1])
      (auto simp: forest_ok_def levels_def effective_depth_def params1_def)
  moreover have "kv_get s (RegFrontierKey (of_nat L)) \<noteq> None" if "L < reg_depth" for L
  proof -
    have "kv_get s1 (RegFrontierKey (of_nat L)) \<noteq> None"
      by (rule InsertReg_writes [OF reg(1) _ that]) (simp add: kv_u64_def base1_get)
    moreover have "KRegFrontier (of_nat L) \<notin> note_skeys" by (auto simp: note_skeys_def tree_skeys_def)
    ultimately show ?thesis using touches_get [OF t2] by simp
  qed
  ultimately show ?thesis using f by (intro exI [of _ s]) (simp add: forest_insert_def)
qed

subsection \<open>Properties: genesis\<close>

text \<open>C23: Export and import restore the chain, whatever the trees hold.  The store represents a forest of
  note trees of depth \<open>d\<close> below 64, the depth of its parameters, and a registration tree; its keys are keys
  of the module; its parameters are read back from their encoding; its verification keys are in
  canonical form; and the backend may hold every frontier slot as it is: all of them were written,
  or it accepts nil values (see C25 for a slot that was not).  Then \<open>ExportGenesis\<close> succeeds,
  \<open>InitGenesis\<close> of its result on an empty store succeeds, and the store it gives has the same forest,
  registration tree, parameters, nullifiers, verification keys and auditor data.\<close>

theorem genesis_roundtrip:
  assumes "prefix_end_law E" and "slots_only s" and "forest_ok E d s css" and "reg_ok E s rcs"
    and "GetParams E s = Inr p" and "unat (effective_depth p) = d" and "d < 64" and "json_law E p"
    and "\<forall>t L. t < length css \<and> L < d \<longrightarrow> storable E (kv_get s (FrontierKey (of_nat t) (of_nat L)))"
    and "\<forall>L < reg_depth. storable E (kv_get s (RegFrontierKey (of_nat L)))"
    and "\<forall>n. kv_has s (VKKey n) \<longrightarrow> (\<exists>bz. kv_get s (VKKey n) = Some bz \<and> NormalizeVKData E bz = Inr bz)"
  shows "\<exists>gs s'. ExportGenesis E s = Inr gs \<and> InitGenesis E gs kv_empty = (Inr (), s') \<and>
    forest_ok E d s' css \<and> reg_ok E s' rcs \<and> GetParams E s' = Inr p \<and>
    (\<forall>n. IsNullifierSpent s' n = IsNullifierSpent s n) \<and>
    (\<forall>n. GetVerificationKeyFromState s' n = GetVerificationKeyFromState s n) \<and>
    (\<forall>h. kv_has s' (AuditorDataKey h) = kv_has s (AuditorDataKey h) \<and>
      slice (kv_get s' (AuditorDataKey h)) = slice (kv_get s (AuditorDataKey h)))"
proof -
  obtain gs s' where "ExportGenesis E s = Inr gs" "InitGenesis E gs kv_empty = (Inr (), s')"
    "forest_ok E d s' css" "reg_ok E s' rcs" "GetParams E s' = Inr p"
    "\<forall>x. kv_has s' (skey_bytes (KNullifier x)) = kv_has s (skey_bytes (KNullifier x))"
    "\<forall>n. GetVerificationKeyFromState s' n = GetVerificationKeyFromState s n"
    "\<forall>h. kv_has s' (AuditorDataKey h) = kv_has s (AuditorDataKey h) \<and>
      slice (kv_get s' (AuditorDataKey h)) = slice (kv_get s (AuditorDataKey h))"
    using genesis_import_export [OF assms(1-8)] assms(9-11) by blast
  then show ?thesis by (auto simp: IsNullifierSpent_def key_simps)
qed

theorem genesis_roundtrip_witness:
  "\<exists>s gs s'. \<not> nilValueOk ext1 \<and> forest_ok ext1 3 s [[six]] \<and> reg_ok ext1 s [six] \<and>
    ExportGenesis ext1 s = Inr gs \<and> InitGenesis ext1 gs kv_empty = (Inr (), s') \<and>
    forest_ok ext1 3 s' [[six]] \<and> reg_ok ext1 s' [six] \<and> GetParams ext1 s' = Inr params1 \<and>
    GetVerificationKeyFromState s' ''deposit'' = Some vk1"
proof -
  obtain s where f: "forest_ok ext1 3 s [[six]]" and r: "reg_ok ext1 s [six]"
    and so: "slots_only s" and p: "GetParams ext1 s = Inr params1"
    and vk: "\<And>n. kv_get s (VKKey n) = kv_get base1 (VKKey n)" "\<And>n. kv_has s (VKKey n) = kv_has base1 (VKKey n)"
    and fr: "\<forall>L < 3. kv_get s (FrontierKey 0 (of_nat L)) \<noteq> None"
      "\<forall>L < reg_depth. kv_get s (RegFrontierKey (of_nat L)) \<noteq> None"
    using store2_exists by blast
  have d: "unat (effective_depth params1) = 3" "(3 :: nat) < 64"
    by (simp_all add: effective_depth_def params1_def)
  have norm: "NormalizeVKData ext1 vk1 = Inr vk1"
    by (simp add: NormalizeVKData_def vk1_def VKSerializedSize_def) (simp add: ext1_def)
  have vks: "\<forall>n. kv_has s (VKKey n) \<longrightarrow> (\<exists>bz. kv_get s (VKKey n) = Some bz \<and> NormalizeVKData ext1 bz = Inr bz)"
    using norm vk [unfolded key_simps] by (simp add: base1_get)
  have st: "\<forall>t L. t < length [[six]] \<and> L < 3 \<longrightarrow> storable ext1 (kv_get s (FrontierKey (of_nat t) (of_nat L)))"
    "\<forall>L < reg_depth. storable ext1 (kv_get s (RegFrontierKey (of_nat L)))"
    using fr by (simp_all add: storable_def del: key_simps)
  from genesis_roundtrip [OF ext1_prefix_end so f r p d params1_json st vks]
  obtain gs s' where "ExportGenesis ext1 s = Inr gs" "InitGenesis ext1 gs kv_empty = (Inr (), s')"
    "forest_ok ext1 3 s' [[six]]" "reg_ok ext1 s' [six]" "GetParams ext1 s' = Inr params1"
    "GetVerificationKeyFromState s' ''deposit'' = GetVerificationKeyFromState s ''deposit''"
    by auto
  moreover have "GetVerificationKeyFromState s ''deposit'' = Some vk1"
    using vk(1) [of "''deposit''", unfolded key_simps] by (simp add: GetVerificationKeyFromState_def base1_get)
  moreover have "\<not> nilValueOk ext1" by (simp add: ext1_def)
  ultimately show ?thesis using f r by (intro exI conjI) simp_all
qed

text \<open>C25: An export that carries a nil frontier slot does not import into a store that refuses nil
  values: when some level of the registration frontier was never written, as every level of an
  empty registration tree, \<open>ExportGenesis\<close> still succeeds, but no run of \<open>InitGenesis\<close> on its
  result succeeds.\<close>

theorem nil_frontier_not_importable:
  assumes "ExportGenesis E s = Inr gs" and "\<not> nilValueOk E"
    and "level < DefaultRegTreeDepth" and "kv_get s (RegFrontierKey level) = None"
  shows "fst (InitGenesis E gs t) \<noteq> Inr ()"
proof
  assume "fst (InitGenesis E gs t) = Inr ()"
  then obtain t' where "InitGenesis E gs t = (Inr (), t')" by (metis prod.collapse)
  then obtain u v where "init_reg E gs u = (Inr (), v)"
    by (auto simp: InitGenesis_split bindM_Inr_iff)
  then obtain u' v' where
    "forM (enumerate 0 (gs_RegFrontier gs)) (\<lambda>(i, f). set_slice E (RegFrontierKey (of_nat i)) f) u' = (Inr (), v')"
    by (auto simp: init_reg_def bindM_Inr_iff)
  from bulk_set_success [OF this] have all: "\<forall>x \<in> set (gs_RegFrontier gs). storable E x" .
  have "gs_RegFrontier gs = map (\<lambda>level. kv_get s (RegFrontierKey level)) (levels DefaultRegTreeDepth)"
    using assms(1) by (auto simp: ExportGenesis_def bindE_Inr_iff Let_def)
  moreover have "level \<in> set (levels DefaultRegTreeDepth)"
    using assms(3) by (force simp: levels_def word_less_nat_alt image_iff intro: bexI [of _ "unat level"])
  ultimately have "None \<in> set (gs_RegFrontier gs)" using assms(4) by force
  with all assms(2) show False by (auto simp: storable_def)
qed

theorem nil_frontier_not_importable_witness:
  "\<exists>gs. ExportGenesis ext1 store1 = Inr gs \<and> fst (InitGenesis ext1 gs kv_empty) \<noteq> Inr ()"
proof -
  have "\<exists>gs. ExportGenesis ext1 store1 = Inr gs"
    using export_eq [OF store1_forest store1_reg params1_read]
    by (simp add: effective_depth_def params1_def)
  then obtain gs where gs: "ExportGenesis ext1 store1 = Inr gs" by blast
  have "\<not> nilValueOk ext1" by (simp add: ext1_def)
  moreover have "(0 :: u32) < DefaultRegTreeDepth" by (simp add: DefaultRegTreeDepth_def)
  moreover have "kv_get store1 (RegFrontierKey 0) = None" by (simp add: store1_get)
  ultimately have "fst (InitGenesis ext1 gs kv_empty) \<noteq> Inr ()"
    by (rule nil_frontier_not_importable [OF gs])
  with gs show ?thesis by blast
qed

text \<open>C24: Whatever genesis state is imported, the root index it leaves is exact, because every root
  goes through the indexed setters: for every root the count is the number of slots that hold
  it.\<close>

theorem imported_index_exact:
  assumes "InitGenesis E gs kv_empty = (Inr (), s)" and "genesis_roots gs < 2 ^ 64 - 1"
  shows "index_is s (\<lambda>r. card {sl. slot_root s sl = Some r})"
  using genesis_index_exact [OF assms] by (simp add: index_ok_def holders_def)

definition genesis1 :: GenesisState where
  "genesis1 = DefaultGenesisState\<lparr>gs_Params := Some params1, gs_TreeCount := 1,
     gs_Trees := [\<lparr>ts_TreeId = 0, ts_Commitments = [Some [6]], ts_Frontier = [Some [6]],
       ts_NextIndex = 1, ts_MerkleRoot = [9], ts_RootHistory = [[9]]\<rparr>]\<rparr>"

lemma genesis1_runs: "\<exists>s. InitGenesis ext1 genesis1 kv_empty = (Inr (), s)"
proof -
  have m: "marshalParams ext1 p = Inr (be32 (TreeDepth p))" for p by (simp add: ext1_def)
  show ?thesis
    by (simp add: InitGenesis_def genesis1_def DefaultGenesisState_def SetParams_def m init_tree_def init_reg_def
        set_slice_def kv_set_slice_def setTreeRootIndexed_def setRootHistoryIndexed_def setSlotIndexed_def
        rootIndexIncr_def rootIndexDecr_def rootRefCount_def bindM_def kv_u64_def enumerate_eq_zip)
qed

theorem imported_index_exact_witness:
  "\<exists>s. InitGenesis ext1 genesis1 kv_empty = (Inr (), s) \<and>
    index_is s (\<lambda>r. card {sl. slot_root s sl = Some r})"
proof -
  obtain s where run: "InitGenesis ext1 genesis1 kv_empty = (Inr (), s)" using genesis1_runs by blast
  have "genesis_roots genesis1 < 2 ^ 64 - 1" by (simp add: genesis_roots_def genesis1_def)
  from imported_index_exact [OF run this] run show ?thesis by blast
qed

text \<open>C22: A chain that starts from the default genesis state: the state validates, and when it imports,
  then after any run of fewer than \<open>2\<^sup>5\<^sup>5\<close> messages the non-zero nullifiers of all successful
  transacts are pairwise different and are exactly the spent ones, and the reverse index answers
  every canonical root as the scan does.  For a run in which no message changes the depth of 20 the
  default parameters give, with zero hashes and an encoding of the parameters as documented, the
  run is moreover one of the abstract machine from the empty pool, and the store represents where
  that ends.  (A run that changes the depth need not be one: C26.)\<close>

theorem chain_from_genesis:
  assumes "InitGenesis E DefaultGenesisState kv_empty = (Inr (), s)" and "runs E ms s t"
    and "length ms < 2 ^ 55" and "canonical root"
  shows "GenesisState_Validate DefaultGenesisState = Inr () \<and>
    distinct (concat (map message_spends ms)) \<and>
    (\<forall>x. nullifier_spent t x \<longleftrightarrow> x \<in> set (concat (map message_spends ms))) \<and>
    scanIsValidRootAnyTree E t root = IsValidRootAnyTree E t root \<and>
    (zero_hash_laws E \<and> json_law E DefaultParams \<and> (\<forall>m \<in> set ms. keeps_depth E 20 m) \<longrightarrow>
      (\<exists>Q. pool_exec E 20 ms empty_pool = Some Q \<and> represents E 20 t Q))"
proof -
  obtain bz where bz: "marshalParams E DefaultParams = Inr bz"
    using assms(1) by (auto simp: InitGenesis_def DefaultGenesisState_def SetParams_def bindM_Inr_iff bindM_lift
        split: sum.splits)
  with assms(1) have s: "s = default_store bz" by (simp add: InitGenesis_default)
  have b: "0 + 4 * length ms \<le> 2 * tree_bound" using assms(3) by (simp add: tree_bound_def)
  obtain m where m: "forest_index t m" "m \<le> 0 + 4 * length ms"
    using runs_index [OF assms(2) _ b] default_store_ok(4) s by blast
  with b have "m \<le> 2 * tree_bound" by simp
  with m(1) assms(4) have scan: "scanIsValidRootAnyTree E t root = IsValidRootAnyTree E t root"
    by (intro scan_is_index [where m = m]) (simp_all add: forest_index_def index_inv_def)
  have valid: "GenesisState_Validate DefaultGenesisState = Inr ()"
    by (simp add: GenesisState_Validate_def DefaultGenesisState_def guardE_def)
  have none: "\<not> nullifier_spent s x" for x by (simp add: s nullifier_spent_def default_store_get)
  have pool: "\<exists>Q. pool_exec E 20 ms empty_pool = Some Q \<and> represents E 20 t Q"
    if laws: "zero_hash_laws E" and json: "json_law E DefaultParams" and keep: "\<forall>m \<in> set ms. keeps_depth E 20 m"
  proof -
    have "unmarshalParams E bz = Inr DefaultParams" using json bz by (simp add: json_law_def)
    then have "depth_is E s 20"
      by (simp add: depth_is_def s GetParams_def default_store_def effective_depth_def DefaultParams_def
          DefaultTreeDepth_def)
    then have "represents E 20 s empty_pool"
      using laws none default_store_ok(1) [of E 20 bz] default_store_ok(2) [of E bz]
      by (simp add: represents_def empty_pool_def s)
    moreover have "length (trees empty_pool) + 2 * length ms < tree_bound"
      using assms(3) by (simp add: empty_pool_def tree_bound_def)
    ultimately show ?thesis using poolMachine.runs_refine [OF assms(2) _ keep] by blast
  qed
  show ?thesis using nullifierMarks.runs_marks [OF assms(2)] none scan valid pool by blast
qed

text \<open>Governance sets the parameters and the key of the deposit circuit, then a deposit is made.\<close>

definition update20 :: MsgUpdateParams where
  "update20 = \<lparr>up_Authority = ''gov'', up_Params = Some params20\<rparr>"

definition setvk1 :: MsgSetVerificationKey where
  "setvk1 = \<lparr>svk_Authority = ''gov'', CircuitName = ''deposit'', VkData = vk1\<rparr>"

definition setup20 :: "bytes \<Rightarrow> store" where
  "setup20 bz = kv_set (VKKey ''deposit'') vk1 (kv_set ParamsKeyBytes [1] (default_store bz))"

definition chain_at :: "store \<Rightarrow> ledger chain" where
  "chain_at s = \<lparr>kv = s, bank = [], gasLog = [], emitted = [], txBytes = [4]\<rparr>"

lemma setup20_steps:
  "step ext4 (TxUpdateParams update20) (chain_at (default_store bz)) (chain_at (kv_set ParamsKeyBytes [1] (default_store bz)))"
  "step ext4 (TxSetVK setvk1) (chain_at (kv_set ParamsKeyBytes [1] (default_store bz))) (chain_at (setup20 bz))"
proof -
  have gov: "addrToBytes ext4 ''gov'' = Inr (authority ext4)" by (simp add: ext4_def ext1_def)
  have par: "Params_Validate params20 = Inr ()" "marshalParams ext4 params20 = Inr [1]"
    by (simp_all add: Params_Validate_iff params20_def params1_def ext4_def)
  have vk: "NormalizeVKData ext4 vk1 = Inr vk1"
    by (simp add: NormalizeVKData_def vk1_def VKSerializedSize_def) (simp add: ext4_def ext1_def)
  show "step ext4 (TxUpdateParams update20) (chain_at (default_store bz)) (chain_at (kv_set ParamsKeyBytes [1] (default_store bz)))"
    by (rule step_params [where u = "()"]) (use gov par in \<open>simp add: UpdateParams_Inr_iff update20_def chain_at_def\<close>)
  show "step ext4 (TxSetVK setvk1) (chain_at (kv_set ParamsKeyBytes [1] (default_store bz))) (chain_at (setup20 bz))"
    by (rule step_vk [where u = "()"])
      (use gov vk in \<open>simp add: SetVK_Inr_iff setvk1_def chain_at_def setup20_def validCircuitNames_def\<close>)
qed

lemma setup20_deposit: "\<exists>c. step ext4 (TxDeposit (deposit_of 7)) (chain_at (setup20 bz)) c"
proof -
  have kv: "kv (chain_at (setup20 bz)) = setup20 bz" by (simp add: chain_at_def)
  have p: "GetParams ext4 (kv (chain_at (setup20 bz))) = Inr params20"
    unfolding kv by (simp add: GetParams_def setup20_def ext4_def)
  have vk: "GetVerificationKeyFromState (kv (chain_at (setup20 bz))) ''deposit'' = Some vk1"
    unfolding kv by (simp add: GetVerificationKeyFromState_def setup20_def)
  have "touches {KVK ''deposit'', KParams} (default_store bz) (setup20 bz)"
    unfolding setup20_def key_simps by (rule touch.R_trans [OF touches_set touches_set]) simp_all
  then have f: "forest_ok ext4 20 (kv (chain_at (setup20 bz))) []"
    unfolding kv by (rule forest_frame [OF default_store_ok(1)]) (auto simp: note_skeys_def tree_skeys_def)
  have d: "depth_is ext4 (kv (chain_at (setup20 bz))) 20"
    by (simp add: depth_is_def p) (simp add: effective_depth_def params20_def)
  from deposit_of_runs [OF _ p _ vk f d, of 7] show ?thesis by (auto simp: step_simps tree_bound_def)
qed

theorem chain_from_genesis_witness:
  "\<exists>s t Q. InitGenesis ext4 DefaultGenesisState kv_empty = (Inr (), s) \<and>
    runs ext4 [TxUpdateParams update20, TxSetVK setvk1, TxDeposit (deposit_of 7)] s t \<and>
    scanIsValidRootAnyTree ext4 t (elem32 4) = IsValidRootAnyTree ext4 t (elem32 4) \<and>
    pool_exec ext4 20 [TxUpdateParams update20, TxSetVK setvk1, TxDeposit (deposit_of 7)] empty_pool = Some Q \<and>
    represents ext4 20 t Q"
proof -
  let ?ms = "[TxUpdateParams update20, TxSetVK setvk1, TxDeposit (deposit_of 7)]"
  obtain bz where "marshalParams ext4 DefaultParams = Inr bz" using ext4_laws(2) by (auto simp: json_law_def)
  from InitGenesis_default [OF this]
  have init: "InitGenesis ext4 DefaultGenesisState kv_empty = (Inr (), default_store bz)" .
  obtain c where dep: "step ext4 (TxDeposit (deposit_of 7)) (chain_at (setup20 bz)) c" using setup20_deposit by blast
  have kv: "kv (chain_at s) = s" for s by (simp add: chain_at_def)
  have run: "runs ext4 ?ms (default_store bz) (kv c)"
    by (rule runs_cons [OF kv setup20_steps(1)], rule runs_cons [OF refl setup20_steps(2)],
        rule runs_cons [OF refl dep runs_nil])
  have canon: "canonical (elem32 4)" by (simp add: canonical_def elem32_def be_nat_snoc fr_modulus_def)
  have keep: "\<forall>m \<in> set ?ms. keeps_depth ext4 20 m"
    using ext4_laws(3) by (simp add: update20_def) (simp add: params20_def effective_depth_def)
  have "length ?ms < 2 ^ 55" by simp
  from chain_from_genesis [OF init run this canon] ext4_laws(1,2) keep init run show ?thesis by blast
qed

end
