(* ===== verification/Governance.thy ===== *)
theory Governance
  imports Lifecycle
begin

section \<open>Governance\<close>

text \<open>
  Who may change the parameters and the verification keys and what the change does; the result of a
  deposit written out; which transacts pass the stateless checks; the layout of the store.
\<close>

subsection \<open>Governance messages\<close>

lemma UpdateParams_fails: "UpdateParams E msg c = (Inl e, c') \<Longrightarrow> c' = c"
  by (auto simp: UpdateParams_def SetParams_def bindM_lift onKV_eval split: sum.splits if_splits option.splits)

lemma SetVK_fails: "Msg_SetVerificationKey E msg c = (Inl e, c') \<Longrightarrow> c' = c"
  by (auto simp: Msg_SetVerificationKey_def SetVerificationKey_def bindM_lift onKV_eval split: sum.splits if_splits)

lemma GetVK_kv_set:
  "GetVerificationKeyFromState (kv_set (VKKey n) d s) n' =
     (if n' = n then Some d else GetVerificationKeyFromState s n')"
  by (simp add: GetVerificationKeyFromState_def)

text \<open>C27: Parameters and verification keys change only by governance: if they differ after a run of
  messages, the run contains the governance message that does it, sent by the authority of the
  keeper.\<close>

theorem only_authority_governs:
  assumes "runs E ms s t"
  shows "(GetParams E t \<noteq> GetParams E s \<longrightarrow>
      (\<exists>u. TxUpdateParams u \<in> set ms \<and> addrToBytes E (up_Authority u) = Inr (authority E))) \<and>
    (GetVerificationKeyFromState t n \<noteq> GetVerificationKeyFromState s n \<longrightarrow>
      (\<exists>u. TxSetVK u \<in> set ms \<and> CircuitName u = n \<and> addrToBytes E (svk_Authority u) = Inr (authority E)))"
proof (intro conjI impI)
  assume "GetParams E t \<noteq> GetParams E s"
  from runs_changed [where g = "GetParams E", OF assms this]
  obtain m c c' where m: "m \<in> set ms" "step E m c c'" "GetParams E (kv c') \<noteq> GetParams E (kv c)" by blast
  from params_changed [OF m(2,3)] m(1)
  show "\<exists>u. TxUpdateParams u \<in> set ms \<and> addrToBytes E (up_Authority u) = Inr (authority E)"
    by (auto simp: UpdateParams_Inr_iff)
next
  assume "GetVerificationKeyFromState t n \<noteq> GetVerificationKeyFromState s n"
  from runs_changed [where g = "\<lambda>s. GetVerificationKeyFromState s n", OF assms this]
  obtain m c c' where m: "m \<in> set ms" "step E m c c'"
    "GetVerificationKeyFromState (kv c') n \<noteq> GetVerificationKeyFromState (kv c) n" by blast
  from vk_changed [OF m(2,3)] m(1)
  show "\<exists>u. TxSetVK u \<in> set ms \<and> CircuitName u = n \<and> addrToBytes E (svk_Authority u) = Inr (authority E)"
    by (auto simp: SetVK_Inr_iff)
qed

lemma vk1_canonical: "NormalizeVKData ext1 vk1 = Inr vk1"
  by (simp add: NormalizeVKData_def vk1_def VKSerializedSize_def) (simp add: ext1_def)

lemma setvk1_runs:
  "Msg_SetVerificationKey ext1 setvk1 chain1 = (Inr (), chain1\<lparr>kv := kv_set (VKKey ''deposit'') vk1 store1\<rparr>)"
  using vk1_canonical
  by (simp add: SetVK_Inr_iff setvk1_def validCircuitNames_def) (simp add: ext1_def)

theorem only_authority_governs_witness:
  "\<exists>u t. runs ext1 [TxSetVK setvk1] store1 t \<and>
    GetVerificationKeyFromState t ''deposit'' \<noteq> GetVerificationKeyFromState store1 ''deposit'' \<and>
    TxSetVK u \<in> set [TxSetVK setvk1] \<and> CircuitName u = ''deposit'' \<and>
    addrToBytes ext1 (svk_Authority u) = Inr (authority ext1)"
proof -
  let ?t = "kv_set (VKKey ''deposit'') vk1 store1"
  have run: "runs ext1 [TxSetVK setvk1] store1 ?t"
    using runs_cons [OF chain1_kv step_vk [OF setvk1_runs] runs_nil] by simp
  have "length vk1 \<noteq> length [9 :: byte]" by (simp add: vk1_def)
  then have "vk1 \<noteq> [9]" by metis
  then have neq: "GetVerificationKeyFromState ?t ''deposit'' \<noteq> GetVerificationKeyFromState store1 ''deposit''"
    by (simp add: GetVerificationKeyFromState_def store1_get)
  with only_authority_governs [OF run, of "''deposit''"] run show ?thesis by blast
qed

text \<open>C28: What \<open>UpdateParams\<close> does, for every message.  It succeeds exactly if the sender is the authority
  and the message carries parameters, which are valid.  Then the value under the key of the
  parameters is their encoding, no other key of the store and nothing else of the chain changes,
  and the parameters are what the keeper and the query read.  In every other case, a message
  without parameters included, it fails and changes nothing.\<close>

theorem UpdateParams_effect:
  assumes "\<And>p. up_Params msg = Some p \<Longrightarrow> json_law E p"
  shows "\<exists>r c'. UpdateParams E msg c = (r, c') \<and>
    (case up_Params msg of
       Some p \<Rightarrow>
         if addrToBytes E (up_Authority msg) = Inr (authority E) \<and> Params_Validate p = Inr ()
         then r = Inr () \<and>
           (\<exists>bz. marshalParams E p = Inr bz \<and> c' = c\<lparr>kv := kv_set ParamsKeyBytes bz (kv c)\<rparr>) \<and>
           (\<forall>k. k \<noteq> ParamsKeyBytes \<longrightarrow> kv_get (kv c') k = kv_get (kv c) k) \<and>
           GetParams E (kv c') = Inr p \<and> Query_Params E (kv c') = Inr p
         else isl r \<and> c' = c
     | None \<Rightarrow> isl r \<and> c' = c)"
proof (cases "\<exists>p. up_Params msg = Some p \<and> addrToBytes E (up_Authority msg) = Inr (authority E) \<and>
    Params_Validate p = Inr ()")
  case True
  then obtain p where p: "up_Params msg = Some p" "addrToBytes E (up_Authority msg) = Inr (authority E)"
    "Params_Validate p = Inr ()" by blast
  obtain bz where bz: "marshalParams E p = Inr bz" "unmarshalParams E bz = Inr p"
    using assms [OF p(1)] by (auto simp: json_law_def)
  let ?c = "c\<lparr>kv := kv_set ParamsKeyBytes bz (kv c)\<rparr>"
  have "UpdateParams E msg c = (Inr (), ?c)" using p bz(1) by (simp add: UpdateParams_Inr_iff)
  moreover have "GetParams E (kv ?c) = Inr p" using bz(2) by (simp add: GetParams_def)
  moreover have "kv_get (kv ?c) k = kv_get (kv c) k" if "k \<noteq> ParamsKeyBytes" for k using that by simp
  ultimately show ?thesis using p bz(1) by (auto simp: Query_Params_def simp del: key_simps)
next
  case False
  then have "UpdateParams E msg c \<noteq> (Inr (), c')" for c' by (auto simp: UpdateParams_Inr_iff)
  then obtain e c' where "UpdateParams E msg c = (Inl e, c')" by (cases "UpdateParams E msg c") (metis sum.exhaust unit.exhaust)
  with UpdateParams_fails [OF this] False show ?thesis by (auto split: option.split)
qed

definition update1 :: MsgUpdateParams where
  "update1 = \<lparr>up_Authority = ''gov'', up_Params = Some params1\<rparr>"

theorem UpdateParams_effect_witness:
  "\<exists>(c' :: ledger chain). UpdateParams ext1 update1 chain1 = (Inr (), c') \<and> GetParams ext1 (kv c') = Inr params1"
proof -
  have "\<And>p. up_Params update1 = Some p \<Longrightarrow> json_law ext1 p"
    using params1_json by (simp add: update1_def)
  from UpdateParams_effect [where msg = update1 and E = ext1 and c = chain1, OF this]
  have "\<exists>r c'. UpdateParams ext1 update1 chain1 = (r, c') \<and> r = Inr () \<and> GetParams ext1 (kv c') = Inr params1"
    by (auto simp: update1_def params1_def ext1_def Params_Validate_iff split: if_splits)
  then show ?thesis by blast
qed

text \<open>C29: \<open>SetVerificationKey\<close> replaces the key of exactly one circuit: if it succeeds, the sender is
  the authority, the circuit is one of the three, what is stored is the normalized form of the
  data, so that loading the key of that circuit deserializes it, and the keys of all other
  circuits and the parameters are as before.  If it fails nothing changes.\<close>

theorem SetVK_effect:
  assumes "Msg_SetVerificationKey E msg c = (r, c')"
  shows "(r = Inr () \<and> addrToBytes E (svk_Authority msg) = Inr (authority E) \<and>
      CircuitName msg \<in> {''deposit'', ''transact'', ''registration''} \<and>
      (\<exists>bz. NormalizeVKData E (VkData msg) = Inr bz \<and>
        getVerificationKey E (kv c') (CircuitName msg) = deserializeVK E bz) \<and>
      (\<forall>n. n \<noteq> CircuitName msg \<longrightarrow> getVerificationKey E (kv c') n = getVerificationKey E (kv c) n) \<and>
      GetParams E (kv c') = GetParams E (kv c)) \<or> (isl r \<and> c' = c)"
proof (cases r)
  case (Inl e)
  with assms SetVK_fails show ?thesis by auto
next
  case (Inr u)
  with assms obtain bz where "addrToBytes E (svk_Authority msg) = Inr (authority E)"
    "validCircuitNames (CircuitName msg)" "NormalizeVKData E (VkData msg) = Inr bz"
    "c' = c\<lparr>kv := kv_set (VKKey (CircuitName msg)) bz (kv c)\<rparr>"
    by (auto simp: SetVK_Inr_iff)
  moreover from this have "GetParams E (kv c') = GetParams E (kv c)" by simp
  ultimately show ?thesis
    using Inr by (intro disjI1) (simp add: validCircuitNames_def getVerificationKey_def GetVK_kv_set [unfolded key_simps])
qed

theorem SetVK_effect_witness:
  "\<exists>bz. NormalizeVKData ext1 vk1 = Inr bz \<and>
    getVerificationKey ext1 (kv_set (VKKey ''deposit'') vk1 store1) ''deposit'' = deserializeVK ext1 bz"
  using SetVK_effect [OF setvk1_runs] by (auto simp: setvk1_def)

subsection \<open>When a deposit goes through\<close>

text \<open>The result of a deposit that passes every check, written out: the new root and index, the
  bank's state and the forest with the note.\<close>

lemma deposit_goes_through:
  assumes "GetParams E (kv c) = Inr p" and "auditor_served p (dep_AuditorEncryptedData msg)"
    and "ParsePublicInputs (dep_PublicInputs msg) = Inr xs"
    and "parseInt E (dep_Amount msg) = Some amt" and "ChainBinding p \<noteq> []"
    and "VerifyDepositPublicInputs E xs (dep_NoteCommitment msg) amt (dep_Denom msg) p = Inr ()"
    and "proof_accepted E (kv c) ''deposit'' (dep_Proof msg) xs" and "gasOk E (gasLog c @ [verify_charge])"
    and "dep_Denom msg \<in> set (SupportedDenoms p)" and "accAddress E (dep_Sender msg) = Inr sender"
    and "newCoins E (dep_Denom msg) amt = Inr coins"
    and "sendToModule E sender ModuleName coins (bank c) = (Inr (), b)"
    and "forest_ok E d (kv c) css" and "depth_is E (kv c) d" and "zero_hash_laws E"
    and "Suc (length css) < tree_bound" and "SetBytes (dep_NoteCommitment msg) \<notin> SetBytes ` set (concat css)"
  shows "\<exists>idx root c'. Deposit E msg c = (Inr (idx, root), c') \<and> bank c' = b \<and>
    forest_ok E d (kv c') (forest_insert d css (dep_NoteCommitment msg)) \<and>
    root = frBytes (roots_of E d (last (forest_insert d css (dep_NoteCommitment msg))))"
proof -
  obtain root idx tid s where ins: "InsertNote E (dep_NoteCommitment msg) (kv c) = (Inr (root, idx, tid), s)"
    by (rule InsertNote_ok [OF assms(13-17)]) blast
  from Deposit_runs [OF assms(1-12) ins] Deposit_forest [OF _ assms(13-16)] show ?thesis by fastforce
qed

subsection \<open>Stateless checks\<close>

text \<open>C30: Which transacts pass the stateless checks: exactly two nullifiers, roots and outputs, all of
  them and the registration root canonical field encodings, amounts that are numbers below
  \<open>2\<^sup>6\<^sup>4\<close>, a proof, a sender with an address, a valid denomination if there is one, and a
  recipient with an address whenever something is withdrawn.\<close>

theorem transact_admission:
  "MsgTransact_ValidateBasic E msg = Inr () \<longleftrightarrow>
   transact_wellformed E msg \<and> (\<exists>a. accAddress E (tx_Sender msg) = Inr a) \<and>
   (tx_Denom msg = '''' \<or> validateDenom E (tx_Denom msg) = Inr ()) \<and>
   (\<forall>a. WithdrawAmount msg \<notin> {'''', ''0''} \<and> parseInt E (WithdrawAmount msg) = Some a \<and> 0 < a \<longrightarrow>
      (\<exists>r. accAddress E (WithdrawAddress msg) = Inr r))"
  by (rule ValidateBasic_transact_iff)

theorem transact_admission_witness:
  "MsgTransact_ValidateBasic ext1 transact1 = Inr ()"
  by (rule transact_admission [THEN iffD2])
    (simp add: transact1_wellformed ext1_calls, simp add: ext1_def)

subsection \<open>The layout of the store\<close>

text \<open>C33: No two slots of the store share a key: the sets of keys of the eighteen kinds are pairwise
  disjoint, each over all its arguments, and keys of one kind agree exactly if the arguments do;
  for commitments, nullifiers and roots, which are stored under their canonical form, if the field
  elements do.\<close>

theorem keys_never_collide:
  "sorted_wrt disjnt [range (case_prod CommitmentKey), range (case_prod FrontierKey),
     range (case_prod RootHistoryKey), range TreeRootKey, range RootIndexKey, range TreeNextIndexKey,
     {ActiveTreeIdKey}, {TreeCountKey}, range RegCommitmentKey, range RegFrontierKey, {RegRootKeyBytes},
     {RegNextIndexKeyBytes}, range CommitmentUsedKey, range RegCommitmentUsedKey, range NullifierKey,
     {ParamsKeyBytes}, range VKKey, range AuditorDataKey] \<and>
   (CommitmentKey t i = CommitmentKey t' i' \<longleftrightarrow> t = t' \<and> i = i') \<and>
   (FrontierKey t l = FrontierKey t' l' \<longleftrightarrow> t = t' \<and> l = l') \<and>
   (RootHistoryKey t i = RootHistoryKey t' i' \<longleftrightarrow> t = t' \<and> i = i') \<and>
   (TreeRootKey t = TreeRootKey t' \<longleftrightarrow> t = t') \<and> (TreeNextIndexKey t = TreeNextIndexKey t' \<longleftrightarrow> t = t') \<and>
   (RegCommitmentKey i = RegCommitmentKey i' \<longleftrightarrow> i = i') \<and> (RegFrontierKey l = RegFrontierKey l' \<longleftrightarrow> l = l') \<and>
   (NullifierKey b = NullifierKey b' \<longleftrightarrow> SetBytes b = SetBytes b') \<and>
   (CommitmentUsedKey b = CommitmentUsedKey b' \<longleftrightarrow> SetBytes b = SetBytes b') \<and>
   (RegCommitmentUsedKey b = RegCommitmentUsedKey b' \<longleftrightarrow> SetBytes b = SetBytes b') \<and>
   (RootIndexKey b = RootIndexKey b' \<longleftrightarrow> SetBytes b = SetBytes b') \<and>
   (VKKey n = VKKey n' \<longleftrightarrow> n = n') \<and> (AuditorDataKey h = AuditorDataKey h' \<longleftrightarrow> h = h')"
  by (auto simp: key_simps disjnt_def)

end
