(* ===== verification/DepthChange.thy ===== *)
theory DepthChange
  imports Instances
begin

section \<open>Raising the depth of a full tree\<close>

text \<open>
  The depth of the trees is a parameter that governance may change.  A frontier kept for depth
  \<open>d\<close> serves a deeper tree as long as the tree is not full (\<open>frontier_inv_deeper\<close>).  At the moment
  it is exactly full it does not: the level above was never written, the walk reads zero there,
  and the root it publishes leaves the first half of the tree out.
\<close>

subsection \<open>The walk above a full tree\<close>

lemma climb_add:
  "climb h z (m + n) L i c F =
     (case climb h z m L i c F of (c', F') \<Rightarrow> climb h z n (L + m) (i div 2 ^ m) c' F')"
proof (induction m arbitrary: L i c F)
  case (Suc m)
  have "i div 2 div 2 ^ m = i div 2 ^ Suc m" by (simp add: div_mult2_eq)
  with Suc show ?case by (simp add: fun_upd_def)
qed simp

lemma node_shift: "node h (\<lambda>i. lv (a * 2 ^ L + i)) L j = node h lv L (a + j)"
proof (induction L arbitrary: a j)
  case (Suc L)
  have "node h (\<lambda>i. lv (2 * a * 2 ^ L + i)) L k = node h lv L (2 * a + k)" for k by (rule Suc.IH)
  then have "node h (\<lambda>i. lv (a * 2 ^ Suc L + i)) L k = node h lv L (2 * a + k)" for k
    by (simp add: mult.assoc mult.left_commute)
  then show ?case by (simp add: algebra_simps)
qed simp

lemma merkle_root_halves:
  assumes "length ls = 2 ^ d"
  shows "merkle_root h (Suc d) (ls @ [x]) = h (merkle_root h d ls) (merkle_root h d [x])"
proof -
  let ?lv = "leaf_fun (ls @ [x])"
  have "node h ?lv d 0 = merkle_root h d ls"
    unfolding merkle_root_def by (rule node_cong) (simp add: leaf_fun_def assms nth_append)
  moreover have "(\<lambda>i. ?lv (1 * 2 ^ d + i)) = leaf_fun [x]"
    by (rule ext) (simp add: leaf_fun_def assms nth_append)
  then have "node h ?lv d 1 = merkle_root h d [x]"
    using node_shift [of h ?lv 1 d 0] by (simp add: merkle_root_def)
  ultimately show ?thesis by (simp add: merkle_root_def)
qed

lemma climb_full:
  assumes z: "\<And>L. L < d \<Longrightarrow> z (Suc L) = h (z L) (z L)" and z0: "z 0 = 0"
  shows "fst (climb h z (Suc d) 0 (2 ^ d) x F) = h (F d) (merkle_root h d [x])"
proof -
  let ?lv = "\<lambda>i. leaf_fun [x] (i - 2 ^ d)"
  have even: "\<not> odd (2 ^ d div 2 ^ L :: nat)" if "L < d" for L
    using that by (simp add: power_diff [symmetric])
  have "climb h z (d - 0) 0 (2 ^ d div 2 ^ 0) (node h ?lv 0 (2 ^ d div 2 ^ 0)) F =
      (node h ?lv d (2 ^ d div 2 ^ d),
       \<lambda>k. if 0 \<le> k \<and> k < d \<and> even (2 ^ d div 2 ^ k :: nat) then node h ?lv k (2 ^ d div 2 ^ k) else F k)"
    by (rule climb_correct) (use z z0 even in \<open>auto simp: leaf_fun_def\<close>)
  moreover have "node h ?lv d 1 = merkle_root h d [x]"
    using node_shift [of h ?lv 1 d 0] by (simp add: merkle_root_def)
  ultimately obtain F' where run: "climb h z d 0 (2 ^ d) x F = (merkle_root h d [x], F')" and F': "F' d = F d"
    by (simp add: leaf_fun_def)
  have "climb h z (d + 1) 0 (2 ^ d) x F = (h (F' d) (merkle_root h d [x]), F')"
    unfolding climb_add run by simp
  with F' show ?thesis by simp
qed

subsection \<open>What \<open>InsertNote\<close> publishes\<close>

lemma full_leaf_root:
  assumes rep: "tree_rep E (KCommitment t) (KFrontier t) (KTreeNextIndex t) d s cs"
    and full: "length cs = 2 ^ d" and depth: "unat depth = Suc d" "Suc d < 64"
    and unset: "kv_get s (FrontierKey t (of_nat d)) = None" and laws: "zero_hash_laws E"
    and ok: "index_ok s" "root_slots_in s m" "t < of_nat m" "m \<le> 2 * tree_bound"
  shows "\<exists>s'. insertLeafIntoTree E t c depth s =
    (Inr (frBytes (hash2 E 0 (roots_of E d [c])), of_nat (2 ^ d)), s')"
proof -
  let ?i = "of_nat (2 ^ d) :: u64"
  let ?s1 = "kv_set (skey_bytes (KCommitment t ?i)) c s"
  let ?F = "frontier_of (KFrontier t) ?s1" and ?r = "hash2 E 0 (roots_of E d [c])"
  have n: "kv_u64 s (TreeNextIndexKey t) = Inr ?i"
    using rep full by (simp add: tree_rep_def)
  have n64: "(2 :: nat) ^ d < 2 ^ 64" using depth(2) by (intro power_strict_increasing) simp_all
  have F: "?F d = 0" using unset by (simp add: frontier_of_def)
  obtain s2 where walk: "walk_up E (\<lambda>l. skey_bytes (KFrontier t l)) (Suc d) (of_nat 0) ?i (SetBytes c) ?s1 =
      (Inr (fst (climb (hash2 E) (zeros E) (Suc d) 0 (2 ^ d) (SetBytes c) ?F)), s2)"
    and t12: "touches (range (KFrontier t)) ?s1 s2"
  proof (rule noteTree.walk_up_climb [where t = t and E = E and L = 0 and n = "Suc d" and i = "2 ^ d"
        and s = ?s1 and F = ?F and c = "SetBytes c"])
    show "0 + Suc d < 2 ^ 32" using depth(2) by simp
  qed (use n64 in auto)
  have "fst (climb (hash2 E) (zeros E) (Suc d) 0 (2 ^ d) (SetBytes c) ?F) = hash2 E (?F d) (merkle_root (hash2 E) d [SetBytes c])"
    by (rule climb_full) (use laws depth in \<open>simp_all add: zeros_def zero_hash_laws_def\<close>)
  then have val: "walk_up E (FrontierKey t) (unat depth) 0 ?i (SetBytes c) ?s1 = (Inr ?r, s2)"
    using walk F depth(1) by (simp add: FrontierKey_fun)
  have "touches (range (KCommitment t) \<union> range (KFrontier t)) s s2"
    by (rule touch.R_trans [OF touches_set touches_mono [OF t12]]) auto
  from index_frame [OF this _ _ _ ok(1,2)] have ok2: "index_ok s2" "root_slots_in s2 m" by auto
  have "?i mod MaxRootHistory < MaxRootHistory"
    by (rule word_mod_less_divisor) (simp add: MaxRootHistory_def)
  from publish_root [OF ok2 ok(3,4) this frBytes_not_Nil] obtain s3 s4 where
    pub: "setTreeRootIndexed t (frBytes ?r) s2 = (Inr (), s3)"
      "setRootHistoryIndexed t (?i mod MaxRootHistory) (frBytes ?r) s3 = (Inr (), s4)" by metis
  have "\<not> ?i \<ge> maxLeaves depth"
    using notfull_word(1) [OF _ depth(2,1), of "2 ^ d"] by simp
  then have "insertLeafIntoTree E t c depth s =
      (Inr (frBytes ?r, ?i), kv_set (TreeNextIndexKey t) (be64 (?i + 1)) s4)"
    using val pub n
    by (simp only: insertLeafIntoTree_def bindM_read sum.case key_simps if_False bindM_modify bindM_Inr Let_def
        monad_eval)
  then show ?thesis by blast
qed

lemma full_InsertNote:
  assumes cnt: "GetTreeCount s = Inr m" "m \<noteq> 0" and act: "GetActiveTreeId s = Inr t"
    and par: "GetParams E s = Inr p" "unat (effective_depth p) = Suc d" "Suc d < 64"
    and rep: "tree_rep E (KCommitment t) (KFrontier t) (KTreeNextIndex t) d s cs" and full: "length cs = 2 ^ d"
    and unset: "kv_get s (FrontierKey t (of_nat d)) = None" and laws: "zero_hash_laws E"
    and ok: "index_ok s" "root_slots_in s (unat m)" "t < m" "unat m \<le> 2 * tree_bound"
    and fresh: "\<not> kv_has s (CommitmentUsedKey c)"
  shows "\<exists>s'. InsertNote E c s = (Inr (frBytes (hash2 E 0 (roots_of E d [c])), of_nat (2 ^ d), t), s')"
proof -
  have n: "GetTreeNextIndex s t = Inr (of_nat (2 ^ d))"
    using rep full by (simp add: tree_rep_def GetTreeNextIndex_def)
  have "(2 :: nat) ^ d < 2 ^ Suc d" by simp
  then have room: "((of_nat (2 ^ d) :: u64) \<ge> maxLeaves (effective_depth p)) = False"
    using notfull_word(1) [OF _ par(3,2), of "2 ^ d"] by blast
  have ens: "EnsureTreeExists E s = (Inr (), s)" by (simp add: EnsureTreeExists_def cnt bindM_read)
  have "t < of_nat (unat m)" using ok(3) by simp
  from full_leaf_root [OF rep full par(2,3) unset laws ok(1,2) this ok(4)] obtain s1 where
    leaf: "insertLeafIntoTree E t c (effective_depth p) s =
      (Inr (frBytes (hash2 E 0 (roots_of E d [c])), of_nat (2 ^ d)), s1)" by blast
  have "InsertNote E c s =
      (Inr (frBytes (hash2 E 0 (roots_of E d [c])), of_nat (2 ^ d), t), kv_set (CommitmentUsedKey c) [1] s1)"
    using ens leaf
    by (simp only: InsertNote_def Let_def bindM_Inr bindM_read sum.case fresh if_False act par(1) n room
        bindM_return prod.case bindM_modify monad_eval)
  then show ?thesis by blast
qed

text \<open>C26: Raising the depth by one while the active tree is exactly full, and the frontier slot of the
  new level was never written, corrupts the tree: the next note goes into that tree, and the root that is published for it is the hash of zero and the subtree of
  the note, whereas the Merkle root of the leaves is the hash of the old root and that subtree.
  The two differ, unless the old root is zero or the hash collides on these two inputs, so that
  the published root is not the Merkle root of the leaves.\<close>

theorem raised_depth_publishes_wrong_root:
  assumes "GetTreeCount s = Inr m" and "m \<noteq> 0" and "GetActiveTreeId s = Inr t"
    and "GetParams E s = Inr p" and "unat (effective_depth p) = Suc d" and "Suc d < 64"
    and "tree_rep E (KCommitment t) (KFrontier t) (KTreeNextIndex t) d s cs" and "length cs = 2 ^ d"
    and "kv_get s (FrontierKey t (of_nat d)) = None" and "zero_hash_laws E"
    and "index_ok s" and "root_slots_in s (unat m)" and "t < m" and "unat m \<le> 2 * tree_bound"
    and "\<not> kv_has s (CommitmentUsedKey c)"
    and "roots_of E d cs \<noteq> 0" and "inj_on (case_prod (hash2 E)) {(0, roots_of E d [c]), (roots_of E d cs, roots_of E d [c])}"
  shows "\<exists>root s'. InsertNote E c s = (Inr (root, of_nat (2 ^ d), t), s') \<and>
    root = frBytes (hash2 E 0 (roots_of E d [c])) \<and>
    roots_of E (Suc d) (cs @ [c]) = hash2 E (roots_of E d cs) (roots_of E d [c]) \<and>
    root \<noteq> frBytes (roots_of E (Suc d) (cs @ [c]))"
proof -
  have halves: "roots_of E (Suc d) (cs @ [c]) = hash2 E (roots_of E d cs) (roots_of E d [c])"
    using merkle_root_halves [of "map SetBytes cs" d "hash2 E" "SetBytes c"] assms(8) by simp
  have "hash2 E 0 (roots_of E d [c]) \<noteq> hash2 E (roots_of E d cs) (roots_of E d [c])"
    using inj_onD [OF assms(17), of "(0, roots_of E d [c])" "(roots_of E d cs, roots_of E d [c])"] assms(16) by auto
  with full_InsertNote [OF assms(1-15)] halves show ?thesis by auto
qed

definition ext3 :: "(bytes, ledger) ext" where
  "ext3 = ext1\<lparr>unmarshalParams := (\<lambda>bz. Inr (params1\<lparr>TreeDepth := 2\<rparr>))\<rparr>"

text \<open>A tree of depth one with its two leaves, under parameters that now say two.\<close>

definition store3 :: store where
  "store3 = kv_set ParamsKeyBytes [1] (kv_set TreeCountKey (be64 1) (kv_set ActiveTreeIdKey (be64 0)
     (kv_set (TreeNextIndexKey 0) (be64 2) (kv_set (CommitmentKey 0 0) [4] (kv_set (CommitmentKey 0 1) [5]
     (kv_set (FrontierKey 0 0) [4] kv_empty))))))"

lemma store3_get:
  "kv_get store3 (skey_bytes k) =
     (if k = KParams then Some [1] else if k = KTreeCount then Some (be64 1)
      else if k = KActiveTreeId then Some (be64 0) else if k = KTreeNextIndex 0 then Some (be64 2)
      else if k = KCommitment 0 0 then Some [4] else if k = KCommitment 0 1 then Some [5]
      else if k = KFrontier 0 0 then Some [4] else None)"
  by (simp add: store3_def)

lemma store3_rep: "tree_rep ext3 (KCommitment 0) (KFrontier 0) (KTreeNextIndex 0) 1 store3 [[4], [5]]"
proof -
  have "(\<forall>i < length [[4 :: byte], [5]]. P i) \<longleftrightarrow> P 0 \<and> P 1" for P by (auto simp: less_Suc_eq)
  then show ?thesis
    by (simp add: tree_rep_def store3_get kv_u64_def frontier_inv_def)
qed

lemma ext3_laws: "zero_hash_laws ext3"
  using ext1_laws by (simp add: zero_hash_laws_def ext3_def)

lemma store3_index: "index_ok store3" "root_slots_in store3 1"
proof -
  have none: "slot_root store3 sl = None" for sl by (cases sl) (simp_all add: slot_root_def store3_get)
  show "root_slots_in store3 1" by (simp add: root_slots_in_def none)
  show "index_ok store3"
    by (simp add: index_ok_def holders_def none index_is_def index_entry_def store3_get)
qed

theorem raised_depth_publishes_wrong_root_witness:
  "\<exists>root s'. InsertNote ext3 [6] store3 = (Inr (root, 2, 0), s') \<and>
    root \<noteq> frBytes (roots_of ext3 2 [[4], [5], [6]])"
proof -
  have cnt: "GetTreeCount store3 = Inr 1" "GetActiveTreeId store3 = Inr 0"
    by (simp_all add: GetTreeCount_def GetActiveTreeId_def kv_u64_def store3_get)
  have p: "GetParams ext3 store3 = Inr (params1\<lparr>TreeDepth := 2\<rparr>)"
    "unat (effective_depth (params1\<lparr>TreeDepth := 2\<rparr>)) = Suc 1"
    by (simp_all add: GetParams_def store3_get ext3_def effective_depth_def)
  have free: "kv_get store3 (FrontierKey 0 (of_nat 1)) = None" "\<not> kv_has store3 (CommitmentUsedKey [6])"
    by (simp_all add: store3_get) (simp add: store3_def)
  have h: "hash2 ext3 = (\<lambda>a b. a + b)" by (simp add: ext3_def ext1_def)
  have nz: "roots_of ext3 1 [[4], [5]] \<noteq> 0"
    by (simp add: merkle_root_def leaf_fun_def h SetBytes_def be_nat_Cons plus_fr.rep_eq fr_val_of_int
        fr_modulus_def flip: fr_val_inject)
  have inj: "inj_on (case_prod (hash2 ext3)) {(0, roots_of ext3 1 [[6]]), (roots_of ext3 1 [[4], [5]], roots_of ext3 1 [[6]])}"
    by (auto simp: inj_on_def h)
  have slots: "root_slots_in store3 (unat (1 :: u64))" using store3_index(2) by simp
  have room: "unat (1 :: u64) \<le> 2 * tree_bound" by (simp add: tree_bound_def)
  from raised_depth_publishes_wrong_root [OF cnt(1) _ cnt(2) p _ store3_rep _ free(1) ext3_laws store3_index(1) slots _ room free(2) nz inj]
  show ?thesis by (auto simp: numeral_2_eq_2)
qed

end
