(* ===== verification/Grumpkin.thy ===== *)
theory Grumpkin
  imports Field
begin

section \<open>Grumpkin keys\<close>

text \<open>
  \<open>crypto/grumpkin.go\<close>.  The curve of gnark-crypto and the Poseidon2 hash are outside the
  repository: they are the fields of \<open>curve\<close>.  A point has its coordinates in the field \<open>fr\<close>
  (the base field of Grumpkin is the scalar field of BN254).
\<close>

record point =
  pX :: fr
  pY :: fr

record curve =
  \<comment> \<open>\<open>poseidon2.Hash2\<close>, \<open>poseidon2.Hash\<close>\<close>
  poseidon2 :: "fr \<Rightarrow> fr \<Rightarrow> fr"
  poseidon :: "fr list \<Rightarrow> fr"
  \<comment> \<open>\<open>G1Affine.IsOnCurve\<close>, \<open>ScalarMultiplicationBase\<close>, \<open>ScalarMultiplication\<close>, \<open>Bytes\<close> (compressed)\<close>
  onCurve :: "point \<Rightarrow> bool"
  baseMult :: "int \<Rightarrow> point"
  scalarMult :: "point \<Rightarrow> int \<Rightarrow> point"
  compress :: "point \<Rightarrow> bytes"
  \<comment> \<open>\<open>ecdsa.PrivateKey.SetBytes\<close>, the public key it sets; \<open>ecdsa.GenerateKey(rand.Reader)\<close>, the bytes
    of the key\<close>
  ecdsaPublic :: "bytes \<Rightarrow> err + point"
  ecdsaGenerate :: "err + bytes"

definition PubKeySize :: nat where
  "PubKeySize = 64"

definition PrivKeySize :: nat where
  "PrivKeySize = 64"

record GrumpkinPubKey =
  pk_Key :: bytes

record GrumpkinPrivKey =
  sk_Key :: bytes

text \<open>\<open>b[:n]\<close> and \<open>b[n:]\<close>, which panic on a shorter slice; \<open>copy\<close> into a fresh slice of \<open>n\<close>
  bytes.\<close>

definition slice_to :: "bytes \<Rightarrow> nat \<Rightarrow> err + bytes" where
  "slice_to b n = (if n \<le> length b then Inr (take n b) else Inl (Panic ''slice bounds out of range''))"

definition slice_from :: "bytes \<Rightarrow> nat \<Rightarrow> err + bytes" where
  "slice_from b n = (if n \<le> length b then Inr (drop n b) else Inl (Panic ''slice bounds out of range''))"

definition copied :: "nat \<Rightarrow> bytes \<Rightarrow> bytes" where
  "copied n b = take n b @ replicate (n - length b) 0"

lemma bounds_simps [simp]:
  "n \<le> length b \<Longrightarrow> slice_to b n = Inr (take n b)" "n \<le> length b \<Longrightarrow> slice_from b n = Inr (drop n b)"
  by (simp_all add: slice_to_def slice_from_def)

lemma bounds_Inr_iff [simp]:
  "slice_to b n = Inr r \<longleftrightarrow> n \<le> length b \<and> r = take n b"
  "slice_from b n = Inr r \<longleftrightarrow> n \<le> length b \<and> r = drop n b"
  by (auto simp: slice_to_def slice_from_def)

lemma copied_exact [simp]: "length b = n \<Longrightarrow> copied n b = b"
  by (simp add: copied_def)

lemma length_copied [simp]: "length (copied n b) = n"
  by (simp add: copied_def)

subsection \<open>Points and public keys\<close>

definition PointFromRawXY :: "curve \<Rightarrow> bytes \<Rightarrow> err + point" where
  "PointFromRawXY C key =
     bindE (slice_to key 32) (\<lambda>x.
     bindE (slice_from key 32) (\<lambda>y.
     let p = \<lparr>pX = SetBytes x, pY = SetBytes y\<rparr> in
     if \<not> onCurve C p then Inl (Std ''point is not on the Grumpkin curve'') else Inr p))"

definition RawXYFromPoint :: "point \<Rightarrow> bytes" where
  "RawXYFromPoint p = copied 32 (frBytes (pX p)) @ copied 32 (frBytes (pY p))"

definition NewGrumpkinPubKey :: "curve \<Rightarrow> bytes \<Rightarrow> err + GrumpkinPubKey" where
  "NewGrumpkinPubKey C key =
     (if length key \<noteq> PubKeySize then Inl (Std ''grumpkin pubkey must be 64 bytes'')
      else case PointFromRawXY C key of
        Inl e \<Rightarrow> Inl (if is_panic e then e else Std ''grumpkin pubkey bytes are not a valid curve point'')
      | Inr p \<Rightarrow> Inr \<lparr>pk_Key = key\<rparr>)"

definition PubKey_Commitment :: "curve \<Rightarrow> GrumpkinPubKey \<Rightarrow> err + fr" where
  "PubKey_Commitment C pk =
     bindE (slice_to (pk_Key pk) 32) (\<lambda>x.
     bindE (slice_from (pk_Key pk) 32) (\<lambda>y.
     Inr (poseidon2 C (SetBytes x) (SetBytes y))))"

definition PubKey_Address :: "curve \<Rightarrow> GrumpkinPubKey \<Rightarrow> bytes option" where
  "PubKey_Address C pk =
     (if length (pk_Key pk) \<noteq> PubKeySize then None
      else let x = SetBytes (take 32 (pk_Key pk)); y = SetBytes (drop 32 (pk_Key pk));
               hashBytes = frBytes (poseidon2 C x y)
           in Some (copied 20 (take (32 - 12) (drop 12 hashBytes))))"

definition PubKey_Equals :: "GrumpkinPubKey \<Rightarrow> GrumpkinPubKey \<Rightarrow> bool" where
  "PubKey_Equals pk other \<longleftrightarrow> pk_Key pk = pk_Key other"

subsection \<open>Private keys\<close>

definition GenerateKey :: "curve \<Rightarrow> err + GrumpkinPrivKey" where
  "GenerateKey C =
     bindE (ecdsaGenerate C) (\<lambda>bz.
     bindE (slice_to bz PrivKeySize) (\<lambda>b. Inr \<lparr>sk_Key = copied PrivKeySize b\<rparr>))"

definition PrivKeyFromScalar :: "curve \<Rightarrow> fr \<Rightarrow> bytes" where
  "PrivKeyFromScalar C scalar =
     (let scalarBytes = frBytes scalar; scalarInt = int (be_nat scalarBytes);
          pubPoint = baseMult C scalarInt
      in copied 32 (compress C pubPoint) @ copied 32 scalarBytes)"

definition PrivKeyFromScalarBytes :: "curve \<Rightarrow> bytes \<Rightarrow> err + GrumpkinPrivKey" where
  "PrivKeyFromScalarBytes C scalarBytes =
     (if length scalarBytes \<noteq> 32 then Inl (Std ''scalar must be 32 bytes'')
      else let scalar = SetBytes scalarBytes in
        if scalar = 0 then Inl (Std ''scalar must be non-zero'')
        else Inr \<lparr>sk_Key = PrivKeyFromScalar C scalar\<rparr>)"

definition PrivKey_PubKey :: "curve \<Rightarrow> GrumpkinPrivKey \<Rightarrow> err + GrumpkinPubKey" where
  "PrivKey_PubKey C sk =
     (case ecdsaPublic C (sk_Key sk) of
        Inl e \<Rightarrow> Inl (if is_panic e then e else Std ''failed to deserialize grumpkin private key'')
      | Inr p \<Rightarrow> Inr \<lparr>pk_Key = RawXYFromPoint p\<rparr>)"

definition PrivKey_ScalarBytes :: "GrumpkinPrivKey \<Rightarrow> err + bytes" where
  "PrivKey_ScalarBytes sk = slice_from (sk_Key sk) 32"

definition PrivKey_Equals :: "GrumpkinPrivKey \<Rightarrow> GrumpkinPrivKey \<Rightarrow> bool" where
  "PrivKey_Equals sk other \<longleftrightarrow> sk_Key sk = sk_Key other"

subsection \<open>What the library documents\<close>

text \<open>The non-zero multiples of the generator are curve points, and a private key read back from its bytes
  has the public key it was written with.\<close>

definition key_laws :: "curve \<Rightarrow> bool" where
  "key_laws C \<longleftrightarrow> (\<forall>k. 0 < k \<and> k < fr_modulus \<longrightarrow> onCurve C (baseMult C k)) \<and> (\<forall>p. length (compress C p) = 32) \<and>
     (\<forall>k s. 0 < k \<and> k < fr_modulus \<and> s = be_bytes 32 (nat k) \<longrightarrow>
        ecdsaPublic C (compress C (baseMult C k) @ s) = Inr (baseMult C k))"

subsection \<open>Keys and points\<close>

text \<open>The coordinates a key of 64 bytes holds.\<close>

definition key_point :: "bytes \<Rightarrow> point" where
  "key_point key = \<lparr>pX = SetBytes (take 32 key), pY = SetBytes (drop 32 key)\<rparr>"

lemma NewGrumpkinPubKey_iff:
  "NewGrumpkinPubKey C key = Inr pk \<longleftrightarrow>
     length key = 64 \<and> onCurve C (key_point key) \<and> pk = \<lparr>pk_Key = key\<rparr>"
  by (auto simp: NewGrumpkinPubKey_def PointFromRawXY_def PubKeySize_def key_point_def Let_def)

lemma PointFromRawXY_iff:
  "PointFromRawXY C key = Inr p \<longleftrightarrow> 32 \<le> length key \<and> onCurve C (key_point key) \<and> p = key_point key"
  by (auto simp: PointFromRawXY_def key_point_def Let_def bindE_Inr_iff split: if_splits)

lemma length_RawXY [simp]: "length (RawXYFromPoint p) = 64"
  by (simp add: RawXYFromPoint_def)

lemma key_point_RawXY [simp]: "key_point (RawXYFromPoint p) = p"
  by (simp add: RawXYFromPoint_def key_point_def)

lemma RawXY_key_point:
  assumes "canonical (take 32 key)" "canonical (drop 32 key)"
  shows "RawXYFromPoint (key_point key) = key"
proof -
  have "length (take 32 key) = 32" "length (drop 32 key) = 32" using assms by (simp_all only: canonical_def)
  with assms show ?thesis by (simp only: RawXYFromPoint_def key_point_def point.simps
      frBytes_SetBytes copied_exact append_take_drop_id)
qed

lemma NewGrumpkinPubKey_RawXY: "onCurve C p \<Longrightarrow> NewGrumpkinPubKey C (RawXYFromPoint p) = Inr \<lparr>pk_Key = RawXYFromPoint p\<rparr>"
  by (simp add: NewGrumpkinPubKey_iff)

lemma Commitment_key:
  "32 \<le> length (pk_Key pk) \<Longrightarrow> PubKey_Commitment C pk =
     Inr (poseidon2 C (pX (key_point (pk_Key pk))) (pY (key_point (pk_Key pk))))"
  by (simp add: PubKey_Commitment_def key_point_def)

text \<open>The address is the last 20 bytes of the commitment.\<close>

lemma Address_of_commitment:
  "length (pk_Key pk) = 64 \<Longrightarrow> PubKey_Commitment C pk = Inr c \<Longrightarrow>
     PubKey_Address C pk = Some (drop 12 (frBytes c))"
  by (auto simp: PubKey_Commitment_def PubKey_Address_def PubKeySize_def Let_def)

text \<open>A key made from a scalar: its halves are the compressed public point and the reduced
  scalar, and its public key is that multiple of the generator.\<close>

lemma PrivKeyFromScalarBytes_iff:
  "PrivKeyFromScalarBytes C b = Inr sk \<longleftrightarrow> length b = 32 \<and> SetBytes b \<noteq> 0 \<and>
     sk = \<lparr>sk_Key = copied 32 (compress C (baseMult C (fr_val (SetBytes b)))) @ frBytes (SetBytes b)\<rparr>"
  by (auto simp: PrivKeyFromScalarBytes_def PrivKeyFromScalar_def Let_def)

lemma fr_val_pos: "x \<noteq> 0 \<Longrightarrow> 0 < fr_val x"
  using fr_val_bounds(1) [of x] fr_val_inject [of x 0] by (simp add: less_le)

lemma PubKey_of_scalar:
  assumes laws: "key_laws C" and sk: "PrivKeyFromScalarBytes C b = Inr sk"
  shows "PrivKey_PubKey C sk = Inr \<lparr>pk_Key = RawXYFromPoint (baseMult C (fr_val (SetBytes b)))\<rparr>"
    and "PrivKey_ScalarBytes sk = Inr (frBytes (SetBytes b))"
    and "onCurve C (baseMult C (fr_val (SetBytes b)))"
proof -
  from sk have nz: "SetBytes b \<noteq> 0" and key: "sk_Key sk =
      copied 32 (compress C (baseMult C (fr_val (SetBytes b)))) @ frBytes (SetBytes b)"
    by (simp_all add: PrivKeyFromScalarBytes_iff)
  have "length (compress C (baseMult C (fr_val (SetBytes b)))) = 32" using laws by (simp add: key_laws_def)
  moreover from laws fr_val_pos [OF nz] have "ecdsaPublic C
      (compress C (baseMult C (fr_val (SetBytes b))) @ frBytes (SetBytes b)) =
      Inr (baseMult C (fr_val (SetBytes b)))"
    by (simp add: key_laws_def frBytes_def)
  ultimately show "PrivKey_PubKey C sk = Inr \<lparr>pk_Key = RawXYFromPoint (baseMult C (fr_val (SetBytes b)))\<rparr>"
    by (simp add: PrivKey_PubKey_def key)
  show "PrivKey_ScalarBytes sk = Inr (frBytes (SetBytes b))"
    by (simp add: PrivKey_ScalarBytes_def key)
  show "onCurve C (baseMult C (fr_val (SetBytes b)))"
    using laws fr_val_pos [OF nz] by (simp add: key_laws_def)
qed

end
