(* ===== verification/ECIES.thy ===== *)
theory ECIES
  imports Grumpkin
begin

section \<open>ECIES over Grumpkin\<close>

text \<open>
  \<open>crypto/ecies.go\<close>: encryption of one field element and of a list (counter mode) under a key
  derived from a Diffie-Hellman exchange.  A \<open>big.Int\<close> is an \<open>int\<close>; \<open>SetBigInt\<close> of the integer
  of a coordinate is written out as the code has it.
\<close>

record ECIESCiphertext =
  AuthKeyX :: fr
  AuthKeyY :: fr
  Encrypted :: fr

definition ECIES_Encrypt :: "curve \<Rightarrow> fr \<Rightarrow> int \<Rightarrow> point \<Rightarrow> err + ECIESCiphertext" where
  "ECIES_Encrypt C v randomness receiverPk =
     (if sgn randomness = 0 then Inl (Std ''randomness must be non-zero'')
      else let authKey = baseMult C randomness; shared = scalarMult C receiverPk randomness;
               sharedX = fr_of_int (fr_val (pX shared)); sharedY = fr_of_int (fr_val (pY shared));
               key = poseidon2 C sharedX sharedY;
               authKeyX = fr_of_int (fr_val (pX authKey)); authKeyY = fr_of_int (fr_val (pY authKey))
           in Inr \<lparr>AuthKeyX = authKeyX, AuthKeyY = authKeyY, Encrypted = v + key\<rparr>)"

definition ECIES_Decrypt :: "curve \<Rightarrow> int \<Rightarrow> point \<Rightarrow> fr \<Rightarrow> fr" where
  "ECIES_Decrypt C sk authKey encrypted =
     (let shared = scalarMult C authKey sk;
          sharedX = fr_of_int (fr_val (pX shared)); sharedY = fr_of_int (fr_val (pY shared));
          key = poseidon2 C sharedX sharedY
      in encrypted - key)"

text \<open>\<open>counter.SetUint64(uint64(i))\<close>, and the key of position \<open>i\<close>.\<close>

definition counter_elem :: "nat \<Rightarrow> fr" where
  "counter_elem i = fr_of_int (uint (of_nat i :: u64))"

definition EncryptCounterMode :: "curve \<Rightarrow> fr list \<Rightarrow> int \<Rightarrow> point \<Rightarrow> err + (point \<times> fr list)" where
  "EncryptCounterMode C vals randomness receiverPk =
     (if sgn randomness = 0 then Inl (Std ''randomness must be non-zero'')
      else let ephemeral = baseMult C randomness; shared = scalarMult C receiverPk randomness;
               sharedX = fr_of_int (fr_val (pX shared)); sharedY = fr_of_int (fr_val (pY shared))
           in Inr (ephemeral, map (\<lambda>(i, v). v + poseidon C [sharedX, sharedY, counter_elem i])
                                (enumerate 0 vals)))"

definition DecryptCounterMode :: "curve \<Rightarrow> int \<Rightarrow> point \<Rightarrow> fr list \<Rightarrow> fr list" where
  "DecryptCounterMode C sk ephemeral ciphertexts =
     (let shared = scalarMult C ephemeral sk;
          sharedX = fr_of_int (fr_val (pX shared)); sharedY = fr_of_int (fr_val (pY shared))
      in map (\<lambda>(i, ct). ct - poseidon C [sharedX, sharedY, counter_elem i]) (enumerate 0 ciphertexts))"

subsection \<open>The key exchange\<close>

text \<open>What scalar multiplication documents: the two sides of an exchange reach the same point.  An
  interface of its own, so that the proofs below name only what they use.\<close>

definition ecdh_law :: "curve \<Rightarrow> bool" where
  "ecdh_law C \<longleftrightarrow> (\<forall>a b. scalarMult C (baseMult C a) b = scalarMult C (baseMult C b) a)"

lemma sgn_zero_iff: "sgn (r :: int) = 0 \<longleftrightarrow> r = 0"
  by (simp add: sgn_eq_0_iff)

lemma Encrypt_iff:
  "ECIES_Encrypt C v r pk = Inr c \<longleftrightarrow> r \<noteq> 0 \<and>
     c = \<lparr>AuthKeyX = pX (baseMult C r), AuthKeyY = pY (baseMult C r),
          Encrypted = v + poseidon2 C (pX (scalarMult C pk r)) (pY (scalarMult C pk r))\<rparr>"
  by (auto simp: ECIES_Encrypt_def Let_def sgn_zero_iff)

lemma Decrypt_Encrypt:
  assumes "ecdh_law C" "ECIES_Encrypt C v r (baseMult C sk) = Inr c"
  shows "ECIES_Decrypt C sk \<lparr>pX = AuthKeyX c, pY = AuthKeyY c\<rparr> (Encrypted c) = v"
proof -
  have auth: "\<lparr>pX = AuthKeyX c, pY = AuthKeyY c\<rparr> = baseMult C r"
    using assms(2) by (simp add: Encrypt_iff)
  moreover have "scalarMult C (baseMult C r) sk = scalarMult C (baseMult C sk) r"
    using assms(1) unfolding ecdh_law_def by blast
  ultimately show ?thesis
    using assms(2) unfolding auth by (simp add: ECIES_Decrypt_def Encrypt_iff Let_def)
qed

lemma EncryptCounterMode_iff:
  "EncryptCounterMode C vs r pk = Inr (e, cts) \<longleftrightarrow> r \<noteq> 0 \<and> e = baseMult C r \<and>
     cts = map (\<lambda>(i, v). v + poseidon C [pX (scalarMult C pk r), pY (scalarMult C pk r), counter_elem i])
       (enumerate 0 vs)"
  by (auto simp: EncryptCounterMode_def Let_def sgn_zero_iff)

lemma DecryptCounterMode_Encrypt:
  assumes "ecdh_law C" "EncryptCounterMode C vs r (baseMult C sk) = Inr (e, cts)"
  shows "DecryptCounterMode C sk e cts = vs"
proof -
  have "scalarMult C (baseMult C r) sk = scalarMult C (baseMult C sk) r"
    using assms(1) unfolding ecdh_law_def by blast
  with assms(2) show ?thesis
    by (intro nth_equalityI)
      (auto simp: EncryptCounterMode_iff DecryptCounterMode_def Let_def nth_enumerate_eq)
qed

lemma counter_elem_int: "i < 2 ^ 64 \<Longrightarrow> counter_elem i = fr_of_int (int i)"
  by (simp add: counter_elem_def uint_nat unat_of_nat take_bit_eq_mod)

text \<open>The counters of two positions below \<open>2\<^sup>6\<^sup>4\<close> are different elements: no key input is used
  twice.\<close>

lemma counter_elem_inj: "i < 2 ^ 64 \<Longrightarrow> j < 2 ^ 64 \<Longrightarrow> counter_elem i = counter_elem j \<longleftrightarrow> i = j"
proof -
  assume ij: "i < 2 ^ 64" "j < 2 ^ 64"
  have u: "uint (of_nat n :: u64) = int n" if "n < 2 ^ 64" for n
    using that by (simp add: uint_nat unat_of_nat take_bit_eq_mod)
  have m: "int n mod fr_modulus = int n" if "n < 2 ^ 64" for n
    using that by (simp add: fr_modulus_def)
  show ?thesis using ij by (simp add: counter_elem_def fr_of_int_eq_iff u m)
qed

text \<open>A ciphertext is not authenticated: every change of an element changes the plaintext of that
  position by the same amount, and no other.\<close>

lemma DecryptCounterMode_update:
  assumes "k < length cts"
  shows "DecryptCounterMode C sk e (cts[k := cts ! k + delta]) =
    (DecryptCounterMode C sk e cts)[k := DecryptCounterMode C sk e cts ! k + delta]"
  using assms
  by (intro nth_equalityI) (auto simp: DecryptCounterMode_def Let_def nth_enumerate_eq nth_list_update algebra_simps)

end
