(* ===== verification/NixAddress.thy ===== *)
theory NixAddress
  imports Grumpkin Text
begin

section \<open>Nix addresses\<close>

text \<open>
  \<open>crypto/nixaddress.go\<close>: an address is the text \<open>nix:<commitment>:<x>:<y>\<close> of a public key.
  Indexing a Go string yields bytes; the model converts the string once (\<open>bytes_of\<close>).
\<close>

unbundle bit_operations_syntax

definition hexNibble :: "byte \<Rightarrow> err + byte" where
  "hexNibble c =
     (if c \<ge> 48 \<and> c \<le> 57 then Inr (c - 48)
      else if c \<ge> 97 \<and> c \<le> 102 then Inr (c - 97 + 10)
      else if c \<ge> 65 \<and> c \<le> 70 then Inr (c - 65 + 10)
      else Inl (Std ''invalid hex character''))"

definition hexByte :: "byte \<Rightarrow> byte \<Rightarrow> err + byte" where
  "hexByte hi lo =
     bindE (hexNibble hi) (\<lambda>h.
     bindE (hexNibble lo) (\<lambda>l. Inr (push_bit 4 h OR l)))"

text \<open>\<open>strings.TrimPrefix(s, "0x")\<close>, and the loop that pads with zeros to 64 characters.\<close>

definition trim_0x :: "string \<Rightarrow> string" where
  "trim_0x s = (if prefix ''0x'' s then drop 2 s else s)"

function pad64 :: "string \<Rightarrow> string" where
  "pad64 s = (if length s < 64 then pad64 (CHR ''0'' # s) else s)"
  by pat_completeness auto
termination
  by (relation "measure (\<lambda>s. 64 - length s)") auto

declare pad64.simps [simp del]

definition hexToBytes32 :: "string \<Rightarrow> err + bytes" where
  "hexToBytes32 s0 =
     (let s = pad64 (trim_0x s0) in
      if length s \<noteq> 64 then Inl (Std ''hex string too long'')
      else mapE (\<lambda>i. bindE (index_at (bytes_of s) (i * 2)) (\<lambda>hi.
        bindE (index_at (bytes_of s) (i * 2 + 1)) (\<lambda>lo. hexByte hi lo))) [0..<32])"

definition EncodeNixAddress :: "curve \<Rightarrow> GrumpkinPubKey \<Rightarrow> err + string" where
  "EncodeNixAddress C pubKey =
     bindE (PubKey_Commitment C pubKey) (\<lambda>commitment.
     bindE (slice_to (pk_Key pubKey) 32) (\<lambda>x.
     bindE (slice_from (pk_Key pubKey) 32) (\<lambda>y.
     Inr (''nix:'' @ fmt_hex64 (frBytes commitment) @ '':'' @ fmt_hex64 x @ '':'' @ fmt_hex64 y))))"

definition DecodeNixAddress :: "curve \<Rightarrow> string \<Rightarrow> err + GrumpkinPubKey" where
  "DecodeNixAddress C address =
     (if \<not> prefix ''nix:'' address then Inl (Std ''nix address must start with nix:'')
      else bindE (go_slice address 4 (length address)) (\<lambda>rest.
        let parts = split_at CHR '':'' rest in
        if length parts \<noteq> 3 then Inl (Std ''expected format nix:<commitment>:<pk.x>:<pk.y>'')
        else
          bindE (index_at parts 0) (\<lambda>p0.
          bindE (rewrapE ''invalid commitment hex'' (hexToBytes32 p0)) (\<lambda>commitmentBytes.
          let commitment = SetBytes commitmentBytes in
          bindE (index_at parts 1) (\<lambda>p1.
          bindE (rewrapE ''invalid pk.x hex'' (hexToBytes32 p1)) (\<lambda>pkxBytes.
          bindE (index_at parts 2) (\<lambda>p2.
          bindE (rewrapE ''invalid pk.y hex'' (hexToBytes32 p2)) (\<lambda>pkyBytes.
          let keyBytes = copied 32 pkxBytes @ copied 32 pkyBytes in
          bindE (rewrapE ''public key is not on the Grumpkin curve'' (NewGrumpkinPubKey C keyBytes)) (\<lambda>pubKey.
          bindE (PubKey_Commitment C pubKey) (\<lambda>expectedCommitment.
          if commitment \<noteq> expectedCommitment then Inl (Std ''commitment does not match public key'')
          else Inr pubKey))))))))))"

definition NixAddressFromPrivKey :: "curve \<Rightarrow> GrumpkinPrivKey \<Rightarrow> err + string" where
  "NixAddressFromPrivKey C privKey =
     bindE (PrivKey_PubKey C privKey) (\<lambda>pubKey. EncodeNixAddress C pubKey)"

subsection \<open>Reading hexadecimal\<close>

lemma char_byte_le:
  "(of_nat k :: byte) \<le> of_nat (of_char c) \<longleftrightarrow> k \<le> of_char c"
  "(of_nat (of_char c) :: byte) \<le> of_nat k \<longleftrightarrow> of_char c \<le> k" if "k < 256" for c :: char
proof -
  have "of_char c < (256 :: nat)" by (rule nat_of_char_less_256)
  with that show "(of_nat k :: byte) \<le> of_nat (of_char c) \<longleftrightarrow> k \<le> of_char c"
    "(of_nat (of_char c) :: byte) \<le> of_nat k \<longleftrightarrow> of_char c \<le> k"
    by (simp_all add: word_le_nat_alt unat_of_nat take_bit_eq_mod)
qed

lemma hexNibble_digit:
  "hexNibble (of_nat (of_char c)) =
     (case digit_val c of Some n \<Rightarrow> Inr (of_nat n) | None \<Rightarrow> Inl (Std ''invalid hex character''))"
  using char_byte_le [of 48 c] char_byte_le [of 57 c] char_byte_le [of 97 c] char_byte_le [of 102 c]
    char_byte_le [of 65 c] char_byte_le [of 70 c]
  by (simp add: hexNibble_def digit_val_def Let_def of_nat_diff)

lemma nibbles: "h < 16 \<Longrightarrow> l < 16 \<Longrightarrow> push_bit 4 (of_nat h) OR of_nat l = (of_nat (16 * h + l) :: byte)"
proof -
  have "list_all (\<lambda>h. list_all (\<lambda>l. push_bit 4 (of_nat h) OR of_nat l = (of_nat (16 * h + l) :: byte)) [0..<16]) [0..<16]"
    by code_simp
  then show "h < 16 \<Longrightarrow> l < 16 \<Longrightarrow> ?thesis" by (simp add: list_all_iff)
qed

lemma hexByte_digits:
  "hexByte (of_nat (of_char c)) (of_nat (of_char d)) =
     (case (digit_val c, digit_val d) of
        (Some h, Some l) \<Rightarrow> Inr (of_nat (16 * h + l))
      | _ \<Rightarrow> Inl (Std ''invalid hex character''))"
  using digit_val_less [of c] digit_val_less [of d]
  by (auto simp: hexByte_def hexNibble_digit nibbles simp del: of_nat_add of_nat_mult split: option.splits)

lemma mapE_map: "mapE f (map g xs) = mapE (\<lambda>x. f (g x)) xs"
  by (induction xs) simp_all

text \<open>The loop over the pairs is \<open>hexDecode\<close> on a string of even length.\<close>

lemma pairs_hexDecode:
  "length s = 2 * n \<Longrightarrow>
     mapE (\<lambda>i. hexByte (bytes_of s ! (i * 2)) (bytes_of s ! (i * 2 + 1))) [0..<n] = Inr b \<longleftrightarrow>
     hexDecode s = Inr b"
proof (induction n arbitrary: s b)
  case (Suc n)
  then obtain c d cs where s: "s = c # d # cs" and len: "length cs = 2 * n"
    by (cases s; cases "tl s") auto
  have shift: "mapE (\<lambda>i. hexByte (bytes_of s ! (i * 2)) (bytes_of s ! (i * 2 + 1))) [0..<Suc n] =
      bindE (hexByte (of_nat (of_char c)) (of_nat (of_char d))) (\<lambda>y.
      bindE (mapE (\<lambda>i. hexByte (bytes_of cs ! (i * 2)) (bytes_of cs ! (i * 2 + 1))) [0..<n]) (\<lambda>ys.
      Inr (y # ys)))"
    by (simp add: upt_conv_Cons s bytes_of_def mapE_map del: upt_Suc flip: map_Suc_upt)
  note IH = Suc.IH [OF len, unfolded Suc_eq_plus1 [symmetric]]
  show ?case
    unfolding shift hexByte_digits
    by (simp add: s bindE_Inr_iff IH del: of_nat_add of_nat_mult split: option.split)
qed simp

lemma length_pad64: "length (pad64 s) = max 64 (length s)"
  by (induction s rule: pad64.induct) (subst pad64.simps, simp)

lemma pad64_eq: "pad64 s = replicate (64 - length s) CHR ''0'' @ s"
proof (induction s rule: pad64.induct)
  case (1 s)
  show ?case
  proof (cases "length s < 64")
    case True
    then have "64 - length s = Suc (64 - Suc (length s))" by simp
    with True 1 show ?thesis by (subst pad64.simps) (simp flip: replicate_append_same)
  next
    case False
    then show ?thesis by (subst pad64.simps) simp
  qed
qed

text \<open>The indices are within the 64 characters.\<close>

lemma hexToBytes32_pairs:
  "hexToBytes32 s0 =
     (let s = pad64 (trim_0x s0) in
      if length s \<noteq> 64 then Inl (Std ''hex string too long'')
      else mapE (\<lambda>i. hexByte (bytes_of s ! (i * 2)) (bytes_of s ! (i * 2 + 1))) [0..<32])"
  by (auto simp: hexToBytes32_def Let_def intro!: mapE_cong)

text \<open>\<open>hexToBytes32\<close> reads, after an optional \<open>0x\<close>, up to 64 digits of either case as one number.\<close>

lemma hexToBytes32_iff:
  "hexToBytes32 s = Inr b \<longleftrightarrow>
     length (trim_0x s) \<le> 64 \<and> is_hex (trim_0x s) \<and> length b = 32 \<and> be_nat b = hex_num (trim_0x s)"
proof -
  let ?t = "pad64 (trim_0x s)"
  have zero: "is_hex (replicate n CHR ''0'')" for n by (auto simp: is_hex_def digit_val_def)
  have "hexToBytes32 s = Inr b \<longleftrightarrow> length ?t = 2 * 32 \<and> hexDecode ?t = Inr b"
    using pairs_hexDecode [of ?t 32 b] by (auto simp: hexToBytes32_pairs Let_def)
  also have "\<dots> \<longleftrightarrow> length ?t = 64 \<and> is_hex ?t \<and> length b = 32 \<and> be_nat b = hex_num ?t"
    by (auto simp: hexDecode_iff)
  finally show ?thesis
    by (auto simp: pad64_eq hex_num_zeros zero max_def)
qed

subsection \<open>What an address may look like\<close>

definition hex_field :: "string \<Rightarrow> bool" where
  "hex_field p \<longleftrightarrow> length (trim_0x p) \<le> 64 \<and> is_hex (trim_0x p)"

definition hex_value :: "string \<Rightarrow> nat" where
  "hex_value p = hex_num (trim_0x p)"

lemma hex_value_less: "hex_field p \<Longrightarrow> hex_value p < 256 ^ 32"
proof -
  assume "hex_field p"
  then have "hex_value p < 16 ^ length (trim_0x p)" "length (trim_0x p) \<le> 64"
    using hex_num_less by (auto simp: hex_field_def hex_value_def)
  then have "hex_value p < 16 ^ 64"
    by (meson less_le_trans one_le_numeral power_increasing)
  then show ?thesis by simp
qed

lemma be_bytes_unique: "length b = n \<Longrightarrow> be_nat b = v \<longleftrightarrow> v < 256 ^ n \<and> b = be_bytes n v"
  using be_nat_less [of b] be_bytes_be_nat [of b] by (metis be_nat_be_bytes mod_less)

lemma hexToBytes32_field:
  "hexToBytes32 p = Inr b \<longleftrightarrow> hex_field p \<and> b = be_bytes 32 (hex_value p)"
proof -
  have "hexToBytes32 p = Inr b \<longleftrightarrow> hex_field p \<and> length b = 32 \<and> be_nat b = hex_value p"
    by (simp add: hexToBytes32_iff hex_field_def hex_value_def conj_assoc)
  then show ?thesis
    using hex_value_less [of p] be_bytes_unique [of b 32 "hex_value p"] by auto
qed

lemma colon_not_hex: "hex_field p \<Longrightarrow> CHR '':'' \<notin> set p"
proof -
  assume p: "hex_field p"
  have c: "digit_val CHR '':'' = None" by (simp add: digit_val_def)
  then have "CHR '':'' \<notin> set (trim_0x p)"
    using p by (auto simp: hex_field_def dest: hex_digits_not)
  then show ?thesis by (auto simp: trim_0x_def prefix_def split: if_splits)
qed

lemma three_parts:
  "length ps = 3 \<longleftrightarrow> (\<exists>p0 p1 p2. ps = [p0, p1, p2])"
  by (auto simp: numeral_3_eq_3 length_Suc_conv)

lemma decode_parts:
  assumes "length (split_at CHR '':'' r) = 3"
  shows "\<exists>p0 p1 p2. split_at CHR '':'' r = [p0, p1, p2] \<and> r = p0 @ '':'' @ p1 @ '':'' @ p2"
proof -
  obtain p0 p1 p2 where s: "split_at CHR '':'' r = [p0, p1, p2]" using assms unfolding three_parts by (elim exE)
  have "join_at CHR '':'' [p0, p1, p2] = r" unfolding s [symmetric] by (rule join_split)
  then have "r = p0 @ '':'' @ p1 @ '':'' @ p2" by simp
  with s show ?thesis by blast
qed

lemma split_parts:
  assumes "hex_field p0" "hex_field p1" "hex_field p2"
  shows "split_at CHR '':'' (p0 @ '':'' @ p1 @ '':'' @ p2) = [p0, p1, p2]"
proof -
  have "split_at CHR '':'' (join_at CHR '':'' [p0, p1, p2]) = [p0, p1, p2]"
    by (rule split_join) (use colon_not_hex assms in auto)
  then show ?thesis by simp
qed

lemma after_prefix: "prefix ''nix:'' a \<Longrightarrow> go_slice a 4 (length a) = Inr (drop 4 a)"
  by (auto simp: prefix_def)

text \<open>The key the fields of an address denote.\<close>

definition field_key :: "string \<Rightarrow> string \<Rightarrow> bytes" where
  "field_key p1 p2 = be_bytes 32 (hex_value p1) @ be_bytes 32 (hex_value p2)"

lemma SetBytes_be_bytes: "n < 256 ^ 32 \<Longrightarrow> SetBytes (be_bytes 32 n) = fr_of_int (int n)"
  by (simp add: SetBytes_def be_nat_be_bytes)

lemma key_point_field:
  "hex_field p1 \<Longrightarrow> hex_field p2 \<Longrightarrow>
     key_point (field_key p1 p2) = \<lparr>pX = fr_of_int (int (hex_value p1)), pY = fr_of_int (int (hex_value p2))\<rparr>"
  using SetBytes_be_bytes [OF hex_value_less, of p1] SetBytes_be_bytes [OF hex_value_less, of p2]
  by (simp add: key_point_def field_key_def)

lemma DecodeNixAddress_exact:
  "DecodeNixAddress C a = Inr pk \<longleftrightarrow>
     (\<exists>p0 p1 p2. a = ''nix:'' @ p0 @ '':'' @ p1 @ '':'' @ p2 \<and> hex_field p0 \<and> hex_field p1 \<and> hex_field p2 \<and>
        pk = \<lparr>pk_Key = field_key p1 p2\<rparr> \<and> onCurve C (key_point (field_key p1 p2)) \<and>
        PubKey_Commitment C pk = Inr (fr_of_int (int (hex_value p0))))" (is "?l \<longleftrightarrow> ?r")
proof
  assume l: ?l
  then obtain r where a: "a = ''nix:'' @ r"
    by (auto simp: DecodeNixAddress_def prefix_def split: if_splits)
  with l have "length (split_at CHR '':'' r) = 3"
    by (auto simp: DecodeNixAddress_def Let_def split: if_splits)
  from decode_parts [OF this] obtain p0 p1 p2 where s: "split_at CHR '':'' r = [p0, p1, p2]"
    and r: "r = p0 @ '':'' @ p1 @ '':'' @ p2" by blast
  from l a s have f: "hex_field p0" "hex_field p1" "hex_field p2"
    and pk: "NewGrumpkinPubKey C (field_key p1 p2) = Inr pk"
    and c: "PubKey_Commitment C pk = Inr (SetBytes (be_bytes 32 (hex_value p0)))"
    by (auto simp: DecodeNixAddress_def Let_def bindE_Inr_iff hexToBytes32_field field_key_def split: if_splits)
  from c have "PubKey_Commitment C pk = Inr (fr_of_int (int (hex_value p0)))"
    by (simp only: SetBytes_be_bytes [OF hex_value_less [OF f(1)]])
  with f pk a r show ?r unfolding NewGrumpkinPubKey_iff by blast
next
  assume ?r
  then obtain p0 p1 p2 where a: "a = ''nix:'' @ p0 @ '':'' @ p1 @ '':'' @ p2"
    and f: "hex_field p0" "hex_field p1" "hex_field p2" and pk: "pk = \<lparr>pk_Key = field_key p1 p2\<rparr>"
    and curve: "onCurve C (key_point (field_key p1 p2))"
    and c: "PubKey_Commitment C pk = Inr (fr_of_int (int (hex_value p0)))" by blast
  have new: "NewGrumpkinPubKey C (field_key p1 p2) = Inr pk"
    using curve by (simp add: NewGrumpkinPubKey_iff pk) (simp add: field_key_def)
  have h: "hexToBytes32 p = Inr (be_bytes 32 (hex_value p))" if "hex_field p" for p
    using that by (simp add: hexToBytes32_field)
  have "drop 4 a = p0 @ '':'' @ p1 @ '':'' @ p2" "prefix ''nix:'' a" by (simp_all add: a)
  moreover note split_parts [OF f]
  ultimately show ?l
    using new c
    by (simp add: DecodeNixAddress_def after_prefix Let_def h f rewrapE_def field_key_def
        SetBytes_be_bytes [OF hex_value_less [OF f(1)]])
qed

subsection \<open>Encoding\<close>

lemma hex_field_fmt [simp]: "length b = 32 \<Longrightarrow> hex_field (fmt_hex b)" "length b = 32 \<Longrightarrow> hex_value (fmt_hex b) = be_nat b"
proof -
  have "digit_val CHR ''x'' = None" by (simp add: digit_val_def)
  then have "CHR ''x'' \<notin> set (fmt_hex b)" by (rule hex_digits_not [OF is_hex_fmt_hex])
  then have "\<not> prefix ''0x'' (fmt_hex b)" by (auto simp: prefix_def)
  then have t: "trim_0x (fmt_hex b) = fmt_hex b" by (simp add: trim_0x_def)
  show "length b = 32 \<Longrightarrow> hex_field (fmt_hex b)" "length b = 32 \<Longrightarrow> hex_value (fmt_hex b) = be_nat b"
    by (simp_all add: hex_field_def hex_value_def t)
qed

lemma EncodeNixAddress_eq:
  assumes "length (pk_Key pk) = 64" "PubKey_Commitment C pk = Inr c"
  shows "EncodeNixAddress C pk =
    Inr (''nix:'' @ fmt_hex (frBytes c) @ '':'' @ fmt_hex (take 32 (pk_Key pk)) @ '':'' @ fmt_hex (drop 32 (pk_Key pk)))"
  using assms by (simp add: EncodeNixAddress_def)

lemma Decode_Encode:
  assumes "NewGrumpkinPubKey C key = Inr pk"
  shows "\<exists>a. EncodeNixAddress C pk = Inr a \<and> DecodeNixAddress C a = Inr pk"
proof -
  from assms have len: "length key = 64" and pk: "pk = \<lparr>pk_Key = key\<rparr>" and curve: "onCurve C (key_point key)"
    by (simp_all add: NewGrumpkinPubKey_iff)
  obtain c where c: "PubKey_Commitment C pk = Inr c"
    using len by (simp add: pk PubKey_Commitment_def)
  have halves: "length (take 32 key) = 32" "length (drop 32 key) = 32" using len by simp_all
  have fk: "field_key (fmt_hex (take 32 key)) (fmt_hex (drop 32 key)) = key"
    using be_bytes_be_nat [of "take 32 key"] be_bytes_be_nat [of "drop 32 key"]
    by (simp only: field_key_def hex_field_fmt halves append_take_drop_id)
  have num: "fr_of_int (int (hex_value (fmt_hex (frBytes c)))) = c" by simp
  show ?thesis
    unfolding DecodeNixAddress_exact
    by (rule exI, rule conjI, rule EncodeNixAddress_eq [OF _ c], simp add: pk len,
        intro exI conjI, rule refl)
      (use halves fk num curve c in \<open>simp_all add: pk\<close>)
qed

end
