(* ===== verification/Cli.thy ===== *)
theory Cli
  imports Types NixAddress Query Context
begin

section \<open>The command line client\<close>

text \<open>
  \<open>client/cli\<close>: what each command makes of its arguments, flags and files.  The surroundings are
  the fields of \<open>cli_env\<close>: the client context of cobra and the SDK, the file system, the flags
  given, \<open>encoding/json\<close>.  A transaction command returns the message it hands to
  \<open>tx.GenerateOrBroadcastTxCLI\<close>, a query or key command the text it prints.
\<close>

record outputNoteHex =
  hn_NoteHash :: string
  hn_EphemeralX :: string
  hn_EphemeralY :: string
  hn_EncAmount :: string
  hn_EncSalt :: string
  hn_AuditorEnc :: string
  hn_AuditorAuthKeyX :: string
  hn_AuditorAuthKeyY :: string
  hn_AuditorEncRecipient :: string

record cli_env =
  \<comment> \<open>\<open>client.GetClientTxContext\<close> with \<open>GetFromAddress().String()\<close>; \<open>GetClientQueryContext\<close>\<close>
  txContext :: "err + string"
  queryContext :: "err + unit"
  \<comment> \<open>\<open>os.ReadFile\<close>; the flags given on the command line\<close>
  readFile :: "string \<Rightarrow> err + bytes"
  flagGiven :: "string \<Rightarrow> string option"
  jsonFlag :: bool
  \<comment> \<open>\<open>json.Unmarshal\<close> into a list of notes; \<open>json.MarshalIndent\<close> of a map of strings\<close>
  unmarshalNotes :: "bytes \<Rightarrow> err + outputNoteHex list"
  marshalIndent :: "(string \<times> string) list \<Rightarrow> err + string"

text \<open>\<open>cobra.ExactArgs\<close>, and a string flag with its default.\<close>

definition ExactArgs :: "nat \<Rightarrow> string list \<Rightarrow> err + unit" where
  "ExactArgs n args = guardE (length args = n) (Ext ''wrong number of args'')"

definition string_flag :: "cli_env \<Rightarrow> string \<Rightarrow> string \<Rightarrow> string" where
  "string_flag env name dflt = (case flagGiven env name of None \<Rightarrow> dflt | Some v \<Rightarrow> v)"

subsection \<open>Transactions\<close>

definition flagAuditorData :: string where
  "flagAuditorData = ''auditor-data''"

definition readAuditorDataFlag :: "cli_env \<Rightarrow> err + bytes" where
  "readAuditorDataFlag env =
     (let path = string_flag env flagAuditorData '''' in
      if path = '''' then Inr []
      else rewrapE ''failed to read auditor data file'' (readFile env path))"

definition decode_note :: "outputNoteHex \<Rightarrow> err + OutputNote" where
  "decode_note hn =
     bindE (rewrapE ''note_hash'' (hexDecode (hn_NoteHash hn))) (\<lambda>noteHash.
     bindE (rewrapE ''ephemeral_x'' (hexDecode (hn_EphemeralX hn))) (\<lambda>ephemeralX.
     bindE (rewrapE ''ephemeral_y'' (hexDecode (hn_EphemeralY hn))) (\<lambda>ephemeralY.
     bindE (rewrapE ''enc_amount'' (hexDecode (hn_EncAmount hn))) (\<lambda>encAmount.
     bindE (rewrapE ''enc_salt'' (hexDecode (hn_EncSalt hn))) (\<lambda>encSalt.
     bindE (rewrapE ''auditor_enc'' (hexDecode (hn_AuditorEnc hn))) (\<lambda>auditorEnc.
     bindE (rewrapE ''auditor_auth_key_x'' (hexDecode (hn_AuditorAuthKeyX hn))) (\<lambda>authKeyX.
     bindE (rewrapE ''auditor_auth_key_y'' (hexDecode (hn_AuditorAuthKeyY hn))) (\<lambda>authKeyY.
     bindE (rewrapE ''auditor_enc_recipient'' (hexDecode (hn_AuditorEncRecipient hn))) (\<lambda>encRecipient.
     Inr \<lparr>NoteHash = noteHash, EphemeralX = ephemeralX, EphemeralY = ephemeralY,
       EncAmount = encAmount, EncSalt = encSalt, AuditorEnc = auditorEnc,
       AuditorAuthKeyX = authKeyX, AuditorAuthKeyY = authKeyY,
       AuditorEncRecipient = encRecipient\<rparr>)))))))))"

definition parseOutputNotesJSON :: "cli_env \<Rightarrow> bytes \<Rightarrow> err + OutputNote list" where
  "parseOutputNotesJSON env data =
     bindE (unmarshalNotes env data) (\<lambda>hexNotes.
     if length hexNotes \<noteq> 2 then Inl (Std ''exactly 2 output notes required'')
     else mapE decode_note hexNotes)"

definition CmdDeposit :: "cli_env \<Rightarrow> string list \<Rightarrow> err + MsgDeposit" where
  "CmdDeposit env args =
     bindE (ExactArgs 5 args) (\<lambda>_.
     bindE (txContext env) (\<lambda>from.
     bindE (rewrapE ''invalid note commitment hex'' (hexDecode (args ! 2))) (\<lambda>noteCommitment.
     bindE (rewrapE ''failed to read proof file'' (readFile env (args ! 3))) (\<lambda>proof.
     bindE (rewrapE ''failed to read public inputs file'' (readFile env (args ! 4))) (\<lambda>publicInputs.
     bindE (readAuditorDataFlag env) (\<lambda>auditorData.
     Inr \<lparr>dep_Sender = from, dep_Denom = args ! 0, dep_Amount = args ! 1,
       dep_NoteCommitment = noteCommitment, dep_Proof = proof, dep_PublicInputs = publicInputs,
       dep_AuditorEncryptedData = auditorData\<rparr>))))))"

definition CmdTransact :: "cli_env \<Rightarrow> string list \<Rightarrow> err + MsgTransact" where
  "CmdTransact env args =
     bindE (ExactArgs 6 args) (\<lambda>_.
     bindE (txContext env) (\<lambda>from.
     bindE (rewrapE ''failed to read proof file'' (readFile env (args ! 0))) (\<lambda>proof.
     let nullifierHexes = split_at CHR '','' (args ! 1) in
     if length nullifierHexes \<noteq> 2 then Inl (Std ''exactly 2 nullifiers required'')
     else
     bindE (mapE (\<lambda>h. rewrapE ''invalid nullifier hex'' (hexDecode (trim_space h))) nullifierHexes) (\<lambda>nullifiers.
     let rootHexes = split_at CHR '','' (args ! 2) in
     if length rootHexes \<noteq> 2 then Inl (Std ''exactly 2 merkle roots required'')
     else
     bindE (mapE (\<lambda>h. rewrapE ''invalid merkle root hex'' (hexDecode (trim_space h))) rootHexes) (\<lambda>merkleRoots.
     bindE (rewrapE ''failed to read outputs file'' (readFile env (args ! 3))) (\<lambda>outputsData.
     bindE (rewrapE ''failed to parse outputs'' (parseOutputNotesJSON env outputsData)) (\<lambda>outputs.
     bindE (rewrapE ''invalid registration root hex'' (hexDecode (args ! 5))) (\<lambda>regRoot.
     Inr \<lparr>tx_Sender = from, Nullifiers = nullifiers, MerkleRoots = merkleRoots, Outputs = outputs,
       WithdrawAmount = string_flag env ''withdraw-amount'' ''0'',
       WithdrawAddress = string_flag env ''withdraw-address'' '''', tx_Denom = args ! 4,
       RegistrationRoot = regRoot, RelayerFee = string_flag env ''relayer-fee'' ''0'',
       tx_Proof = proof\<rparr>))))))))"

definition CmdRegister :: "cli_env \<Rightarrow> string list \<Rightarrow> err + MsgRegister" where
  "CmdRegister env args =
     bindE (ExactArgs 3 args) (\<lambda>_.
     bindE (txContext env) (\<lambda>from.
     bindE (rewrapE ''invalid identity commitment hex'' (hexDecode (args ! 0))) (\<lambda>identityCommitment.
     bindE (rewrapE ''failed to read proof file'' (readFile env (args ! 1))) (\<lambda>proof.
     bindE (rewrapE ''failed to read public inputs file'' (readFile env (args ! 2))) (\<lambda>publicInputs.
     bindE (readAuditorDataFlag env) (\<lambda>auditorData.
     Inr \<lparr>reg_Sender = from, reg_IdentityCommitment = identityCommitment, reg_Proof = proof,
       reg_PublicInputs = publicInputs, reg_AuditorEncryptedData = auditorData\<rparr>))))))"

subsection \<open>Keys\<close>

text \<open>Both commands describe a key; \<open>gen-nix-key\<close> also shows the private scalar.  The map given to
  the JSON encoder is a list of its entries.\<close>

definition newline :: string where
  "newline = [CHR 0x0A]"

definition CmdGenNixKey :: "curve \<Rightarrow> cli_env \<Rightarrow> string list \<Rightarrow> err + string" where
  "CmdGenNixKey C env args =
     bindE (ExactArgs 0 args) (\<lambda>_.
     bindE (rewrapE ''failed to generate key'' (GenerateKey C)) (\<lambda>privKey.
     bindE (rewrapE ''failed to derive public key'' (PrivKey_PubKey C privKey)) (\<lambda>pubKey.
     bindE (EncodeNixAddress C pubKey) (\<lambda>nixAddr.
     bindE (PubKey_Commitment C pubKey) (\<lambda>commitment.
     bindE (PrivKey_ScalarBytes privKey) (\<lambda>scalar.
     bindE (slice_to (pk_Key pubKey) 32) (\<lambda>x.
     bindE (slice_from (pk_Key pubKey) 32) (\<lambda>y.
     if jsonFlag env then
       bindE (marshalIndent env
         [(''private_key'', fmt_hex scalar), (''public_key_x'', fmt_hex64 x), (''public_key_y'', fmt_hex64 y),
          (''commitment'', fmt_hex64 (frBytes commitment)), (''nix_address'', nixAddr)]) (\<lambda>bz.
       Inr (bz @ newline))
     else Inr (''=== Nix Key Generated ==='' @ newline @
       ''Private Key (scalar): '' @ fmt_hex scalar @ newline @
       ''Public Key X:         '' @ fmt_hex64 x @ newline @
       ''Public Key Y:         '' @ fmt_hex64 y @ newline @
       ''Commitment:           '' @ fmt_hex64 (frBytes commitment) @ newline @
       ''Nix Address:          '' @ nixAddr @ newline)))))))))"

definition CmdNixAddress :: "curve \<Rightarrow> cli_env \<Rightarrow> string list \<Rightarrow> err + string" where
  "CmdNixAddress C env args =
     bindE (ExactArgs 1 args) (\<lambda>_.
     bindE (rewrapE ''invalid private key hex'' (hexDecode (args ! 0))) (\<lambda>scalarBytes.
     bindE (rewrapE ''failed to construct key from scalar'' (PrivKeyFromScalarBytes C scalarBytes)) (\<lambda>privKey.
     bindE (rewrapE ''failed to derive public key'' (PrivKey_PubKey C privKey)) (\<lambda>pubKey.
     bindE (EncodeNixAddress C pubKey) (\<lambda>nixAddr.
     bindE (PubKey_Commitment C pubKey) (\<lambda>commitment.
     bindE (slice_to (pk_Key pubKey) 32) (\<lambda>x.
     bindE (slice_from (pk_Key pubKey) 32) (\<lambda>y.
     if jsonFlag env then
       bindE (marshalIndent env
         [(''public_key_x'', fmt_hex64 x), (''public_key_y'', fmt_hex64 y),
          (''commitment'', fmt_hex64 (frBytes commitment)), (''nix_address'', nixAddr)]) (\<lambda>bz.
       Inr (bz @ newline))
     else Inr (''=== Nix Address ==='' @ newline @
       ''Public Key X: '' @ fmt_hex64 x @ newline @
       ''Public Key Y: '' @ fmt_hex64 y @ newline @
       ''Commitment:   '' @ fmt_hex64 (frBytes commitment) @ newline @
       ''Nix Address:  '' @ nixAddr @ newline)))))))))"

subsection \<open>Queries\<close>

text \<open>The gRPC client: one function per query.  \<open>showParams\<close> is the generated \<open>String\<close> of the
  parameters.\<close>

record query_client =
  qcRoot :: "err + bytes"
  qcNullifierStatus :: "bytes \<Rightarrow> err + bool"
  qcTreeInfo :: "err + QueryTreeInfoResponse"
  qcParams :: "err + params"
  qcRegistrationRoot :: "err + bytes"
  qcAuditorKey :: "err + bytes"
  qcSupportedDenoms :: "err + string list"
  showParams :: "params \<Rightarrow> string"

definition CmdQueryRoot :: "query_client \<Rightarrow> cli_env \<Rightarrow> string list \<Rightarrow> err + string" where
  "CmdQueryRoot Q env args =
     bindE (ExactArgs 0 args) (\<lambda>_. bindE (queryContext env) (\<lambda>_.
     bindE (qcRoot Q) (\<lambda>root. Inr (''Root: '' @ fmt_hex root @ newline))))"

definition CmdQueryNullifierStatus :: "query_client \<Rightarrow> cli_env \<Rightarrow> string list \<Rightarrow> err + string" where
  "CmdQueryNullifierStatus Q env args =
     bindE (ExactArgs 1 args) (\<lambda>_. bindE (queryContext env) (\<lambda>_.
     bindE (rewrapE ''invalid hex'' (hexDecode (args ! 0))) (\<lambda>nullifier.
     bindE (qcNullifierStatus Q nullifier) (\<lambda>spent.
     Inr (''Spent: '' @ (if spent then ''true'' else ''false'') @ newline)))))"

definition CmdQueryTreeInfo :: "query_client \<Rightarrow> cli_env \<Rightarrow> string list \<Rightarrow> err + string" where
  "CmdQueryTreeInfo Q env args =
     bindE (ExactArgs 0 args) (\<lambda>_. bindE (queryContext env) (\<lambda>_.
     bindE (qcTreeInfo Q) (\<lambda>res.
     Inr (''Root: '' @ fmt_hex (ti_Root res) @ newline @
       ''NextIndex: '' @ fmt_nat (unat (ti_NextIndex res)) @ newline @
       ''Depth: '' @ fmt_nat (unat (ti_Depth res)) @ newline @
       ''ActiveTreeId: '' @ fmt_nat (unat (ti_ActiveTreeId res)) @ newline @
       ''TreeCount: '' @ fmt_nat (unat (ti_TreeCount res)) @ newline))))"

definition CmdQueryParams :: "query_client \<Rightarrow> cli_env \<Rightarrow> string list \<Rightarrow> err + string" where
  "CmdQueryParams Q env args =
     bindE (ExactArgs 0 args) (\<lambda>_. bindE (queryContext env) (\<lambda>_.
     bindE (qcParams Q) (\<lambda>p. Inr (''Params: '' @ showParams Q p @ newline))))"

definition CmdQueryRegistrationRoot :: "query_client \<Rightarrow> cli_env \<Rightarrow> string list \<Rightarrow> err + string" where
  "CmdQueryRegistrationRoot Q env args =
     bindE (ExactArgs 0 args) (\<lambda>_. bindE (queryContext env) (\<lambda>_.
     bindE (qcRegistrationRoot Q) (\<lambda>root. Inr (''RegistrationRoot: '' @ fmt_hex root @ newline))))"

definition CmdQueryAuditorKey :: "query_client \<Rightarrow> cli_env \<Rightarrow> string list \<Rightarrow> err + string" where
  "CmdQueryAuditorKey Q env args =
     bindE (ExactArgs 0 args) (\<lambda>_. bindE (queryContext env) (\<lambda>_.
     bindE (qcAuditorKey Q) (\<lambda>key. Inr (''AuditorPubKey: '' @ fmt_hex key @ newline))))"

text \<open>\<open>%v\<close> of a list of strings: the elements in brackets, separated by spaces.\<close>

definition CmdQuerySupportedDenoms :: "query_client \<Rightarrow> cli_env \<Rightarrow> string list \<Rightarrow> err + string" where
  "CmdQuerySupportedDenoms Q env args =
     bindE (ExactArgs 0 args) (\<lambda>_. bindE (queryContext env) (\<lambda>_.
     bindE (qcSupportedDenoms Q) (\<lambda>denoms.
     Inr (''SupportedDenoms: ['' @ join_at CHR '' '' denoms @ '']'' @ newline))))"

text \<open>The client of a node whose store is \<open>s\<close>: the query server answers.\<close>

definition node_client :: "('vk, 'b) ext \<Rightarrow> (params \<Rightarrow> string) \<Rightarrow> store \<Rightarrow> query_client" where
  "node_client E sp s = \<lparr>qcRoot = Query_Root E s, qcNullifierStatus = Query_NullifierStatus s,
     qcTreeInfo = Query_TreeInfo E s, qcParams = Query_Params E s,
     qcRegistrationRoot = Query_RegistrationRoot E s, qcAuditorKey = Query_AuditorKey E s,
     qcSupportedDenoms = Query_SupportedDenoms E s, showParams = sp\<rparr>"

text \<open>The commands registered under the module's name, by the word that calls them.\<close>

definition GetTxCmd :: "string list" where
  "GetTxCmd = [''deposit'', ''transact'', ''register'', ''gen-nix-key'', ''nix-address'']"

definition GetQueryCmd :: "string list" where
  "GetQueryCmd = [''root'', ''nullifier-status'', ''tree-info'', ''params'', ''registration-root'',
     ''auditor-key'', ''supported-denoms'']"

subsection \<open>What a command hands over\<close>

lemma ExactArgs_Inr [simp]: "ExactArgs n args = Inr u \<longleftrightarrow> length args = n"
  by (simp add: ExactArgs_def)

text \<open>A note written in hexadecimal, field by field.\<close>

definition hex_note :: "OutputNote \<Rightarrow> outputNoteHex" where
  "hex_note x = \<lparr>hn_NoteHash = fmt_hex (NoteHash x), hn_EphemeralX = fmt_hex (EphemeralX x),
     hn_EphemeralY = fmt_hex (EphemeralY x), hn_EncAmount = fmt_hex (EncAmount x),
     hn_EncSalt = fmt_hex (EncSalt x), hn_AuditorEnc = fmt_hex (AuditorEnc x),
     hn_AuditorAuthKeyX = fmt_hex (AuditorAuthKeyX x), hn_AuditorAuthKeyY = fmt_hex (AuditorAuthKeyY x),
     hn_AuditorEncRecipient = fmt_hex (AuditorEncRecipient x)\<rparr>"

lemma decode_hex_note [simp]: "decode_note (hex_note x) = Inr x"
  by (simp add: decode_note_def hex_note_def rewrapE_def)

interpretation noteCodec: codec hex_note decode_note
  by unfold_locales simp

lemma comma_not_hex: "is_hex s \<Longrightarrow> CHR '','' \<notin> set s"
  by (rule hex_digits_not) (simp_all add: digit_val_def)

lemma split_two: "is_hex a \<Longrightarrow> is_hex b \<Longrightarrow> split_at CHR '','' (a @ '','' @ b) = [a, b]"
proof -
  assume "is_hex a" "is_hex b"
  then have "split_at CHR '','' (join_at CHR '','' [a, b]) = [a, b]"
    using comma_not_hex by (intro split_join) auto
  then show ?thesis by simp
qed

text \<open>The command line of a transact message: its two nullifiers and roots in hexadecimal,
  separated by a comma; the notes and the proof in files.\<close>

lemma CmdTransact_of_message:
  assumes "txContext env = Inr (tx_Sender msg)" and "readFile env pf = Inr (tx_Proof msg)"
    and "readFile env nf = Inr noteFile" and "unmarshalNotes env noteFile = Inr (map hex_note (Outputs msg))"
    and "Nullifiers msg = [n1, n2]" "MerkleRoots msg = [r1, r2]" "length (Outputs msg) = 2"
    and "string_flag env ''withdraw-amount'' ''0'' = WithdrawAmount msg"
    and "string_flag env ''withdraw-address'' '''' = WithdrawAddress msg"
    and "string_flag env ''relayer-fee'' ''0'' = RelayerFee msg"
  shows "CmdTransact env [pf, fmt_hex n1 @ '','' @ fmt_hex n2, fmt_hex r1 @ '','' @ fmt_hex r2, nf,
    tx_Denom msg, fmt_hex (RegistrationRoot msg)] = Inr msg"
  using assms split_two [OF is_hex_fmt_hex is_hex_fmt_hex, of n1 n2]
    split_two [OF is_hex_fmt_hex is_hex_fmt_hex, of r1 r2]
  by (simp add: CmdTransact_def ExactArgs_def guardE_def rewrapE_def Let_def parseOutputNotesJSON_def
      noteCodec.dec_all)

text \<open>Whatever the arguments, a transact the command hands over has two nullifiers, two roots and
  two outputs, and the proof, the notes and the sender of the surroundings.\<close>

lemma mapE_length: "mapE f xs = Inr ys \<Longrightarrow> length ys = length xs"
  by (auto simp: mapE_Inr_iff dest: list_all2_lengthD)

lemma CmdTransact_shape:
  assumes "CmdTransact env args = Inr msg"
  shows "length args = 6 \<and> length (Nullifiers msg) = 2 \<and> length (MerkleRoots msg) = 2 \<and>
    length (Outputs msg) = 2 \<and> txContext env = Inr (tx_Sender msg) \<and>
    readFile env (args ! 0) = Inr (tx_Proof msg) \<and> tx_Denom msg = args ! 4 \<and>
    hexDecode (args ! 5) = Inr (RegistrationRoot msg)"
  using assms
  by (auto simp: CmdTransact_def parseOutputNotesJSON_def bindE_Inr_iff Let_def split: if_splits
      dest: mapE_length)

text \<open>The address \<open>nix-address\<close> prints, in its text form, is the address of the key of the
  scalar.\<close>

lemma CmdNixAddress_prints:
  assumes "CmdNixAddress C env [s] = Inr out" "\<not> jsonFlag env"
  shows "\<exists>b sk addr pre. hexDecode s = Inr b \<and> PrivKeyFromScalarBytes C b = Inr sk \<and>
    NixAddressFromPrivKey C sk = Inr addr \<and> out = pre @ ''Nix Address:  '' @ addr @ newline"
proof -
  from assms(1) obtain b sk pk addr c x y where 1: "hexDecode s = Inr b" "PrivKeyFromScalarBytes C b = Inr sk"
    "PrivKey_PubKey C sk = Inr pk" "EncodeNixAddress C pk = Inr addr"
    and out: "Inr (''=== Nix Address ==='' @ newline @ ''Public Key X: '' @ fmt_hex64 x @ newline @
       ''Public Key Y: '' @ fmt_hex64 y @ newline @ ''Commitment:   '' @ fmt_hex64 (frBytes c) @ newline @
       ''Nix Address:  '' @ addr @ newline) = (Inr out :: err + string)"
    unfolding CmdNixAddress_def bindE_Inr_iff rewrapE_Inr nth_Cons_0 using assms(2)
    by (elim exE conjE) (simp only: if_False)
  from out have "out = (''=== Nix Address ==='' @ newline @ ''Public Key X: '' @ fmt_hex64 x @ newline @
       ''Public Key Y: '' @ fmt_hex64 y @ newline @ ''Commitment:   '' @ fmt_hex64 (frBytes c) @ newline) @
       ''Nix Address:  '' @ addr @ newline" by simp
  then obtain pre where "out = pre @ ''Nix Address:  '' @ addr @ newline" by blast
  moreover have "NixAddressFromPrivKey C sk = Inr addr" using 1 by (simp add: NixAddressFromPrivKey_def)
  ultimately show ?thesis using 1 by blast
qed

end
