(* ===== verification/Wallet.thy ===== *)
theory Wallet
  imports ECIES NixAddress Cli
begin

section \<open>Keys, addresses and the client together\<close>

text \<open>
  What the parts of \<open>crypto\<close> and \<open>client/cli\<close> promise together: a scalar, its address, the key
  read from the address and a ciphertext for that key; the command lines of the messages.
  \<open>curve1\<close> is an additive group on the first coordinate, at which the properties are applied.
\<close>

definition curve1 :: curve where
  "curve1 = \<lparr>poseidon2 = (\<lambda>a b. a + b), poseidon = sum_list, onCurve = (\<lambda>p. pY p = 0),
     baseMult = (\<lambda>k. \<lparr>pX = fr_of_int k, pY = 0\<rparr>),
     scalarMult = (\<lambda>p k. \<lparr>pX = fr_of_int (fr_val (pX p) * k), pY = pY p\<rparr>),
     compress = (\<lambda>p. frBytes (pX p)),
     ecdsaPublic = (\<lambda>b. if length b = 64 then Inr \<lparr>pX = SetBytes (take 32 b), pY = 0\<rparr>
       else Inl (Ext ''short buffer'')),
     ecdsaGenerate = Inr (frBytes (fr_of_int 7) @ frBytes (fr_of_int 7))\<rparr>"

lemma curve1_key_laws: "key_laws curve1"
  by (simp add: key_laws_def curve1_def)

lemma curve1_ecdh: "ecdh_law curve1"
  by (simp add: ecdh_law_def curve1_def fr_of_int_eq_iff fr_val_of_int mod_simps mult.commute)

definition scalar1 :: bytes where
  "scalar1 = frBytes (fr_of_int 7)"

lemma scalar1_element: "SetBytes scalar1 = fr_of_int 7" "fr_of_int 7 \<noteq> 0"
  by (simp_all add: scalar1_def fr_val_of_int fr_modulus_def flip: fr_val_inject)

lemma scalar1_key: "\<exists>sk. PrivKeyFromScalarBytes curve1 scalar1 = Inr sk"
  using scalar1_element by (simp add: PrivKeyFromScalarBytes_iff) (simp add: scalar1_def)

lemma address_of_scalar:
  assumes laws: "key_laws C" and sk: "PrivKeyFromScalarBytes C b = Inr sk"
  shows "\<exists>a pk. NixAddressFromPrivKey C sk = Inr a \<and> DecodeNixAddress C a = Inr pk \<and>
    PrivKey_PubKey C sk = Inr pk \<and>
    PointFromRawXY C (pk_Key pk) = Inr (baseMult C (fr_val (SetBytes b)))"
proof -
  let ?p = "baseMult C (fr_val (SetBytes b))"
  note facts = PubKey_of_scalar [OF laws sk]
  have new: "NewGrumpkinPubKey C (RawXYFromPoint ?p) = Inr \<lparr>pk_Key = RawXYFromPoint ?p\<rparr>"
    by (rule NewGrumpkinPubKey_RawXY [OF facts(3)])
  from Decode_Encode [OF new] obtain a where "EncodeNixAddress C \<lparr>pk_Key = RawXYFromPoint ?p\<rparr> = Inr a"
    "DecodeNixAddress C a = Inr \<lparr>pk_Key = RawXYFromPoint ?p\<rparr>" by blast
  then show ?thesis
    using facts by (simp add: NixAddressFromPrivKey_def PointFromRawXY_iff)
qed

subsection \<open>Properties\<close>

text \<open>C35: An amount encrypted for an address reaches the holder of its scalar: the address made
  from a non-zero scalar decodes to the public key of that scalar, its point is on the curve, and
  what is encrypted for that point under any non-zero randomness is decrypted by the scalar bytes
  stored in the private key.\<close>

theorem address_receives:
  assumes "key_laws C" and "ecdh_law C" and "PrivKeyFromScalarBytes C b = Inr sk" and "r \<noteq> 0"
  shows "\<exists>a pk p c s. NixAddressFromPrivKey C sk = Inr a \<and> DecodeNixAddress C a = Inr pk \<and>
    PrivKey_PubKey C sk = Inr pk \<and> PointFromRawXY C (pk_Key pk) = Inr p \<and>
    ECIES_Encrypt C v r p = Inr c \<and> PrivKey_ScalarBytes sk = Inr s \<and>
    ECIES_Decrypt C (int (be_nat s)) \<lparr>pX = AuthKeyX c, pY = AuthKeyY c\<rparr> (Encrypted c) = v"
proof -
  obtain a pk where a: "NixAddressFromPrivKey C sk = Inr a" "DecodeNixAddress C a = Inr pk"
    "PrivKey_PubKey C sk = Inr pk" "PointFromRawXY C (pk_Key pk) = Inr (baseMult C (fr_val (SetBytes b)))"
    using address_of_scalar [OF assms(1,3)] by blast
  obtain c where c: "ECIES_Encrypt C v r (baseMult C (fr_val (SetBytes b))) = Inr c"
    using assms(4) by (simp add: Encrypt_iff)
  have "ECIES_Decrypt C (int (be_nat (frBytes (SetBytes b)))) \<lparr>pX = AuthKeyX c, pY = AuthKeyY c\<rparr> (Encrypted c) = v"
    using Decrypt_Encrypt [OF assms(2) c] by simp
  with a c PubKey_of_scalar(2) [OF assms(1,3)] show ?thesis by blast
qed

theorem address_receives_witness:
  "\<exists>sk a pk p c s. PrivKeyFromScalarBytes curve1 scalar1 = Inr sk \<and>
    NixAddressFromPrivKey curve1 sk = Inr a \<and> DecodeNixAddress curve1 a = Inr pk \<and>
    PrivKey_PubKey curve1 sk = Inr pk \<and> PointFromRawXY curve1 (pk_Key pk) = Inr p \<and>
    ECIES_Encrypt curve1 (fr_of_int 11) 3 p = Inr c \<and> PrivKey_ScalarBytes sk = Inr s \<and>
    ECIES_Decrypt curve1 (int (be_nat s)) \<lparr>pX = AuthKeyX c, pY = AuthKeyY c\<rparr> (Encrypted c) = fr_of_int 11"
proof -
  obtain sk where sk: "PrivKeyFromScalarBytes curve1 scalar1 = Inr sk" using scalar1_key by blast
  have "(3 :: int) \<noteq> 0" by simp
  from address_receives [OF curve1_key_laws curve1_ecdh sk this, of "fr_of_int 11"] sk show ?thesis by blast
qed

text \<open>C36: Which texts are addresses, and of which key: \<open>nix:\<close> and three fields separated by colons,
  each an optional \<open>0x\<close> and at most 64 hexadecimal digits of either case; the last two are the
  coordinates of the key, which must give a point on the curve, and the first, reduced to a field
  element, is the commitment of that key.  Nothing else decodes.\<close>

theorem DecodeNixAddress_accepts:
  "DecodeNixAddress C a = Inr pk \<longleftrightarrow>
     (\<exists>p0 p1 p2. a = ''nix:'' @ p0 @ '':'' @ p1 @ '':'' @ p2 \<and> hex_field p0 \<and> hex_field p1 \<and> hex_field p2 \<and>
        pk = \<lparr>pk_Key = field_key p1 p2\<rparr> \<and> onCurve C (key_point (field_key p1 p2)) \<and>
        PubKey_Commitment C pk = Inr (fr_of_int (int (hex_value p0))))"
  by (rule DecodeNixAddress_exact)

text \<open>C37: Every valid public key has an address, and its address decodes to exactly that key, byte
  for byte.\<close>

theorem address_roundtrip:
  assumes "NewGrumpkinPubKey C key = Inr pk"
  shows "pk_Key pk = key \<and> (\<exists>a. EncodeNixAddress C pk = Inr a \<and> DecodeNixAddress C a = Inr pk)"
  using assms Decode_Encode [OF assms] by (simp add: NewGrumpkinPubKey_iff)

theorem address_roundtrip_witness:
  "\<exists>pk a. NewGrumpkinPubKey curve1 (frBytes (fr_of_int 7) @ frBytes 0) = Inr pk \<and>
    EncodeNixAddress curve1 pk = Inr a \<and> DecodeNixAddress curve1 a = Inr pk"
proof -
  have "NewGrumpkinPubKey curve1 (frBytes (fr_of_int 7) @ frBytes 0) =
      Inr \<lparr>pk_Key = frBytes (fr_of_int 7) @ frBytes 0\<rparr>"
    by (simp add: NewGrumpkinPubKey_iff key_point_def curve1_def)
  from address_roundtrip [OF this] this show ?thesis by blast
qed

text \<open>C38: Counter mode is inverted by the holder of the scalar, and uses a fresh key at every position: the
  ciphertext of position \<open>i\<close> is the plaintext plus the hash of the shared point and the number \<open>i\<close>, no
  two of these hash inputs are equal, and so, unless the hash collides on them, no two positions
  are masked with the same key.  A slice has fewer than \<open>2\<^sup>6\<^sup>3\<close> elements.\<close>

theorem counter_mode_roundtrip:
  assumes "ecdh_law C" and "EncryptCounterMode C vs r (baseMult C sk) = Inr (e, cts)"
    and "length vs < 2 ^ 63" and "S = scalarMult C (baseMult C sk) r"
  shows "DecryptCounterMode C sk e cts = vs \<and> length cts = length vs \<and>
    (\<forall>i < length vs. cts ! i = vs ! i + poseidon C [pX S, pY S, fr_of_int (int i)]) \<and>
    distinct (map (\<lambda>i. [pX S, pY S, fr_of_int (int i)]) [0..<length vs]) \<and>
    (inj_on (poseidon C) ((\<lambda>i. [pX S, pY S, fr_of_int (int i)]) ` {..<length vs}) \<longrightarrow>
      distinct (map (\<lambda>i. cts ! i - vs ! i) [0..<length vs]))"
proof -
  let ?in = "\<lambda>i. [pX S, pY S, fr_of_int (int i)]"
  have count: "counter_elem i = fr_of_int (int i)" if "i < length vs" for i
    using that assms(3) by (intro counter_elem_int) simp
  have cts: "length cts = length vs" "\<forall>i < length vs. cts ! i = vs ! i + poseidon C (?in i)"
    using assms(2) by (auto simp: EncryptCounterMode_iff nth_enumerate_eq count assms(4))
  have inj: "inj_on ?in {..<length vs}"
    using assms(3) by (auto simp: inj_on_def simp flip: counter_elem_int simp: counter_elem_inj)
  have "inj_on (\<lambda>i. cts ! i - vs ! i) {..<length vs}" if "inj_on (poseidon C) (?in ` {..<length vs})"
    using comp_inj_on [OF inj that] cts(2) by (auto simp: inj_on_def)
  moreover have "{0..<length vs} = {..<length vs}" by auto
  ultimately show ?thesis
    using DecryptCounterMode_Encrypt [OF assms(1,2)] cts inj by (auto simp only: distinct_map set_upt distinct_upt)
qed

theorem counter_mode_roundtrip_witness:
  "\<exists>e cts. EncryptCounterMode curve1 [fr_of_int 4, fr_of_int 4] 3 (baseMult curve1 5) = Inr (e, cts) \<and>
    DecryptCounterMode curve1 5 e cts = [fr_of_int 4, fr_of_int 4] \<and> cts ! 0 \<noteq> cts ! 1"
proof -
  let ?vs = "[fr_of_int 4, fr_of_int 4]" and ?S = "scalarMult curve1 (baseMult curve1 5) 3"
  obtain e cts where run: "EncryptCounterMode curve1 ?vs 3 (baseMult curve1 5) = Inr (e, cts)"
    by (simp add: EncryptCounterMode_iff)
  have "fr_of_int 0 \<noteq> fr_of_int 1" by (simp add: fr_of_int_eq_iff fr_modulus_def)
  then have "inj_on (poseidon curve1) ((\<lambda>i. [pX ?S, pY ?S, fr_of_int (int i)]) ` {..<length ?vs})"
    by (auto simp: curve1_def lessThan_Suc)
  with counter_mode_roundtrip [OF curve1_ecdh run _ refl] run show ?thesis
    by (intro exI [of _ e] exI [of _ cts] conjI) (auto simp: upt_rec)
qed

text \<open>C39: \<open>transact\<close> hands over the message its command line describes: nullifiers, roots and
  registration root in hexadecimal, proof and notes from the files, amounts and the recipient from
  the flags, and nothing is altered on the way.\<close>

theorem transact_command:
  assumes "txContext env = Inr (tx_Sender msg)" and "readFile env pf = Inr (tx_Proof msg)"
    and "readFile env nf = Inr noteFile" and "unmarshalNotes env noteFile = Inr (map hex_note (Outputs msg))"
    and "Nullifiers msg = [n1, n2]" and "MerkleRoots msg = [r1, r2]" and "length (Outputs msg) = 2"
    and "string_flag env ''withdraw-amount'' ''0'' = WithdrawAmount msg"
    and "string_flag env ''withdraw-address'' '''' = WithdrawAddress msg"
    and "string_flag env ''relayer-fee'' ''0'' = RelayerFee msg"
  shows "CmdTransact env [pf, fmt_hex n1 @ '','' @ fmt_hex n2, fmt_hex r1 @ '','' @ fmt_hex r2, nf,
    tx_Denom msg, fmt_hex (RegistrationRoot msg)] = Inr msg"
  using assms by (rule CmdTransact_of_message)

definition note1 :: OutputNote where
  "note1 = \<lparr>NoteHash = [1], EphemeralX = [2], EphemeralY = [], EncAmount = [3], EncSalt = [],
     AuditorEnc = [], AuditorAuthKeyX = [], AuditorAuthKeyY = [], AuditorEncRecipient = []\<rparr>"

definition env1 :: cli_env where
  "env1 = \<lparr>txContext = Inr ''ann'', queryContext = Inr (),
     readFile = (\<lambda>f. if f = ''proof'' then Inr [1] else Inr [2]),
     flagGiven = (\<lambda>f. if f = ''withdraw-address'' then Some ''bob'' else None), jsonFlag = False,
     unmarshalNotes = (\<lambda>b. Inr [hex_note note1, hex_note note1]), marshalIndent = (\<lambda>m. Inr '''')\<rparr>"

definition transact2 :: MsgTransact where
  "transact2 = \<lparr>tx_Sender = ''ann'', Nullifiers = [[8], [9]], MerkleRoots = [[3], [4]],
     Outputs = [note1, note1], WithdrawAmount = ''0'', WithdrawAddress = ''bob'', tx_Denom = ''anix'',
     RegistrationRoot = [5], RelayerFee = ''0'', tx_Proof = [1]\<rparr>"

theorem transact_command_witness:
  "CmdTransact env1 [''proof'', fmt_hex [8] @ '','' @ fmt_hex [9], fmt_hex [3] @ '','' @ fmt_hex [4],
    ''notes'', tx_Denom transact2, fmt_hex (RegistrationRoot transact2)] = Inr transact2"
  by (rule transact_command) (simp_all add: env1_def transact2_def string_flag_def)

text \<open>The address that \<open>nix-address\<close> prints belongs to the scalar it was given: it decodes to a
  key whose point is that multiple of the generator.\<close>

lemma nix_address_command:
  assumes "key_laws C" and "CmdNixAddress C env [s] = Inr out" and "\<not> jsonFlag env"
  shows "\<exists>b pre a pk. hexDecode s = Inr b \<and> length b = 32 \<and> SetBytes b \<noteq> 0 \<and>
    out = pre @ ''Nix Address:  '' @ a @ newline \<and> DecodeNixAddress C a = Inr pk \<and>
    PointFromRawXY C (pk_Key pk) = Inr (baseMult C (fr_val (SetBytes b)))"
proof -
  obtain b sk a pre where s: "hexDecode s = Inr b" and sk: "PrivKeyFromScalarBytes C b = Inr sk"
    and a: "NixAddressFromPrivKey C sk = Inr a" and out: "out = pre @ ''Nix Address:  '' @ a @ newline"
    using CmdNixAddress_prints [OF assms(2,3)] by blast
  obtain a' pk where a': "NixAddressFromPrivKey C sk = Inr a'" and dec: "DecodeNixAddress C a' = Inr pk"
    "PointFromRawXY C (pk_Key pk) = Inr (baseMult C (fr_val (SetBytes b)))"
    using address_of_scalar [OF assms(1) sk] by blast
  from a a' have "a' = a" by simp
  with s sk out dec show ?thesis by (auto simp only: PrivKeyFromScalarBytes_iff)
qed

end
