(* ===== verification/Wire.thy ===== *)
theory Wire
  imports Types Text
begin

unbundle bit_operations_syntax

section \<open>The wire format: varints, buffers, fields\<close>

text \<open>
  What the generated codec of \<open>types/tx.pb.go\<close> and \<open>types/types.pb.go\<close> is made of: the varints,
  the buffer a message is written into from its end, the loop that reads fields, and the
  functions that skip the fields it does not know.  Each message supplies its fields (theory
  \<open>Messages\<close>).  An index is a natural number, and a sum that would exceed an \<open>int\<close> is compared with
  \<open>2 ^ 63\<close> where the code looks for a negative result.
\<close>

subsection \<open>Sizes and encodings of varints\<close>

text \<open>\<open>bits.Len64\<close>: the number of binary digits.\<close>

fun Len64 :: "nat \<Rightarrow> nat" where
  "Len64 n = (if n = 0 then 0 else Suc (Len64 (n div 2)))"

declare Len64.simps [simp del]

definition sovTx :: "u64 \<Rightarrow> nat" where
  "sovTx x = (Len64 (unat (x OR 1)) + 6) div 7"

text \<open>The buffer: the bytes, and the index everything from which on is written.\<close>

type_synonym buffer = "bytes \<times> nat"

text \<open>The loop that writes a varint, with the index after it.\<close>

function varint_at :: "bytes \<Rightarrow> nat \<Rightarrow> u64 \<Rightarrow> err + buffer" where
  "varint_at d offset v =
     (if offset \<ge> length d then Inl (Panic ''index out of range'')
      else if v \<ge> 128 then
        varint_at (d[offset := ucast (v AND 0x7F OR 0x80)]) (Suc offset) (drop_bit 7 v)
      else Inr (d[offset := ucast v], Suc offset))"
  by pat_completeness auto

termination
  by (relation "measure (\<lambda>(d, offset, v). length d - offset)") auto

declare varint_at.simps [simp del]

definition encodeVarintTx :: "u64 \<Rightarrow> buffer \<Rightarrow> err + buffer" where
  "encodeVarintTx v = (\<lambda>(d, i).
     if i < sovTx v then Inl (Panic ''index out of range'')
     else bindE (varint_at d (i - sovTx v) v) (\<lambda>(d', _). Inr (d', i - sovTx v)))"

subsection \<open>Writing fields, from the last to the first\<close>

text \<open>\<open>i--; dAtA[i] = b\<close>, and \<open>i -= len(b); copy(dAtA[i:], b)\<close>.\<close>

definition put_byte :: "byte \<Rightarrow> buffer \<Rightarrow> err + buffer" where
  "put_byte b = (\<lambda>(d, i). if i = 0 then Inl (Panic ''index out of range'')
     else Inr (d[i - 1 := b], i - 1))"

definition put_copy :: "bytes \<Rightarrow> buffer \<Rightarrow> err + buffer" where
  "put_copy b = (\<lambda>(d, i). if i < length b then Inl (Panic ''slice bounds out of range'')
     else Inr (take (i - length b) d @ b @ drop i d, i - length b))"

text \<open>One length-delimited element; a field that is left out when it is empty; the elements of a
  repeated field, the last one first; a number that is left out when it is zero.\<close>

definition put_elem :: "byte \<Rightarrow> bytes \<Rightarrow> buffer \<Rightarrow> err + buffer" where
  "put_elem tag b s =
     bindE (put_copy b s) (\<lambda>s. bindE (encodeVarintTx (of_nat (length b)) s) (put_byte tag))"

definition put_bytes :: "byte \<Rightarrow> bytes \<Rightarrow> buffer \<Rightarrow> err + buffer" where
  "put_bytes tag b s = (if length b > 0 then put_elem tag b s else Inr s)"

fun put_each :: "('x \<Rightarrow> buffer \<Rightarrow> err + buffer) \<Rightarrow> 'x list \<Rightarrow> buffer \<Rightarrow> err + buffer" where
  "put_each f [] s = Inr s"
| "put_each f (x # xs) s = bindE (put_each f xs s) (f x)"

definition put_number :: "byte \<Rightarrow> u64 \<Rightarrow> buffer \<Rightarrow> err + buffer" where
  "put_number tag v s = (if v \<noteq> 0 then bindE (encodeVarintTx v s) (put_byte tag) else Inr s)"

text \<open>A packed field: the numbers go to a buffer of ten bytes for each, and from there in front of what
  is written.\<close>

fun fill_packed :: "u64 list \<Rightarrow> buffer \<Rightarrow> err + buffer" where
  "fill_packed [] s = Inr s"
| "fill_packed (num # nums) (d, j) = bindE (varint_at d j num) (fill_packed nums)"

definition put_packed :: "byte \<Rightarrow> u64 list \<Rightarrow> buffer \<Rightarrow> err + buffer" where
  "put_packed tag nums s =
     (if length nums > 0 then
        bindE (fill_packed nums (replicate (length nums * 10) 0, 0)) (\<lambda>(dAtA2, j1).
        put_elem tag (take j1 dAtA2) s)
      else Inr s)"

text \<open>An embedded message: its own \<open>MarshalToSizedBuffer\<close> on \<open>dAtA[:i]\<close>, which returns its size.\<close>

definition put_message :: "byte \<Rightarrow> (bytes \<Rightarrow> err + bytes \<times> nat) \<Rightarrow> buffer \<Rightarrow> err + buffer" where
  "put_message tag marshal = (\<lambda>(d, i).
     bindE (marshal (take i d)) (\<lambda>(d', size).
     if i < size then Inl (Panic ''slice bounds out of range'')
     else bindE (encodeVarintTx (of_nat size) (d' @ drop i d, i - size)) (put_byte tag)))"

text \<open>\<open>MarshalToSizedBuffer\<close> starts at the end of its buffer and returns what it has written;
  \<open>Marshal\<close> allocates the buffer and returns its first bytes.\<close>

definition sized_buffer :: "(buffer \<Rightarrow> err + buffer) \<Rightarrow> bytes \<Rightarrow> err + bytes \<times> nat" where
  "sized_buffer put dAtA = bindE (put (dAtA, length dAtA)) (\<lambda>(d, i). Inr (d, length dAtA - i))"

definition marshal :: "nat \<Rightarrow> (bytes \<Rightarrow> err + bytes \<times> nat) \<Rightarrow> err + bytes" where
  "marshal sz toSizedBuffer =
     bindE (toSizedBuffer (replicate sz 0)) (\<lambda>(d, n).
     if n \<le> length d then Inr (take n d) else Inl (Panic ''slice bounds out of range''))"

subsection \<open>Reading\<close>

abbreviation eof :: err where
  "eof \<equiv> Ext ''unexpected EOF''"

abbreviation ErrIntOverflowTx :: err where
  "ErrIntOverflowTx \<equiv> Std ''proto: integer overflow''"

abbreviation ErrInvalidLengthTx :: err where
  "ErrInvalidLengthTx \<equiv> Std ''proto: negative length found during unmarshaling''"

text \<open>The loop that reads a varint at the width of its variable, with the index after it.\<close>

function varint_loop :: "bytes \<Rightarrow> nat \<Rightarrow> 'a::len word \<Rightarrow> nat \<Rightarrow> err + 'a word \<times> nat" where
  "varint_loop d shift v i =
     (if shift \<ge> 64 then Inl ErrIntOverflowTx
      else if i \<ge> length d then Inl eof
      else bindE (index_at d i) (\<lambda>b.
        let v' = v OR push_bit shift (ucast (b AND 0x7F))
        in if b < 0x80 then Inr (v', Suc i) else varint_loop d (shift + 7) v' (Suc i)))"
  by pat_completeness auto

termination
  by (relation "measure (\<lambda>(d, shift, v, i). 64 - shift)") auto

declare varint_loop.simps [simp del]

abbreviation varint :: "bytes \<Rightarrow> nat \<Rightarrow> err + 'a::len word \<times> nat" where
  "varint d i \<equiv> varint_loop d 0 0 i"

lemma varint_bounds: "varint_loop d shift v i = Inr (w, j) \<Longrightarrow> i < j \<and> j \<le> length d"
proof (induction d shift v i rule: varint_loop.induct)
  case (1 d shift v i)
  from "1.prems" show ?case
    by (subst (asm) varint_loop.simps)
      (auto simp: Let_def bindE_Inr_iff split: if_splits dest!: "1.IH" [OF _ _ index_at_simps refl])
qed

text \<open>A length: negative as an \<open>int\<close>, beyond an \<open>int\<close> when added to the index, beyond the buffer.\<close>

definition read_length :: "bytes \<Rightarrow> nat \<Rightarrow> err + nat \<times> nat" where
  "read_length d i =
     bindE (varint d i) (\<lambda>(v :: u64, j).
     if sint v < 0 then Inl ErrInvalidLengthTx
     else if j + unat v \<ge> 2 ^ 63 then Inl ErrInvalidLengthTx
     else if j + unat v > length d then Inl eof
     else Inr (j, j + unat v))"

text \<open>How a field is read: a length-delimited value, a number of either width, or a repeated number,
  alone or packed.\<close>

datatype 'm field_reader =
    ReadLen "bytes \<Rightarrow> 'm \<Rightarrow> err + 'm"
  | Read32 "u32 \<Rightarrow> 'm \<Rightarrow> 'm"
  | Read64 "u64 \<Rightarrow> 'm \<Rightarrow> 'm"
  | ReadPacked "u64 \<Rightarrow> 'm \<Rightarrow> 'm"

text \<open>The packed numbers up to an index; the last of them may run beyond it.\<close>

function packed_from :: "(u64 \<Rightarrow> 'm \<Rightarrow> 'm) \<Rightarrow> bytes \<Rightarrow> nat \<Rightarrow> nat \<Rightarrow> 'm \<Rightarrow> err + 'm \<times> nat" where
  "packed_from f d post i m =
     (if i < post then bindE (varint d i) (\<lambda>(v, j). packed_from f d post j (f v m))
      else Inr (m, i))"
  by pat_completeness auto

termination
  by (relation "measure (\<lambda>(f, d, post, i, m). post - i)") (auto dest: varint_bounds)

declare packed_from.simps [simp del]

lemma packed_bounds: "packed_from f d post i m = Inr (m', j) \<Longrightarrow> i \<le> j"
proof (induction f d post i m rule: packed_from.induct)
  case (1 f d post i m)
  show ?case
  proof (cases "i < post")
    case True
    with "1.prems" obtain v k where v: "varint d i = Inr (v, k)"
      and k: "packed_from f d post k (f v m) = Inr (m', j)"
      by (subst (asm) packed_from.simps) (auto simp: bindE_Inr_iff)
    from "1.IH" [OF True v refl k] varint_bounds [OF v] show ?thesis by simp
  next
    case False
    with "1.prems" show ?thesis by (simp add: packed_from.simps)
  qed
qed

abbreviation wrong_wire_type :: err where
  "wrong_wire_type \<equiv> Std ''proto: wrong wireType''"

fun read_field :: "'m field_reader \<Rightarrow> u64 \<Rightarrow> bytes \<Rightarrow> nat \<Rightarrow> 'm \<Rightarrow> err + 'm \<times> nat" where
  "read_field (ReadLen f) wireType d i m =
     (if wireType \<noteq> 2 then Inl wrong_wire_type
      else bindE (read_length d i) (\<lambda>(i, post).
        bindE (go_slice d i post) (\<lambda>b. bindE (f b m) (\<lambda>m. Inr (m, post)))))"
| "read_field (Read32 f) wireType d i m =
     (if wireType \<noteq> 0 then Inl wrong_wire_type
      else bindE (varint d i) (\<lambda>(v, i). Inr (f v m, i)))"
| "read_field (Read64 f) wireType d i m =
     (if wireType \<noteq> 0 then Inl wrong_wire_type
      else bindE (varint d i) (\<lambda>(v, i). Inr (f v m, i)))"
| "read_field (ReadPacked f) wireType d i m =
     (if wireType = 0 then bindE (varint d i) (\<lambda>(v, i). Inr (f v m, i))
      else if wireType = 2 then
        bindE (read_length d i) (\<lambda>(i, post).
        bindE (go_slice d i post) (\<lambda>_. packed_from f d post i m))
      else Inl wrong_wire_type)"

subsection \<open>Skipping\<close>

text \<open>One round of \<open>skipTx\<close> after the tag: the index and the group depth.\<close>

definition skip_value :: "bytes \<Rightarrow> nat \<Rightarrow> u64 \<Rightarrow> nat \<Rightarrow> err + nat \<times> nat" where
  "skip_value d depth wireType i =
     (if wireType = 0 then bindE (varint d i) (\<lambda>(v :: u64, i). Inr (i, depth))
      else if wireType = 1 then Inr (i + 8, depth)
      else if wireType = 2 then
        bindE (varint d i) (\<lambda>(v :: u64, i).
        if sint v < 0 then Inl ErrInvalidLengthTx else Inr (i + unat v, depth))
      else if wireType = 3 then Inr (i, Suc depth)
      else if wireType = 4 then
        if depth = 0 then Inl (Std ''proto: unexpected end of group'') else Inr (i, depth - 1)
      else if wireType = 5 then Inr (i + 4, depth)
      else Inl (Std ''proto: illegal wireType''))"

lemma skip_value_bounds: "skip_value d depth wt i = Inr (j, depth') \<Longrightarrow> i \<le> j"
  by (auto simp: skip_value_def bindE_Inr_iff split: if_splits dest!: varint_bounds)

function skip_from :: "bytes \<Rightarrow> nat \<Rightarrow> nat \<Rightarrow> err + nat" where
  "skip_from d depth i =
     (if i < length d then
        bindE (varint d i) (\<lambda>(wire :: u64, j).
        bindE (skip_value d depth (wire AND 7) j) (\<lambda>(k, depth').
        if k \<ge> 2 ^ 63 then Inl ErrInvalidLengthTx
        else if depth' = 0 then Inr k
        else skip_from d depth' k))
      else Inl eof)"
  by pat_completeness auto

termination
  by (relation "measure (\<lambda>(d, depth, i). length d - i)")
    (auto dest!: varint_bounds skip_value_bounds)

declare skip_from.simps [simp del]

definition skipTx :: "bytes \<Rightarrow> err + nat" where
  "skipTx dAtA = skip_from dAtA 0 0"

lemma skip_bounds: "skip_from d depth i = Inr n \<Longrightarrow> i < n"
proof (induction d depth i rule: skip_from.induct)
  case (1 d depth i)
  from "1.prems" obtain wire :: u64 and j k depth' where i: "i < length d"
    and v: "varint d i = Inr (wire, j)" and s: "skip_value d depth (wire AND 7) j = Inr (k, depth')"
    and rest: "\<not> 2 ^ 63 \<le> k" "if depth' = 0 then n = k else skip_from d depth' k = Inr n"
    by (subst (asm) skip_from.simps) (auto simp: bindE_Inr_iff split: if_splits)
  have "i < k" using varint_bounds [OF v] skip_value_bounds [OF s] by simp
  moreover have "k < n" if "depth' \<noteq> 0"
    using "1.IH" [OF i v refl s refl rest(1) that] rest(2) that by simp
  ultimately show ?case using rest(2) by (cases "depth' = 0") auto
qed

subsection \<open>The loop of \<open>Unmarshal\<close>\<close>

text \<open>One round: the tag, then a known field or one to skip from the tag on.\<close>

definition unmarshal_round ::
    "(int \<Rightarrow> 'm field_reader option) \<Rightarrow> bytes \<Rightarrow> nat \<Rightarrow> 'm \<Rightarrow> err + 'm \<times> nat" where
  "unmarshal_round flds d i m =
     bindE (varint d i) (\<lambda>(wire :: u64, j).
     let fieldNum = sint (ucast (drop_bit 3 wire) :: u32); wireType = wire AND 7
     in if wireType = 4 then Inl (Std ''proto: wiretype end group for non-group'')
        else if fieldNum \<le> 0 then Inl (Std ''proto: illegal tag'')
        else
          case flds fieldNum of
            Some rd \<Rightarrow> read_field rd wireType d j m
          | None \<Rightarrow>
              bindE (go_slice d i (length d)) (\<lambda>rest.
              bindE (skipTx rest) (\<lambda>skippy.
              if i + skippy \<ge> 2 ^ 63 then Inl ErrInvalidLengthTx
              else if i + skippy > length d then Inl eof
              else Inr (m, i + skippy))))"

lemma read_field_bounds: "read_field rd wt d i m = Inr (m', j) \<Longrightarrow> i \<le> j"
  by (cases rd) (auto simp: bindE_Inr_iff read_length_def split: if_splits
      dest!: varint_bounds packed_bounds)

lemma unmarshal_round_bounds: "unmarshal_round flds d i m = Inr (m', j) \<Longrightarrow> i < j"
  by (auto simp: unmarshal_round_def bindE_Inr_iff Let_def skipTx_def split: if_splits option.splits
      dest!: varint_bounds read_field_bounds skip_bounds)

function unmarshal_from ::
    "(int \<Rightarrow> 'm field_reader option) \<Rightarrow> bytes \<Rightarrow> nat \<Rightarrow> 'm \<Rightarrow> err + 'm" where
  "unmarshal_from flds d i m =
     (if i < length d then
        bindE (unmarshal_round flds d i m) (\<lambda>(m', j). unmarshal_from flds d j m')
      else if i > length d then Inl eof
      else Inr m)"
  by pat_completeness auto

termination
  by (relation "measure (\<lambda>(flds, d, i, m). length d - i)") (auto dest: unmarshal_round_bounds)

declare unmarshal_from.simps [simp del]

definition unmarshal :: "(int \<Rightarrow> 'm field_reader option) \<Rightarrow> bytes \<Rightarrow> 'm \<Rightarrow> err + 'm" where
  "unmarshal flds dAtA m = unmarshal_from flds dAtA 0 m"

subsection \<open>Kinds of fields\<close>

text \<open>The fields of the messages: bytes, a string, repeated bytes and strings, set through the update
  function of the field.\<close>

definition bytes_field :: "((bytes \<Rightarrow> bytes) \<Rightarrow> 'm \<Rightarrow> 'm) \<Rightarrow> 'm field_reader" where
  "bytes_field upd = ReadLen (\<lambda>b m. Inr (upd (\<lambda>_. b) m))"

definition string_field :: "((string \<Rightarrow> string) \<Rightarrow> 'm \<Rightarrow> 'm) \<Rightarrow> 'm field_reader" where
  "string_field upd = ReadLen (\<lambda>b m. Inr (upd (\<lambda>_. string_of b) m))"

definition repeated_bytes :: "((bytes list \<Rightarrow> bytes list) \<Rightarrow> 'm \<Rightarrow> 'm) \<Rightarrow> 'm field_reader" where
  "repeated_bytes upd = ReadLen (\<lambda>b m. Inr (upd (\<lambda>bs. bs @ [b]) m))"

definition repeated_strings :: "((string list \<Rightarrow> string list) \<Rightarrow> 'm \<Rightarrow> 'm) \<Rightarrow> 'm field_reader" where
  "repeated_strings upd = ReadLen (\<lambda>b m. Inr (upd (\<lambda>ss. ss @ [string_of b]) m))"

end
