(* ===== verification/Messages.thy ===== *)
theory Messages
  imports Wire
begin

section \<open>The messages on the wire\<close>

text \<open>
  The generated \<open>Size\<close>, \<open>Marshal\<close> and \<open>Unmarshal\<close> of \<open>types/tx.pb.go\<close> and of \<open>Params\<close>
  (\<open>types/types.pb.go\<close>).  A message is written from its last field to its first; \<open>Unmarshal\<close> starts
  from a message whose fields have their zero values and reads the fields in any order.  The
  pointers of a repeated message field are not nil.
\<close>

subsection \<open>Sizes\<close>

definition elem_size :: "nat \<Rightarrow> nat" where
  "elem_size l = 1 + l + sovTx (of_nat l)"

definition field_size :: "nat \<Rightarrow> nat" where
  "field_size l = (if l > 0 then 1 + l + sovTx (of_nat l) else 0)"

definition number_size :: "u64 \<Rightarrow> nat" where
  "number_size v = (if v \<noteq> 0 then 1 + sovTx v else 0)"

definition packed_size :: "u64 list \<Rightarrow> nat" where
  "packed_size nums =
     (if length nums > 0 then let l = (\<Sum>e\<leftarrow>nums. sovTx e) in 1 + sovTx (of_nat l) + l else 0)"

subsection \<open>\<open>Params\<close>\<close>

definition Params_blank :: params where
  "Params_blank = \<lparr>TreeDepth = 0, RegTreeDepth = 0, AuditorPubKey = [], SupportedDenoms = [], ChainBinding = []\<rparr>"

definition Params_Size :: "params \<Rightarrow> nat" where
  "Params_Size m =
     number_size (ucast (TreeDepth m)) +
     number_size (ucast (RegTreeDepth m)) +
     field_size (length (AuditorPubKey m)) +
     (\<Sum>x\<leftarrow>SupportedDenoms m. elem_size (length x)) +
     field_size (length (ChainBinding m))"

definition Params_MarshalToSizedBuffer :: "params \<Rightarrow> bytes \<Rightarrow> err + bytes \<times> nat" where
  "Params_MarshalToSizedBuffer m = sized_buffer (\<lambda>s.
     bindE (put_bytes 0x2a (ChainBinding m) s) (\<lambda>s.
     bindE (put_each (put_elem 0x22) (map bytes_of (SupportedDenoms m)) s) (\<lambda>s.
     bindE (put_bytes 0x1a (AuditorPubKey m) s) (\<lambda>s.
     bindE (put_number 0x10 (ucast (RegTreeDepth m)) s) (\<lambda>s.
     put_number 0x08 (ucast (TreeDepth m)) s)))))"

definition Params_Marshal :: "params \<Rightarrow> err + bytes" where
  "Params_Marshal m = marshal (Params_Size m) (Params_MarshalToSizedBuffer m)"

definition Params_fields :: "int \<Rightarrow> params field_reader option" where
  "Params_fields n =
     (if n = 1 then Some (Read32 (\<lambda>v. TreeDepth_update (\<lambda>_. v)))
      else if n = 2 then Some (Read32 (\<lambda>v. RegTreeDepth_update (\<lambda>_. v)))
      else if n = 3 then Some (bytes_field AuditorPubKey_update)
      else if n = 4 then Some (repeated_strings SupportedDenoms_update)
      else if n = 5 then Some (bytes_field ChainBinding_update)
      else None)"

definition Params_Unmarshal :: "bytes \<Rightarrow> params \<Rightarrow> err + params" where
  "Params_Unmarshal = unmarshal Params_fields"

subsection \<open>\<open>OutputNote\<close>\<close>

definition OutputNote_blank :: OutputNote where
  "OutputNote_blank = \<lparr>NoteHash = [], EphemeralX = [], EphemeralY = [], EncAmount = [], EncSalt = [], AuditorEnc = [], AuditorAuthKeyX = [], AuditorAuthKeyY = [], AuditorEncRecipient = []\<rparr>"

definition OutputNote_Size :: "OutputNote \<Rightarrow> nat" where
  "OutputNote_Size m =
     field_size (length (NoteHash m)) +
     field_size (length (EphemeralX m)) +
     field_size (length (EphemeralY m)) +
     field_size (length (EncAmount m)) +
     field_size (length (EncSalt m)) +
     field_size (length (AuditorEnc m)) +
     field_size (length (AuditorAuthKeyX m)) +
     field_size (length (AuditorAuthKeyY m)) +
     field_size (length (AuditorEncRecipient m))"

definition OutputNote_MarshalToSizedBuffer :: "OutputNote \<Rightarrow> bytes \<Rightarrow> err + bytes \<times> nat" where
  "OutputNote_MarshalToSizedBuffer m = sized_buffer (\<lambda>s.
     bindE (put_bytes 0x4a (AuditorEncRecipient m) s) (\<lambda>s.
     bindE (put_bytes 0x42 (AuditorAuthKeyY m) s) (\<lambda>s.
     bindE (put_bytes 0x3a (AuditorAuthKeyX m) s) (\<lambda>s.
     bindE (put_bytes 0x32 (AuditorEnc m) s) (\<lambda>s.
     bindE (put_bytes 0x2a (EncSalt m) s) (\<lambda>s.
     bindE (put_bytes 0x22 (EncAmount m) s) (\<lambda>s.
     bindE (put_bytes 0x1a (EphemeralY m) s) (\<lambda>s.
     bindE (put_bytes 0x12 (EphemeralX m) s) (\<lambda>s.
     put_bytes 0x0a (NoteHash m) s)))))))))"

definition OutputNote_Marshal :: "OutputNote \<Rightarrow> err + bytes" where
  "OutputNote_Marshal m = marshal (OutputNote_Size m) (OutputNote_MarshalToSizedBuffer m)"

definition OutputNote_fields :: "int \<Rightarrow> OutputNote field_reader option" where
  "OutputNote_fields n =
     (if n = 1 then Some (bytes_field NoteHash_update)
      else if n = 2 then Some (bytes_field EphemeralX_update)
      else if n = 3 then Some (bytes_field EphemeralY_update)
      else if n = 4 then Some (bytes_field EncAmount_update)
      else if n = 5 then Some (bytes_field EncSalt_update)
      else if n = 6 then Some (bytes_field AuditorEnc_update)
      else if n = 7 then Some (bytes_field AuditorAuthKeyX_update)
      else if n = 8 then Some (bytes_field AuditorAuthKeyY_update)
      else if n = 9 then Some (bytes_field AuditorEncRecipient_update)
      else None)"

definition OutputNote_Unmarshal :: "bytes \<Rightarrow> OutputNote \<Rightarrow> err + OutputNote" where
  "OutputNote_Unmarshal = unmarshal OutputNote_fields"

subsection \<open>\<open>MsgRegister\<close>\<close>

definition MsgRegister_blank :: MsgRegister where
  "MsgRegister_blank = \<lparr>reg_Sender = '''', reg_IdentityCommitment = [], reg_Proof = [], reg_PublicInputs = [], reg_AuditorEncryptedData = []\<rparr>"

definition MsgRegister_Size :: "MsgRegister \<Rightarrow> nat" where
  "MsgRegister_Size m =
     field_size (length (reg_Sender m)) +
     field_size (length (reg_IdentityCommitment m)) +
     field_size (length (reg_Proof m)) +
     field_size (length (reg_PublicInputs m)) +
     field_size (length (reg_AuditorEncryptedData m))"

definition MsgRegister_MarshalToSizedBuffer :: "MsgRegister \<Rightarrow> bytes \<Rightarrow> err + bytes \<times> nat" where
  "MsgRegister_MarshalToSizedBuffer m = sized_buffer (\<lambda>s.
     bindE (put_bytes 0x2a (reg_AuditorEncryptedData m) s) (\<lambda>s.
     bindE (put_bytes 0x22 (reg_PublicInputs m) s) (\<lambda>s.
     bindE (put_bytes 0x1a (reg_Proof m) s) (\<lambda>s.
     bindE (put_bytes 0x12 (reg_IdentityCommitment m) s) (\<lambda>s.
     put_bytes 0x0a (bytes_of (reg_Sender m)) s)))))"

definition MsgRegister_Marshal :: "MsgRegister \<Rightarrow> err + bytes" where
  "MsgRegister_Marshal m = marshal (MsgRegister_Size m) (MsgRegister_MarshalToSizedBuffer m)"

definition MsgRegister_fields :: "int \<Rightarrow> MsgRegister field_reader option" where
  "MsgRegister_fields n =
     (if n = 1 then Some (string_field reg_Sender_update)
      else if n = 2 then Some (bytes_field reg_IdentityCommitment_update)
      else if n = 3 then Some (bytes_field reg_Proof_update)
      else if n = 4 then Some (bytes_field reg_PublicInputs_update)
      else if n = 5 then Some (bytes_field reg_AuditorEncryptedData_update)
      else None)"

definition MsgRegister_Unmarshal :: "bytes \<Rightarrow> MsgRegister \<Rightarrow> err + MsgRegister" where
  "MsgRegister_Unmarshal = unmarshal MsgRegister_fields"

subsection \<open>\<open>MsgDeposit\<close>\<close>

definition MsgDeposit_blank :: MsgDeposit where
  "MsgDeposit_blank = \<lparr>dep_Sender = '''', dep_Denom = '''', dep_Amount = '''', dep_NoteCommitment = [], dep_Proof = [], dep_PublicInputs = [], dep_AuditorEncryptedData = []\<rparr>"

definition MsgDeposit_Size :: "MsgDeposit \<Rightarrow> nat" where
  "MsgDeposit_Size m =
     field_size (length (dep_Sender m)) +
     field_size (length (dep_Denom m)) +
     field_size (length (dep_Amount m)) +
     field_size (length (dep_NoteCommitment m)) +
     field_size (length (dep_Proof m)) +
     field_size (length (dep_PublicInputs m)) +
     field_size (length (dep_AuditorEncryptedData m))"

definition MsgDeposit_MarshalToSizedBuffer :: "MsgDeposit \<Rightarrow> bytes \<Rightarrow> err + bytes \<times> nat" where
  "MsgDeposit_MarshalToSizedBuffer m = sized_buffer (\<lambda>s.
     bindE (put_bytes 0x3a (dep_AuditorEncryptedData m) s) (\<lambda>s.
     bindE (put_bytes 0x32 (dep_PublicInputs m) s) (\<lambda>s.
     bindE (put_bytes 0x2a (dep_Proof m) s) (\<lambda>s.
     bindE (put_bytes 0x22 (dep_NoteCommitment m) s) (\<lambda>s.
     bindE (put_bytes 0x1a (bytes_of (dep_Amount m)) s) (\<lambda>s.
     bindE (put_bytes 0x12 (bytes_of (dep_Denom m)) s) (\<lambda>s.
     put_bytes 0x0a (bytes_of (dep_Sender m)) s)))))))"

definition MsgDeposit_Marshal :: "MsgDeposit \<Rightarrow> err + bytes" where
  "MsgDeposit_Marshal m = marshal (MsgDeposit_Size m) (MsgDeposit_MarshalToSizedBuffer m)"

definition MsgDeposit_fields :: "int \<Rightarrow> MsgDeposit field_reader option" where
  "MsgDeposit_fields n =
     (if n = 1 then Some (string_field dep_Sender_update)
      else if n = 2 then Some (string_field dep_Denom_update)
      else if n = 3 then Some (string_field dep_Amount_update)
      else if n = 4 then Some (bytes_field dep_NoteCommitment_update)
      else if n = 5 then Some (bytes_field dep_Proof_update)
      else if n = 6 then Some (bytes_field dep_PublicInputs_update)
      else if n = 7 then Some (bytes_field dep_AuditorEncryptedData_update)
      else None)"

definition MsgDeposit_Unmarshal :: "bytes \<Rightarrow> MsgDeposit \<Rightarrow> err + MsgDeposit" where
  "MsgDeposit_Unmarshal = unmarshal MsgDeposit_fields"

subsection \<open>\<open>MsgTransact\<close>\<close>

definition MsgTransact_blank :: MsgTransact where
  "MsgTransact_blank = \<lparr>tx_Sender = '''', Nullifiers = [], MerkleRoots = [], Outputs = [], WithdrawAmount = '''', WithdrawAddress = '''', tx_Denom = '''', RegistrationRoot = [], RelayerFee = '''', tx_Proof = []\<rparr>"

definition MsgTransact_Size :: "MsgTransact \<Rightarrow> nat" where
  "MsgTransact_Size m =
     field_size (length (tx_Sender m)) +
     (\<Sum>x\<leftarrow>Nullifiers m. elem_size (length x)) +
     (\<Sum>x\<leftarrow>MerkleRoots m. elem_size (length x)) +
     (\<Sum>x\<leftarrow>Outputs m. elem_size (OutputNote_Size x)) +
     field_size (length (WithdrawAmount m)) +
     field_size (length (WithdrawAddress m)) +
     field_size (length (tx_Denom m)) +
     field_size (length (RegistrationRoot m)) +
     field_size (length (RelayerFee m)) +
     field_size (length (tx_Proof m))"

definition MsgTransact_MarshalToSizedBuffer :: "MsgTransact \<Rightarrow> bytes \<Rightarrow> err + bytes \<times> nat" where
  "MsgTransact_MarshalToSizedBuffer m = sized_buffer (\<lambda>s.
     bindE (put_bytes 0x52 (tx_Proof m) s) (\<lambda>s.
     bindE (put_bytes 0x4a (bytes_of (RelayerFee m)) s) (\<lambda>s.
     bindE (put_bytes 0x42 (RegistrationRoot m) s) (\<lambda>s.
     bindE (put_bytes 0x3a (bytes_of (tx_Denom m)) s) (\<lambda>s.
     bindE (put_bytes 0x32 (bytes_of (WithdrawAddress m)) s) (\<lambda>s.
     bindE (put_bytes 0x2a (bytes_of (WithdrawAmount m)) s) (\<lambda>s.
     bindE (put_each (\<lambda>x. put_message 0x22 (OutputNote_MarshalToSizedBuffer x)) (Outputs m) s) (\<lambda>s.
     bindE (put_each (put_elem 0x1a) (MerkleRoots m) s) (\<lambda>s.
     bindE (put_each (put_elem 0x12) (Nullifiers m) s) (\<lambda>s.
     put_bytes 0x0a (bytes_of (tx_Sender m)) s))))))))))"

definition MsgTransact_Marshal :: "MsgTransact \<Rightarrow> err + bytes" where
  "MsgTransact_Marshal m = marshal (MsgTransact_Size m) (MsgTransact_MarshalToSizedBuffer m)"

definition MsgTransact_fields :: "int \<Rightarrow> MsgTransact field_reader option" where
  "MsgTransact_fields n =
     (if n = 1 then Some (string_field tx_Sender_update)
      else if n = 2 then Some (repeated_bytes Nullifiers_update)
      else if n = 3 then Some (repeated_bytes MerkleRoots_update)
      else if n = 4 then Some (ReadLen (\<lambda>b m. bindE (OutputNote_Unmarshal b OutputNote_blank)
         (\<lambda>x. Inr (m\<lparr>Outputs := Outputs m @ [x]\<rparr>))))
      else if n = 5 then Some (string_field WithdrawAmount_update)
      else if n = 6 then Some (string_field WithdrawAddress_update)
      else if n = 7 then Some (string_field tx_Denom_update)
      else if n = 8 then Some (bytes_field RegistrationRoot_update)
      else if n = 9 then Some (string_field RelayerFee_update)
      else if n = 10 then Some (bytes_field tx_Proof_update)
      else None)"

definition MsgTransact_Unmarshal :: "bytes \<Rightarrow> MsgTransact \<Rightarrow> err + MsgTransact" where
  "MsgTransact_Unmarshal = unmarshal MsgTransact_fields"

subsection \<open>\<open>MsgUpdateParams\<close>\<close>

definition MsgUpdateParams_blank :: MsgUpdateParams where
  "MsgUpdateParams_blank = \<lparr>up_Authority = '''', up_Params = None\<rparr>"

definition MsgUpdateParams_Size :: "MsgUpdateParams \<Rightarrow> nat" where
  "MsgUpdateParams_Size m =
     field_size (length (up_Authority m)) +
     (case up_Params m of None \<Rightarrow> 0 | Some x \<Rightarrow> elem_size (Params_Size x))"

definition MsgUpdateParams_MarshalToSizedBuffer :: "MsgUpdateParams \<Rightarrow> bytes \<Rightarrow> err + bytes \<times> nat" where
  "MsgUpdateParams_MarshalToSizedBuffer m = sized_buffer (\<lambda>s.
     bindE ((case up_Params m of None \<Rightarrow> Inr | Some x \<Rightarrow> put_message 0x12 (Params_MarshalToSizedBuffer x)) s) (\<lambda>s.
     put_bytes 0x0a (bytes_of (up_Authority m)) s))"

definition MsgUpdateParams_Marshal :: "MsgUpdateParams \<Rightarrow> err + bytes" where
  "MsgUpdateParams_Marshal m = marshal (MsgUpdateParams_Size m) (MsgUpdateParams_MarshalToSizedBuffer m)"

definition MsgUpdateParams_fields :: "int \<Rightarrow> MsgUpdateParams field_reader option" where
  "MsgUpdateParams_fields n =
     (if n = 1 then Some (string_field up_Authority_update)
      else if n = 2 then Some (ReadLen (\<lambda>b m. bindE (Params_Unmarshal b (case up_Params m of None \<Rightarrow> Params_blank | Some x \<Rightarrow> x))
         (\<lambda>x. Inr (m\<lparr>up_Params := Some x\<rparr>))))
      else None)"

definition MsgUpdateParams_Unmarshal :: "bytes \<Rightarrow> MsgUpdateParams \<Rightarrow> err + MsgUpdateParams" where
  "MsgUpdateParams_Unmarshal = unmarshal MsgUpdateParams_fields"

subsection \<open>\<open>MsgSetVerificationKey\<close>\<close>

definition MsgSetVerificationKey_blank :: MsgSetVerificationKey where
  "MsgSetVerificationKey_blank = \<lparr>svk_Authority = '''', CircuitName = '''', VkData = []\<rparr>"

definition MsgSetVerificationKey_Size :: "MsgSetVerificationKey \<Rightarrow> nat" where
  "MsgSetVerificationKey_Size m =
     field_size (length (svk_Authority m)) +
     field_size (length (CircuitName m)) +
     field_size (length (VkData m))"

definition MsgSetVerificationKey_MarshalToSizedBuffer :: "MsgSetVerificationKey \<Rightarrow> bytes \<Rightarrow> err + bytes \<times> nat" where
  "MsgSetVerificationKey_MarshalToSizedBuffer m = sized_buffer (\<lambda>s.
     bindE (put_bytes 0x1a (VkData m) s) (\<lambda>s.
     bindE (put_bytes 0x12 (bytes_of (CircuitName m)) s) (\<lambda>s.
     put_bytes 0x0a (bytes_of (svk_Authority m)) s)))"

definition MsgSetVerificationKey_Marshal :: "MsgSetVerificationKey \<Rightarrow> err + bytes" where
  "MsgSetVerificationKey_Marshal m = marshal (MsgSetVerificationKey_Size m) (MsgSetVerificationKey_MarshalToSizedBuffer m)"

definition MsgSetVerificationKey_fields :: "int \<Rightarrow> MsgSetVerificationKey field_reader option" where
  "MsgSetVerificationKey_fields n =
     (if n = 1 then Some (string_field svk_Authority_update)
      else if n = 2 then Some (string_field CircuitName_update)
      else if n = 3 then Some (bytes_field VkData_update)
      else None)"

definition MsgSetVerificationKey_Unmarshal :: "bytes \<Rightarrow> MsgSetVerificationKey \<Rightarrow> err + MsgSetVerificationKey" where
  "MsgSetVerificationKey_Unmarshal = unmarshal MsgSetVerificationKey_fields"

subsection \<open>\<open>MsgRegisterResponse\<close>\<close>

record MsgRegisterResponse =
  rr_LeafIndex :: u64
  rr_MerkleRoot :: bytes

definition MsgRegisterResponse_blank :: MsgRegisterResponse where
  "MsgRegisterResponse_blank = \<lparr>rr_LeafIndex = 0, rr_MerkleRoot = []\<rparr>"

definition MsgRegisterResponse_Size :: "MsgRegisterResponse \<Rightarrow> nat" where
  "MsgRegisterResponse_Size m =
     number_size (rr_LeafIndex m) +
     field_size (length (rr_MerkleRoot m))"

definition MsgRegisterResponse_MarshalToSizedBuffer :: "MsgRegisterResponse \<Rightarrow> bytes \<Rightarrow> err + bytes \<times> nat" where
  "MsgRegisterResponse_MarshalToSizedBuffer m = sized_buffer (\<lambda>s.
     bindE (put_bytes 0x12 (rr_MerkleRoot m) s) (\<lambda>s.
     put_number 0x08 (rr_LeafIndex m) s))"

definition MsgRegisterResponse_Marshal :: "MsgRegisterResponse \<Rightarrow> err + bytes" where
  "MsgRegisterResponse_Marshal m = marshal (MsgRegisterResponse_Size m) (MsgRegisterResponse_MarshalToSizedBuffer m)"

definition MsgRegisterResponse_fields :: "int \<Rightarrow> MsgRegisterResponse field_reader option" where
  "MsgRegisterResponse_fields n =
     (if n = 1 then Some (Read64 (\<lambda>v. rr_LeafIndex_update (\<lambda>_. v)))
      else if n = 2 then Some (bytes_field rr_MerkleRoot_update)
      else None)"

definition MsgRegisterResponse_Unmarshal :: "bytes \<Rightarrow> MsgRegisterResponse \<Rightarrow> err + MsgRegisterResponse" where
  "MsgRegisterResponse_Unmarshal = unmarshal MsgRegisterResponse_fields"

subsection \<open>\<open>MsgDepositResponse\<close>\<close>

record MsgDepositResponse =
  dr_LeafIndex :: u64
  dr_MerkleRoot :: bytes

definition MsgDepositResponse_blank :: MsgDepositResponse where
  "MsgDepositResponse_blank = \<lparr>dr_LeafIndex = 0, dr_MerkleRoot = []\<rparr>"

definition MsgDepositResponse_Size :: "MsgDepositResponse \<Rightarrow> nat" where
  "MsgDepositResponse_Size m =
     number_size (dr_LeafIndex m) +
     field_size (length (dr_MerkleRoot m))"

definition MsgDepositResponse_MarshalToSizedBuffer :: "MsgDepositResponse \<Rightarrow> bytes \<Rightarrow> err + bytes \<times> nat" where
  "MsgDepositResponse_MarshalToSizedBuffer m = sized_buffer (\<lambda>s.
     bindE (put_bytes 0x12 (dr_MerkleRoot m) s) (\<lambda>s.
     put_number 0x08 (dr_LeafIndex m) s))"

definition MsgDepositResponse_Marshal :: "MsgDepositResponse \<Rightarrow> err + bytes" where
  "MsgDepositResponse_Marshal m = marshal (MsgDepositResponse_Size m) (MsgDepositResponse_MarshalToSizedBuffer m)"

definition MsgDepositResponse_fields :: "int \<Rightarrow> MsgDepositResponse field_reader option" where
  "MsgDepositResponse_fields n =
     (if n = 1 then Some (Read64 (\<lambda>v. dr_LeafIndex_update (\<lambda>_. v)))
      else if n = 2 then Some (bytes_field dr_MerkleRoot_update)
      else None)"

definition MsgDepositResponse_Unmarshal :: "bytes \<Rightarrow> MsgDepositResponse \<Rightarrow> err + MsgDepositResponse" where
  "MsgDepositResponse_Unmarshal = unmarshal MsgDepositResponse_fields"

subsection \<open>\<open>MsgTransactResponse\<close>\<close>

record MsgTransactResponse =
  tr_LeafIndices :: "u64 list"
  tr_MerkleRoot :: bytes

definition MsgTransactResponse_blank :: MsgTransactResponse where
  "MsgTransactResponse_blank = \<lparr>tr_LeafIndices = [], tr_MerkleRoot = []\<rparr>"

definition MsgTransactResponse_Size :: "MsgTransactResponse \<Rightarrow> nat" where
  "MsgTransactResponse_Size m =
     packed_size (tr_LeafIndices m) +
     field_size (length (tr_MerkleRoot m))"

definition MsgTransactResponse_MarshalToSizedBuffer :: "MsgTransactResponse \<Rightarrow> bytes \<Rightarrow> err + bytes \<times> nat" where
  "MsgTransactResponse_MarshalToSizedBuffer m = sized_buffer (\<lambda>s.
     bindE (put_bytes 0x12 (tr_MerkleRoot m) s) (\<lambda>s.
     put_packed 0x0a (tr_LeafIndices m) s))"

definition MsgTransactResponse_Marshal :: "MsgTransactResponse \<Rightarrow> err + bytes" where
  "MsgTransactResponse_Marshal m = marshal (MsgTransactResponse_Size m) (MsgTransactResponse_MarshalToSizedBuffer m)"

definition MsgTransactResponse_fields :: "int \<Rightarrow> MsgTransactResponse field_reader option" where
  "MsgTransactResponse_fields n =
     (if n = 1 then Some (ReadPacked (\<lambda>v. tr_LeafIndices_update (\<lambda>vs. vs @ [v])))
      else if n = 2 then Some (bytes_field tr_MerkleRoot_update)
      else None)"

definition MsgTransactResponse_Unmarshal :: "bytes \<Rightarrow> MsgTransactResponse \<Rightarrow> err + MsgTransactResponse" where
  "MsgTransactResponse_Unmarshal = unmarshal MsgTransactResponse_fields"

end
