(* ===== verification/WireSpec.thy ===== *)
theory WireSpec
  imports Wire
begin

section \<open>What the codec writes and reads\<close>

text \<open>
  The specification of the codec by lists: the bytes a varint and a field are written as.  \<open>puts f w\<close>
  says that the writer \<open>f\<close> puts exactly the bytes \<open>w\<close> in front of what the buffer holds, \<open>reads flds w g\<close>
  that the loop of \<open>Unmarshal\<close>, when it comes to the bytes \<open>w\<close>, goes on after them with the message
  changed by \<open>g\<close>.  Both are closed under the ways the generated code composes fields.
\<close>

subsection \<open>Varints\<close>

lemma unat_drop7: "unat (drop_bit 7 (v :: u64)) = unat v div 128"
  unfolding unat_drop_bit_eq by (simp add: drop_bit_eq_div)

function enc_varint :: "u64 \<Rightarrow> bytes" where
  "enc_varint v =
     (if v \<ge> 128 then ucast (v AND 0x7F OR 0x80) # enc_varint (drop_bit 7 v) else [ucast v])"
  by pat_completeness auto

termination
proof (relation "measure unat")
  fix v :: u64
  assume "v \<ge> 128"
  then have "128 \<le> unat v" by (simp add: word_le_nat_alt)
  then show "(drop_bit 7 v, v) \<in> measure unat" by (simp add: unat_drop7)
qed simp

declare enc_varint.simps [simp del]

lemma enc_varint_not_Nil [simp]: "enc_varint v \<noteq> []"
  by (subst enc_varint.simps) simp

lemma Len64_step: "0 < n \<Longrightarrow> Len64 n = Suc (Len64 (n div 2))"
  by (subst Len64.simps) simp

lemma Len64_le: "n < 2 ^ k \<Longrightarrow> Len64 n \<le> k"
proof (induction k arbitrary: n)
  case 0
  then show ?case by (simp add: Len64.simps)
next
  case (Suc k)
  then have "Len64 (n div 2) \<le> k" by (intro Suc.IH) (simp add: less_mult_imp_div_less)
  then show ?case by (cases "n = 0") (simp_all add: Len64_step Len64.simps [of 0])
qed

lemma Len64_128: "128 \<le> n \<Longrightarrow> Len64 n = 7 + Len64 (n div 128)"
  by (simp add: Len64_step div_mult2_eq [symmetric])

lemma Len64_or_1: "0 < n \<Longrightarrow> Len64 (n OR Suc 0) = Len64 n"
proof -
  assume "0 < n"
  moreover have "(n OR Suc 0) div 2 = n div 2" "0 < n OR Suc 0" by (auto simp: or_Suc_0_eq intro: odd_pos)
  ultimately show ?thesis by (simp add: Len64_step)
qed

lemma unat_or_1: "unat ((v :: u64) OR 1) = unat v OR Suc 0"
  by (simp add: unsigned_or_eq)

lemma sovTx_length: "sovTx v = length (enc_varint v)"
proof (induction v rule: enc_varint.induct)
  case (1 v)
  show ?case
  proof (cases "v \<ge> 128")
    case True
    then have n: "128 \<le> unat v" by (simp add: word_le_nat_alt)
    then have q: "0 < unat v div 128" by (simp add: div_greater_zero_iff)
    have "Len64 (unat v OR Suc 0) = 7 + Len64 (unat v div 128)"
      using n by (simp add: Len64_or_1 Len64_128)
    then have "sovTx v = Suc (sovTx (drop_bit 7 v))"
      using q by (simp add: sovTx_def unat_or_1 unat_drop7 Len64_or_1)
    with "1.IH" [OF True] True show ?thesis by (subst enc_varint.simps) simp
  next
    case False
    then have "unat v < 128" by (simp add: word_le_nat_alt not_le)
    then have "unat v OR Suc 0 < 2 ^ 7" by (simp add: or_Suc_0_eq) presburger
    then have "Len64 (unat v OR Suc 0) \<le> 7" by (rule Len64_le)
    moreover have "0 < Len64 (unat v OR Suc 0)" by (subst Len64_step) (auto simp: or_Suc_0_eq intro: odd_pos)
    ultimately have "sovTx v = 1" by (simp add: sovTx_def unat_or_1)
    with False show ?thesis by (subst enc_varint.simps) simp
  qed
qed

lemma varint_at_writes:
  "offset + length (enc_varint v) \<le> length d \<Longrightarrow>
    varint_at d offset v =
      Inr (take offset d @ enc_varint v @ drop (offset + length (enc_varint v)) d,
        offset + length (enc_varint v))"
proof (induction d offset v rule: varint_at.induct)
  case (1 d offset v)
  let ?b = "ucast (v AND 0x7F OR 0x80) :: byte"
  have pos: "offset < length d" using "1.prems" by (cases "enc_varint v") simp_all
  show ?case
  proof (cases "v \<ge> 128")
    case True
    then have e: "enc_varint v = ?b # enc_varint (drop_bit 7 v)" by (subst enc_varint.simps) simp
    have "varint_at d offset v = varint_at (d[offset := ?b]) (Suc offset) (drop_bit 7 v)"
      using pos True by (subst varint_at.simps) simp
    also have "\<dots> = Inr (take (Suc offset) (d[offset := ?b]) @ enc_varint (drop_bit 7 v) @
        drop (Suc offset + length (enc_varint (drop_bit 7 v))) (d[offset := ?b]),
        Suc offset + length (enc_varint (drop_bit 7 v)))"
      using "1.prems" pos True by (intro "1.IH") (simp_all add: e)
    finally show ?thesis using pos by (simp add: e take_Suc_conv_app_nth)
  next
    case False
    then have e: "enc_varint v = [ucast v]" by (subst enc_varint.simps) simp
    show ?thesis
      using pos False by (subst varint_at.simps) (simp add: e upd_conv_take_nth_drop)
  qed
qed

subsection \<open>Writers\<close>

definition puts :: "(buffer \<Rightarrow> err + buffer) \<Rightarrow> bytes \<Rightarrow> bool" where
  "puts f w \<longleftrightarrow> (\<forall>d i. length w \<le> i \<and> i \<le> length d \<longrightarrow>
     (\<exists>d'. f (d, i) = Inr (d', i - length w) \<and> length d' = length d \<and>
        drop (i - length w) d' = w @ drop i d))"

named_theorems puts_intros \<open>what the writers of a message put\<close>

lemma putsI:
  assumes "\<And>d j. j + length w \<le> length d \<Longrightarrow>
    \<exists>d'. f (d, j + length w) = Inr (d', j) \<and> length d' = length d \<and> drop j d' = w @ drop (j + length w) d"
  shows "puts f w"
  unfolding puts_def
proof (intro allI impI, elim conjE)
  fix d :: bytes and i
  assume "length w \<le> i" and i: "i \<le> length d"
  then obtain j where "i = j + length w" by (metis add.commute le_Suc_ex)
  with i assms [of j d] show "\<exists>d'. f (d, i) = Inr (d', i - length w) \<and> length d' = length d \<and>
      drop (i - length w) d' = w @ drop i d"
    by simp
qed

lemma putsE:
  assumes "puts f w" and "j + length w \<le> length d"
  obtains d' where "f (d, j + length w) = Inr (d', j)" "length d' = length d"
    "drop j d' = w @ drop (j + length w) d"
  using assms unfolding puts_def by (metis add_diff_cancel_right' le_add2)

lemma puts_skip: "puts Inr []"
  by (simp add: puts_def)

lemma puts_then:
  assumes "puts f v" and "puts g w"
  shows "puts (\<lambda>s. bindE (f s) g) (w @ v)"
proof (rule putsI)
  fix d :: bytes and j
  assume "j + length (w @ v) \<le> length d"
  then have j: "(j + length w) + length v \<le> length d" by simp
  obtain d1 where d1: "f (d, (j + length w) + length v) = Inr (d1, j + length w)" "length d1 = length d"
    "drop (j + length w) d1 = v @ drop ((j + length w) + length v) d"
    using assms(1) j by (rule putsE)
  have "j + length w \<le> length d1" using j d1(2) by simp
  with assms(2) obtain d2 where "g (d1, j + length w) = Inr (d2, j)" "length d2 = length d1"
    "drop j d2 = w @ drop (j + length w) d1"
    by (rule putsE)
  with d1 show "\<exists>d'. bindE (f (d, j + length (w @ v))) g = Inr (d', j) \<and> length d' = length d \<and>
      drop j d' = (w @ v) @ drop (j + length (w @ v)) d"
    by (intro exI [of _ d2]) (simp add: add.assoc)
qed

lemma puts_byte: "puts (put_byte b) [b]"
proof (rule putsI)
  fix d :: bytes and j
  assume "j + length [b] \<le> length d"
  then show "\<exists>d'. put_byte b (d, j + length [b]) = Inr (d', j) \<and> length d' = length d \<and>
      drop j d' = [b] @ drop (j + length [b]) d"
    by (simp add: put_byte_def upd_conv_take_nth_drop)
qed

lemma puts_copy: "puts (put_copy b) b"
  by (rule putsI) (simp add: put_copy_def)

lemma puts_varint: "puts (encodeVarintTx v) (enc_varint v)"
  by (rule putsI) (simp add: encodeVarintTx_def sovTx_length varint_at_writes)

text \<open>The bytes of a length-delimited element, of a field left out when empty, of a number left out
  when zero.\<close>

definition elem_bytes :: "byte \<Rightarrow> bytes \<Rightarrow> bytes" where
  "elem_bytes tag b = tag # enc_varint (of_nat (length b)) @ b"

definition field_bytes :: "byte \<Rightarrow> bytes \<Rightarrow> bytes" where
  "field_bytes tag b = (if b = [] then [] else elem_bytes tag b)"

definition number_bytes :: "byte \<Rightarrow> u64 \<Rightarrow> bytes" where
  "number_bytes tag v = (if v = 0 then [] else tag # enc_varint v)"

lemma puts_elem: "puts (put_elem tag b) (elem_bytes tag b)"
  using puts_then [OF puts_copy puts_then [OF puts_varint puts_byte]]
  by (simp add: put_elem_def [abs_def] elem_bytes_def)

lemma puts_field [puts_intros]: "puts (put_bytes tag b) (field_bytes tag b)"
  using puts_elem [of tag b] puts_skip
  by (cases "b = []") (simp_all add: put_bytes_def [abs_def] field_bytes_def)

lemma puts_number [puts_intros]: "puts (put_number tag v) (number_bytes tag v)"
  using puts_then [OF puts_varint [of v] puts_byte [of tag]] puts_skip
  by (cases "v = 0") (simp_all add: put_number_def [abs_def] number_bytes_def)

lemma puts_each:
  assumes "\<And>x. puts (f x) (w x)"
  shows "puts (put_each f xs) (concat (map w xs))"
proof (induction xs)
  case Nil
  have "put_each f [] = Inr" by (intro ext) simp
  then show ?case by (simp add: puts_skip)
next
  case (Cons x xs)
  have "put_each f (x # xs) = (\<lambda>s. bindE (put_each f xs s) (f x))" by (intro ext) simp
  with puts_then [OF Cons.IH assms [of x]] show ?case by simp
qed

lemma puts_each_elem [puts_intros]:
  "puts (put_each (put_elem tag) bs) (concat (map (elem_bytes tag) bs))"
  by (intro puts_each puts_elem)

text \<open>Ten bytes hold any varint, so the buffer of a packed field is long enough.\<close>

lemma length_enc_varint: "length (enc_varint v) \<le> 10"
proof -
  have "unat (v OR 1) < 2 ^ 64" using unsigned_less [where 'a = nat, of "v OR 1"] by simp
  then have "Len64 (unat (v OR 1)) \<le> 64" by (rule Len64_le)
  then show ?thesis by (simp add: sovTx_length [symmetric] sovTx_def)
qed

lemma fill_packed_writes:
  "j + length nums * 10 \<le> length d \<Longrightarrow>
    \<exists>e. fill_packed nums (d, j) =
      Inr (take j d @ concat (map enc_varint nums) @ e, j + length (concat (map enc_varint nums)))"
proof (induction nums arbitrary: d j)
  case Nil
  then show ?case by (simp add: exI [of _ "drop j d"])
next
  case (Cons num nums)
  let ?v = "enc_varint num"
  let ?d = "take j d @ ?v @ drop (j + length ?v) d"
  have len: "j + length ?v + length nums * 10 \<le> length d"
    using Cons.prems length_enc_varint [of num] by simp
  then have "varint_at d j num = Inr (?d, j + length ?v)" by (intro varint_at_writes) simp
  moreover obtain e where "fill_packed nums (?d, j + length ?v) =
      Inr (take (j + length ?v) ?d @ concat (map enc_varint nums) @ e,
        j + length ?v + length (concat (map enc_varint nums)))"
    using Cons.IH [of "j + length ?v" ?d] len by auto
  ultimately show ?case using len by (intro exI [of _ e]) simp
qed

definition packed_bytes :: "byte \<Rightarrow> u64 list \<Rightarrow> bytes" where
  "packed_bytes tag nums = field_bytes tag (concat (map enc_varint nums))"

lemma packed_bytes_empty: "concat (map enc_varint nums) = [] \<longleftrightarrow> nums = []"
  by (cases nums) simp_all

lemma puts_packed [puts_intros]: "puts (put_packed tag nums) (packed_bytes tag nums)"
proof (cases "nums = []")
  case True
  then show ?thesis
    using puts_skip by (simp add: put_packed_def [abs_def] packed_bytes_def field_bytes_def)
next
  case False
  obtain e where "fill_packed nums (replicate (length nums * 10) 0, 0) =
      Inr (concat (map enc_varint nums) @ e, length (concat (map enc_varint nums)))"
    using fill_packed_writes [of 0 nums "replicate (length nums * 10) 0"] by auto
  then show ?thesis
    using False puts_elem [of tag "concat (map enc_varint nums)"]
    by (simp add: put_packed_def [abs_def] packed_bytes_def field_bytes_def packed_bytes_empty
        del: concat_eq_Nil_conv)
qed

lemma sized_buffer_puts:
  assumes "puts f w" and "length w \<le> length d"
  shows "\<exists>d'. sized_buffer f d = Inr (d', length w) \<and> length d' = length d \<and>
    drop (length d - length w) d' = w"
proof -
  have n: "(length d - length w) + length w = length d" using assms(2) by simp
  have "(length d - length w) + length w \<le> length d" unfolding n by simp
  with assms(1) obtain d' where
    "f (d, (length d - length w) + length w) = Inr (d', length d - length w)"
    "length d' = length d" "drop (length d - length w) d' = w @ drop ((length d - length w) + length w) d"
    by (rule putsE)
  then show ?thesis unfolding n using assms(2) by (simp add: sized_buffer_def)
qed

lemma puts_message:
  assumes "puts f w"
  shows "puts (put_message tag (sized_buffer f)) (elem_bytes tag w)"
proof (rule putsI)
  fix d :: bytes and j
  let ?v = "enc_varint (of_nat (length w))"
  let ?k = "j + length (tag # ?v)"
  assume j: "j + length (elem_bytes tag w) \<le> length d"
  have i: "j + length (elem_bytes tag w) = ?k + length w" by (simp add: elem_bytes_def)
  obtain d' where d': "sized_buffer f (take (?k + length w) d) = Inr (d', length w)"
    "length d' = ?k + length w" "drop ?k d' = w"
    using sized_buffer_puts [OF assms, of "take (?k + length w) d"] j unfolding i by auto
  let ?d = "d' @ drop (?k + length w) d"
  have "puts (\<lambda>s. bindE (encodeVarintTx (of_nat (length w)) s) (put_byte tag)) (tag # ?v)"
    using puts_then [OF puts_varint puts_byte] by simp
  moreover have "?k \<le> length ?d" using j d'(2) unfolding i by simp
  ultimately obtain e where
    "bindE (encodeVarintTx (of_nat (length w)) (?d, ?k)) (put_byte tag) = Inr (e, j)"
    "length e = length ?d" "drop j e = (tag # ?v) @ drop ?k ?d"
    by (rule putsE)
  with d' j show "\<exists>e. put_message tag (sized_buffer f) (d, j + length (elem_bytes tag w)) = Inr (e, j) \<and>
      length e = length d \<and> drop j e = elem_bytes tag w @ drop (j + length (elem_bytes tag w)) d"
    unfolding i by (intro exI [of _ e]) (simp add: put_message_def elem_bytes_def)
qed

text \<open>A message allocated with the right size is written whole.\<close>

lemma marshal_puts:
  assumes "puts f w" and "sz = length w"
  shows "marshal sz (sized_buffer f) = Inr w"
  using sized_buffer_puts [OF assms(1), of "replicate sz 0"] assms(2) by (auto simp: marshal_def)

subsection \<open>Reading a varint\<close>

text \<open>The constants of the codec, bit by bit.\<close>

lemma bit_7F: "bit (0x7F :: int) n \<longleftrightarrow> n < 7"
proof -
  have "(0x7F :: int) = mask 7" by (simp add: mask_eq_exp_minus_1)
  then show ?thesis by (simp only: bit_mask_iff) simp
qed

lemma bit_80: "bit (0x80 :: int) n \<longleftrightarrow> n = 7"
proof -
  have "(0x80 :: int) = 2 ^ 7" by simp
  then show ?thesis by (simp only: bit_exp_iff) auto
qed

lemma low_byte:
  "ucast (ucast ((v :: u64) AND 0x7F OR 0x80) AND 0x7F :: byte) = (ucast (v AND 0x7F) :: 'a::len word)"
  by (rule bit_word_eqI) (auto simp: bit_simps bit_7F bit_80)

lemma split_7:
  "push_bit n (ucast ((v :: u64) AND 0x7F)) OR push_bit (n + 7) (ucast (drop_bit 7 v)) =
     (push_bit n (ucast v) :: 'a::len word)"
proof (rule bit_word_eqI)
  fix k
  assume k: "k < LENGTH('a)"
  show "bit (push_bit n (ucast (v AND 0x7F)) OR push_bit (n + 7) (ucast (drop_bit 7 v)) :: 'a word) k =
    bit (push_bit n (ucast v) :: 'a word) k"
  proof (cases "n \<le> k")
    case True
    then obtain j where j: "k = n + j" using le_Suc_ex by blast
    show ?thesis
      using k unfolding j by (cases "j < 7") (auto simp: bit_simps bit_7F dest: bit_imp_le_length)
  qed (simp add: bit_simps)
qed

lemma byte_ge_128: "(128 :: byte) \<le> b \<longleftrightarrow> bit b 7"
proof -
  have "bit b 7 \<longleftrightarrow> bit (unat b) 7" by (simp add: bit_unsigned_iff)
  then have "bit b 7 \<longleftrightarrow> odd (unat b div 2 ^ 7)" by (simp only: bit_iff_odd)
  moreover have "odd (unat b div 2 ^ 7) \<longleftrightarrow> 128 \<le> unat b"
  proof -
    have "unat b < 256" using unsigned_less [where 'a = nat, of b] by simp
    then have "unat b div 128 = 1" if "128 \<le> unat b" using that by (intro div_nat_eqI) simp_all
    then show ?thesis by (cases "128 \<le> unat b") simp_all
  qed
  ultimately show ?thesis by (simp add: word_le_nat_alt)
qed

lemma more_bytes: "\<not> ucast ((v :: u64) AND 0x7F OR 0x80) < (128 :: byte)"
  unfolding not_less byte_ge_128 by (simp add: bit_simps bit_80)

lemma small_word:
  assumes "\<not> 128 \<le> (v :: u64)" and "bit v n"
  shows "n < 7"
proof -
  have "unat v < 2 ^ 7" using assms(1) by (simp add: word_le_nat_alt)
  then have "take_bit 7 (unat v) = unat v" by (rule take_bit_nat_eq_self)
  moreover have "bit (unat v) n" using assms(2) by (simp add: bit_unsigned_iff)
  ultimately show ?thesis by (metis bit_take_bit_iff)
qed

lemma last_byte:
  assumes "\<not> 128 \<le> (v :: u64)"
  shows "ucast (ucast v AND 0x7F :: byte) = (ucast v :: 'a::len word)"
    and "ucast v < (128 :: byte)"
proof -
  show "ucast (ucast v AND 0x7F :: byte) = (ucast v :: 'a::len word)"
    by (rule bit_word_eqI) (auto simp: bit_simps bit_7F dest: small_word [OF assms])
  show "ucast v < (128 :: byte)"
    unfolding not_le [symmetric] byte_ge_128 by (auto simp: bit_simps dest: small_word [OF assms])
qed

lemma varint_reads:
  "shift < 64 \<Longrightarrow> unat v < 2 ^ (64 - shift) \<Longrightarrow>
    varint_loop (pre @ enc_varint v @ suf) shift w (length pre) =
      Inr (w OR push_bit shift (ucast v :: 'a::len word), length pre + length (enc_varint v))"
proof (induction v arbitrary: pre shift w rule: enc_varint.induct)
  case (1 v)
  show ?case
  proof (cases "128 \<le> v")
    case True
    let ?b = "ucast (v AND 0x7F OR 0x80) :: byte"
    have e: "enc_varint v = ?b # enc_varint (drop_bit 7 v)" using True by (subst enc_varint.simps) simp
    have "(2 :: nat) ^ 7 \<le> unat v" using True by (simp add: word_le_nat_alt)
    then have "(2 :: nat) ^ 7 < 2 ^ (64 - shift)" using "1.prems"(2) by (rule le_less_trans)
    then have s: "7 < 64 - shift" by (rule power_less_imp_less_exp [rotated]) simp
    then have "(2 :: nat) ^ (64 - shift) = 2 ^ (64 - (shift + 7)) * 128"
      using power_add [of "2 :: nat" "64 - (shift + 7)" 7] by simp
    with "1.prems"(2) have "unat (drop_bit 7 v) < 2 ^ (64 - (shift + 7))"
      unfolding unat_drop7 by (simp add: less_mult_imp_div_less)
    with s True have "varint_loop ((pre @ [?b]) @ enc_varint (drop_bit 7 v) @ suf) (shift + 7)
        (w OR push_bit shift (ucast (v AND 0x7F))) (length (pre @ [?b])) =
        Inr ((w OR push_bit shift (ucast (v AND 0x7F))) OR push_bit (shift + 7) (ucast (drop_bit 7 v)),
          length (pre @ [?b]) + length (enc_varint (drop_bit 7 v)))"
      by - (rule "1.IH", simp_all)
    with "1.prems"(1) show ?thesis
      by (subst varint_loop.simps) (simp add: e low_byte more_bytes split_7 or.assoc)
  next
    case False
    then have e: "enc_varint v = [ucast v]" by (subst enc_varint.simps) simp
    with "1.prems"(1) False show ?thesis
      by (subst varint_loop.simps) (simp add: e last_byte)
  qed
qed

lemma varint_value:
  "varint (pre @ enc_varint v @ suf) (length pre) =
     Inr (ucast v :: 'a::len word, length pre + length (enc_varint v))"
  using varint_reads [of 0 v pre suf "0 :: 'a word"] unsigned_less [where 'a = nat, of v] by simp

lemma varint_tag:
  "tag < 128 \<Longrightarrow> varint (pre @ tag # suf) (length pre) = Inr (ucast tag :: u64, Suc (length pre))"
proof -
  assume "tag < 128"
  then have t: "\<not> bit tag 7" unfolding byte_ge_128 [symmetric] by simp
  have "tag AND 0x7F = tag"
  proof (rule bit_word_eqI)
    fix n assume "n < LENGTH(8)"
    then consider "n < 7" | "n = 7" by fastforce
    then show "bit (tag AND 0x7F) n = bit tag n" using t by cases (simp_all add: bit_simps bit_7F)
  qed
  with \<open>tag < 128\<close> show ?thesis by (subst varint_loop.simps) simp
qed

lemma sint_small: "unat (v :: u64) < 2 ^ 63 \<Longrightarrow> 0 \<le> sint v"
proof -
  assume "unat v < 2 ^ 63"
  then have "\<not> bit (unat v) 63" by (simp add: bit_iff_odd)
  then have "\<not> bit (uint v) 63" by (simp add: bit_unsigned_iff)
  then show ?thesis unfolding sint_uint by (simp add: signed_take_bit_nonnegative_iff)
qed

lemma length_read:
  assumes "length (pre @ enc_varint (of_nat (length b)) @ b @ suf) < 2 ^ 63"
  shows "read_length (pre @ enc_varint (of_nat (length b)) @ b @ suf) (length pre) =
    Inr (length pre + length (enc_varint (of_nat (length b))),
      length pre + length (enc_varint (of_nat (length b))) + length b)"
proof -
  have "unat (of_nat (length b) :: u64) = length b" using assms by (intro unat_of_nat_u64) simp
  then have "0 \<le> sint (of_nat (length b) :: u64)" "unat (of_nat (length b) :: u64) = length b"
    using assms by (simp_all add: sint_small)
  with assms show ?thesis by (simp add: read_length_def varint_value not_less)
qed

subsection \<open>Readers\<close>

definition reads :: "(int \<Rightarrow> 'm field_reader option) \<Rightarrow> bytes \<Rightarrow> ('m \<Rightarrow> 'm) \<Rightarrow> bool" where
  "reads flds w g \<longleftrightarrow> (\<forall>pre suf m. length (pre @ w @ suf) < 2 ^ 63 \<longrightarrow>
     unmarshal_from flds (pre @ w @ suf) (length pre) m =
     unmarshal_from flds (pre @ w @ suf) (length pre + length w) (g m))"

named_theorems reads_intros \<open>what the reader of a message makes of the bytes of a field\<close>

lemma reads_nothing: "reads flds [] (\<lambda>m. m)"
  by (simp add: reads_def)

lemma reads_append:
  assumes "reads flds v f" and "reads flds w g"
  shows "reads flds (v @ w) (\<lambda>m. g (f m))"
  unfolding reads_def
proof (intro allI impI)
  fix pre suf :: bytes and m
  assume "length (pre @ (v @ w) @ suf) < 2 ^ 63"
  then show "unmarshal_from flds (pre @ (v @ w) @ suf) (length pre) m =
      unmarshal_from flds (pre @ (v @ w) @ suf) (length pre + length (v @ w)) (g (f m))"
    using assms(1) [unfolded reads_def, rule_format, of pre "w @ suf" m]
      assms(2) [unfolded reads_def, rule_format, of "pre @ v" suf "f m"]
    by (simp add: add.assoc)
qed

lemma reads_each:
  assumes "\<And>x. x \<in> set xs \<Longrightarrow> reads flds (w x) (g x)"
  shows "reads flds (concat (map w xs)) (fold g xs)"
  using assms
proof (induction xs)
  case Nil
  then show ?case by (simp add: reads_nothing id_def)
next
  case (Cons x xs)
  then have "reads flds (w x @ concat (map w xs)) (\<lambda>m. fold g xs (g x m))"
    by (intro reads_append) simp_all
  then show ?case by (simp add: comp_def)
qed

text \<open>What an empty field leaves as it is.\<close>

definition unless :: "bool \<Rightarrow> ('m \<Rightarrow> 'm) \<Rightarrow> 'm \<Rightarrow> 'm" where
  "unless b g m = (if b then m else g m)"

lemma unless_eq: "(b \<Longrightarrow> g m = m) \<Longrightarrow> unless b g m = g m"
  by (simp add: unless_def)

text \<open>The tag byte of a field: its number, and the wire type.\<close>

definition tag_of :: "int \<Rightarrow> u64 \<Rightarrow> byte \<Rightarrow> bool" where
  "tag_of n wt tag \<longleftrightarrow> tag < 128 \<and> sint (ucast (drop_bit 3 (ucast tag :: u64)) :: u32) = n \<and> 0 < n \<and>
     (ucast tag :: u64) AND 7 = wt \<and> wt \<noteq> 4"

lemma reads_round:
  assumes tag: "tag_of n wt tag" "flds n = Some rd"
    and rd: "\<And>pre suf m. length (pre @ v @ suf) < 2 ^ 63 \<Longrightarrow>
      read_field rd wt (pre @ v @ suf) (length pre) m = Inr (g m, length pre + length v)"
  shows "reads flds (tag # v) g"
  unfolding reads_def
proof (intro allI impI)
  fix pre suf :: bytes and m
  assume l: "length (pre @ (tag # v) @ suf) < 2 ^ 63"
  have "unmarshal_round flds (pre @ (tag # v) @ suf) (length pre) m =
      read_field rd wt (pre @ (tag # v) @ suf) (Suc (length pre)) m"
    using tag by (simp add: unmarshal_round_def varint_tag tag_of_def)
  also have "\<dots> = Inr (g m, length pre + length (tag # v))"
    using rd [of "pre @ [tag]" suf m] l by simp
  finally show "unmarshal_from flds (pre @ (tag # v) @ suf) (length pre) m =
      unmarshal_from flds (pre @ (tag # v) @ suf) (length pre + length (tag # v)) (g m)"
    by (subst unmarshal_from.simps) simp
qed

lemma reads_elem:
  assumes "tag_of n 2 tag" "flds n = Some (ReadLen f)" 
    and "\<And>m. length b < 2 ^ 63 \<Longrightarrow> f b m = Inr (g m)"
  shows "reads flds (elem_bytes tag b) g"
  unfolding elem_bytes_def
proof (rule reads_round [where flds = flds and n = n, OF assms(1,2)])
  fix pre suf :: bytes and m
  assume l: "length (pre @ (enc_varint (of_nat (length b)) @ b) @ suf) < 2 ^ 63"
  with assms(3) show "read_field (ReadLen f) 2 (pre @ (enc_varint (of_nat (length b)) @ b) @ suf) (length pre) m =
      Inr (g m, length pre + length (enc_varint (of_nat (length b)) @ b))"
    by (simp add: length_read go_slice_def)
qed

lemma reads_field:
  assumes "tag_of n 2 tag" "flds n = Some (ReadLen f)"
    and "\<And>m. length b < 2 ^ 63 \<Longrightarrow> f b m = Inr (g m)"
  shows "reads flds (field_bytes tag b) (unless (b = []) g)"
  using reads_elem [where flds = flds, OF assms] reads_nothing [of flds]
  by (cases "b = []") (simp_all add: field_bytes_def unless_def [abs_def])

lemma reads_number64:
  assumes "tag_of n 0 tag" "flds n = Some (Read64 f)"
  shows "reads flds (number_bytes tag v) (unless (v = 0) (f v))"
  using reads_nothing [of flds] reads_round [where v = "enc_varint v" and g = "f v" and flds = flds and n = n, OF assms]
  by (cases "v = 0") (simp_all add: number_bytes_def varint_value unless_def [abs_def])

lemma ucast_u32:
  "ucast (ucast (v :: u32) :: u64) = v" "(ucast (v :: u32) :: u64) = 0 \<longleftrightarrow> v = 0"
proof -
  show inv: "ucast (ucast (v :: u32) :: u64) = v" for v
    by (rule bit_word_eqI) (auto simp: bit_simps)
  show "(ucast v :: u64) = 0 \<longleftrightarrow> v = 0" using inv [of v] by (metis unsigned_0)
qed

lemma reads_number32:
  assumes "tag_of n 0 tag" "flds n = Some (Read32 f)"
  shows "reads flds (number_bytes tag (ucast v)) (unless (v = 0) (f v))"
  using reads_nothing [of flds] reads_round [where v = "enc_varint (ucast v)" and g = "f v" and flds = flds and n = n, OF assms]
  by (cases "v = 0") (simp_all add: number_bytes_def varint_value ucast_u32 unless_def [abs_def])

lemma packed_reads:
  "packed_from f (pre @ concat (map enc_varint nums) @ suf)
     (length pre + length (concat (map enc_varint nums))) (length pre) m =
   Inr (fold f nums m, length pre + length (concat (map enc_varint nums)))"
proof (induction nums arbitrary: pre m)
  case Nil
  then show ?case by (subst packed_from.simps) simp
next
  case (Cons v nums)
  have "length pre < length pre + length (concat (map enc_varint (v # nums)))" by simp
  then show ?case
    using Cons.IH [of "pre @ enc_varint v" "f v m"]
    by (subst packed_from.simps) (simp add: varint_value add.assoc)
qed

lemma reads_packed:
  assumes "tag_of n 2 tag" "flds n = Some (ReadPacked f)"
  shows "reads flds (packed_bytes tag nums) (fold f nums)"
proof (cases "nums = []")
  case True
  then show ?thesis using reads_nothing [of flds] by (simp add: packed_bytes_def field_bytes_def id_def)
next
  case False
  let ?b = "concat (map enc_varint nums)"
  have "reads flds (tag # enc_varint (of_nat (length ?b)) @ ?b) (fold f nums)"
  proof (rule reads_round [where flds = flds and n = n, OF assms])
    fix pre suf :: bytes and m
    assume l: "length (pre @ (enc_varint (of_nat (length ?b)) @ ?b) @ suf) < 2 ^ 63"
    then have "read_length (pre @ enc_varint (of_nat (length ?b)) @ ?b @ suf) (length pre) =
        Inr (length pre + length (enc_varint (of_nat (length ?b))),
          length pre + length (enc_varint (of_nat (length ?b))) + length ?b)"
      by (intro length_read) simp
    then show "read_field (ReadPacked f) 2 (pre @ (enc_varint (of_nat (length ?b)) @ ?b) @ suf) (length pre) m =
        Inr (fold f nums m, length pre + length (enc_varint (of_nat (length ?b)) @ ?b))"
      using packed_reads [of f "pre @ enc_varint (of_nat (length ?b))" nums suf m]
      by (simp add: go_slice_def add.assoc del: length_concat)
  qed
  with False show ?thesis
    by (simp add: packed_bytes_def field_bytes_def elem_bytes_def packed_bytes_empty
        del: concat_eq_Nil_conv length_concat)
qed

text \<open>A field the message does not know is skipped, of whatever wire type: a varint, eight or four
  bytes, a length-delimited value, or a group of fields up to its end tag.  The tag is the field
  number and the wire type.\<close>

definition wire_tag :: "u64 \<Rightarrow> u64 \<Rightarrow> u64" where
  "wire_tag n wt = push_bit 3 n OR wt"

lemma bit_7: "bit (7 :: int) n \<longleftrightarrow> n < 3"
proof -
  have "(7 :: int) = mask 3" by (simp add: mask_eq_exp_minus_1)
  then show ?thesis by (simp only: bit_mask_iff) simp
qed

lemma small_bits:
  assumes "unat (v :: 'a::len word) < 2 ^ k" and "bit v n"
  shows "n < k"
proof -
  have "take_bit k (unat v) = unat v" using assms(1) by (rule take_bit_nat_eq_self)
  moreover have "bit (unat v) n" using assms(2) by (simp add: bit_unsigned_iff)
  ultimately show ?thesis by (metis bit_take_bit_iff)
qed

lemma wire_tag_parts:
  assumes "unat n < 2 ^ 31" and "unat wt < 2 ^ 3"
  shows "drop_bit 3 (wire_tag n wt) = n" and "wire_tag n wt AND 7 = wt"
proof -
  show "drop_bit 3 (wire_tag n wt) = n"
    by (rule bit_word_eqI)
      (use small_bits [OF assms(1)] small_bits [OF assms(2)] in \<open>fastforce simp: wire_tag_def bit_simps\<close>)
  show "wire_tag n wt AND 7 = wt"
    by (rule bit_word_eqI)
      (use small_bits [OF assms(2)] in \<open>auto simp: wire_tag_def bit_simps bit_7\<close>)
qed

datatype unknown =
    UVarint u64 u64
  | UFixed64 u64 bytes
  | ULen u64 bytes
  | UGroup u64 "unknown list"
  | UFixed32 u64 bytes

fun unknown_number :: "unknown \<Rightarrow> u64" where
  "unknown_number (UVarint n v) = n"
| "unknown_number (UFixed64 n b) = n"
| "unknown_number (ULen n b) = n"
| "unknown_number (UGroup n us) = n"
| "unknown_number (UFixed32 n b) = n"

fun unknown_bytes :: "unknown \<Rightarrow> bytes" where
  "unknown_bytes (UVarint n v) = enc_varint (wire_tag n 0) @ enc_varint v"
| "unknown_bytes (UFixed64 n b) = enc_varint (wire_tag n 1) @ b"
| "unknown_bytes (ULen n b) = enc_varint (wire_tag n 2) @ enc_varint (of_nat (length b)) @ b"
| "unknown_bytes (UGroup n us) =
     enc_varint (wire_tag n 3) @ concat (map unknown_bytes us) @ enc_varint (wire_tag n 4)"
| "unknown_bytes (UFixed32 n b) = enc_varint (wire_tag n 5) @ b"

fun unknown_ok :: "unknown \<Rightarrow> bool" where
  "unknown_ok (UVarint n v) \<longleftrightarrow> 0 < n \<and> unat n < 2 ^ 31"
| "unknown_ok (UFixed64 n b) \<longleftrightarrow> 0 < n \<and> unat n < 2 ^ 31 \<and> length b = 8"
| "unknown_ok (ULen n b) \<longleftrightarrow> 0 < n \<and> unat n < 2 ^ 31"
| "unknown_ok (UGroup n us) \<longleftrightarrow> 0 < n \<and> unat n < 2 ^ 31 \<and> (\<forall>u \<in> set us. unknown_ok u)"
| "unknown_ok (UFixed32 n b) \<longleftrightarrow> 0 < n \<and> unat n < 2 ^ 31 \<and> length b = 4"

text \<open>Skipping from the tag of such a field on, at any depth of groups, stops right after it.\<close>

lemma skip_tag:
  assumes "unat n < 2 ^ 31" and "unat wt < 2 ^ 3"
  shows "skip_from (pre @ enc_varint (wire_tag n wt) @ suf) depth (length pre) =
    bindE (skip_value (pre @ enc_varint (wire_tag n wt) @ suf) depth wt (length pre + length (enc_varint (wire_tag n wt))))
      (\<lambda>(k, depth'). if k \<ge> 2 ^ 63 then Inl ErrInvalidLengthTx
        else if depth' = 0 then Inr k
        else skip_from (pre @ enc_varint (wire_tag n wt) @ suf) depth' k)"
  by (subst skip_from.simps) (simp add: varint_value wire_tag_parts [OF assms])

definition skip_then :: "bytes \<Rightarrow> nat \<Rightarrow> nat \<Rightarrow> err + nat" where
  "skip_then d depth k = (if depth = 0 then Inr k else skip_from d depth k)"

lemma skips_over:
  assumes "unknown_ok u" and "length (pre @ unknown_bytes u @ suf) < 2 ^ 63"
  shows "skip_from (pre @ unknown_bytes u @ suf) depth (length pre) =
    skip_then (pre @ unknown_bytes u @ suf) depth (length pre + length (unknown_bytes u))"
  using assms
proof (induction u arbitrary: pre suf depth)
  case (UVarint n v)
  let ?k = "enc_varint (wire_tag n 0)"
  have "varint ((pre @ ?k) @ enc_varint v @ suf) (length (pre @ ?k)) =
      Inr (v, length (pre @ ?k) + length (enc_varint v))"
    using varint_value [of "pre @ ?k" v suf, where ?'a = 64] by simp
  then show ?case
    using UVarint.prems skip_tag [of n 0 pre "enc_varint v @ suf" depth]
    by (simp add: skip_value_def skip_then_def add.assoc)
next
  case (UFixed64 n b)
  then show ?case
    using skip_tag [of n 1 pre "b @ suf" depth] by (simp add: skip_value_def skip_then_def add.assoc)
next
  case (ULen n b)
  let ?k = "enc_varint (wire_tag n 2)" and ?l = "enc_varint (of_nat (length b))"
  have "unat (of_nat (length b) :: u64) = length b"
    using ULen.prems(2) by (intro unat_of_nat_u64) simp
  then have len: "\<not> sint (of_nat (length b) :: u64) < 0" "unat (of_nat (length b) :: u64) = length b"
    using ULen.prems(2) sint_small [of "of_nat (length b)"] by (simp_all add: not_less)
  have "varint ((pre @ ?k) @ ?l @ b @ suf) (length (pre @ ?k)) =
      Inr (of_nat (length b) :: u64, length (pre @ ?k) + length ?l)"
    using varint_value [of "pre @ ?k" "of_nat (length b)" "b @ suf", where ?'a = 64] by simp
  then show ?case
    using ULen.prems len skip_tag [of n 2 pre "?l @ b @ suf" depth]
    by (simp add: skip_value_def skip_then_def add.assoc)
next
  case (UFixed32 n b)
  then show ?case
    using skip_tag [of n 5 pre "b @ suf" depth] by (simp add: skip_value_def skip_then_def add.assoc)
next
  case (UGroup n us)
  let ?b = "enc_varint (wire_tag n 3)" and ?e = "enc_varint (wire_tag n 4)"
  let ?w = "concat (map unknown_bytes us)"
  have inside: "skip_from (p @ concat (map unknown_bytes vs) @ s) (Suc depth) (length p) =
      skip_from (p @ concat (map unknown_bytes vs) @ s) (Suc depth) (length p + length (concat (map unknown_bytes vs)))"
    if "set vs \<subseteq> set us" "length (p @ concat (map unknown_bytes vs) @ s) < 2 ^ 63" for vs p s
    using that
  proof (induction vs arbitrary: p)
    case (Cons v vs)
    have "unknown_ok v" using Cons.prems(1) UGroup.prems(1) by auto
    with Cons UGroup.IH [of v p "concat (map unknown_bytes vs) @ s" "Suc depth"]
      Cons.IH [of "p @ unknown_bytes v"]
    show ?case by (simp add: skip_then_def add.assoc)
  qed simp
  have "skip_from (pre @ ?b @ ?w @ ?e @ suf) depth (length pre) =
      skip_from (pre @ ?b @ ?w @ ?e @ suf) (Suc depth) (length pre + length ?b)"
    using UGroup.prems skip_tag [of n 3 pre "?w @ ?e @ suf" depth] by (simp add: skip_value_def)
  also have "\<dots> = skip_from (pre @ ?b @ ?w @ ?e @ suf) (Suc depth) (length pre + length ?b + length ?w)"
    using UGroup.prems inside [of us "pre @ ?b" "?e @ suf"] by simp
  also have "\<dots> = skip_then (pre @ ?b @ ?w @ ?e @ suf) depth (length pre + length ?b + length ?w + length ?e)"
    using UGroup.prems skip_tag [of n 4 "pre @ ?b @ ?w" suf "Suc depth"]
    by (simp add: skip_value_def skip_then_def add.assoc del: length_concat)
  finally show ?case by (simp add: add.assoc)
qed

lemma sint_number:
  assumes "0 < (n :: u64)" and "unat n < 2 ^ 31"
  shows "sint (ucast n :: u32) = uint n" and "0 < uint n"
proof -
  have u: "unat (ucast n :: u32) = unat n"
    using assms(2) by (simp add: unsigned_ucast_eq take_bit_nat_eq_self)
  have "\<not> bit (unat (ucast n :: u32)) 31" using assms(2) unfolding u by (simp add: bit_iff_odd)
  then have nb: "\<not> bit (uint (ucast n :: u32)) 31" by (simp add: bit_unsigned_iff)
  have eq: "uint (ucast n :: u32) = uint n" by (simp only: uint_nat u)
  have "int (unat n) < int (2 ^ 31)" using assms(2) by (simp only: of_nat_less_iff)
  then have lt: "int (unat n) < 2 ^ 31" by simp
  have small: "uint (ucast n :: u32) < 2 ^ 31" using lt by (simp only: uint_nat u)
  have "sint (ucast n :: u32) = uint (ucast n :: u32)"
    using nb small unfolding sint_uint by (simp add: signed_take_bit_eq_if_positive take_bit_int_eq_self)
  with eq show "sint (ucast n :: u32) = uint n" by simp
  show "0 < uint n" using assms(1) by (simp add: word_less_def)
qed


lemma reads_unknown:
  assumes ok: "unknown_ok u" and none: "flds (uint (unknown_number u)) = None"
  shows "reads flds (unknown_bytes u) (\<lambda>m. m)"
  unfolding reads_def
proof (intro allI impI)
  fix pre suf :: bytes and m
  let ?d = "pre @ unknown_bytes u @ suf"
  assume l: "length ?d < 2 ^ 63"
  obtain wt rest where b: "unknown_bytes u = enc_varint (wire_tag (unknown_number u) wt) @ rest"
    and wt: "unat wt < 2 ^ 3" "wt \<noteq> 4"
    by (cases u) simp_all
  have n: "0 < unknown_number u" "unat (unknown_number u) < 2 ^ 31" using ok by (cases u; simp)+
  have tag: "varint ?d (length pre) = Inr (wire_tag (unknown_number u) wt, length pre + length (enc_varint (wire_tag (unknown_number u) wt)))"
    using varint_value [of pre "wire_tag (unknown_number u) wt" "rest @ suf", where ?'a = 64] by (simp add: b)
  have "skipTx (unknown_bytes u @ suf) = Inr (length (unknown_bytes u))"
    using skips_over [OF ok, of "[]" suf 0] l by (simp add: skipTx_def skip_then_def)
  then have "unmarshal_round flds ?d (length pre) m = Inr (m, length pre + length (unknown_bytes u))"
    using l none wt sint_number(2) [OF n]
    by (simp add: unmarshal_round_def Let_def tag wire_tag_parts [OF n(2) wt(1)] sint_number(1) [OF n])
  moreover have "0 < length (unknown_bytes u)" by (simp add: b)
  ultimately show "unmarshal_from flds ?d (length pre) m =
      unmarshal_from flds ?d (length pre + length (unknown_bytes u)) m"
    by (subst unmarshal_from.simps) simp
qed

text \<open>A message is read whole.\<close>

lemma unmarshal_reads:
  assumes "reads flds w g" and "length w < 2 ^ 63"
  shows "unmarshal flds w m = Inr (g m)"
proof -
  have "unmarshal_from flds w 0 m = unmarshal_from flds w (length w) (g m)"
    using assms(1) [unfolded reads_def, rule_format, of "[]" "[]" m] assms(2) by simp
  then show ?thesis by (simp add: unmarshal_def unmarshal_from.simps [of flds w "length w"])
qed

subsection \<open>Reading the kinds of fields\<close>

lemma reads_bytes:
  assumes "tag_of n 2 tag" "flds n = Some (bytes_field upd)"
  shows "reads flds (field_bytes tag b) (unless (b = []) (upd (\<lambda>_. b)))"
  using assms(1) assms(2) [unfolded bytes_field_def] by (rule reads_field) simp

lemma bytes_of_Nil [simp]: "bytes_of s = [] \<longleftrightarrow> s = []"
  by (simp add: bytes_of_def)

lemma reads_string:
  assumes "tag_of n 2 tag" "flds n = Some (string_field upd)"
  shows "reads flds (field_bytes tag (bytes_of s)) (unless (s = []) (upd (\<lambda>_. s)))"
proof -
  have "reads flds (field_bytes tag (bytes_of s)) (unless (bytes_of s = []) (upd (\<lambda>_. s)))"
    using assms(1) assms(2) [unfolded string_field_def] by (rule reads_field) simp
  then show ?thesis by simp
qed

lemma reads_repeated_bytes:
  assumes "tag_of n 2 tag" "flds n = Some (repeated_bytes upd)"
  shows "reads flds (concat (map (elem_bytes tag) bs)) (fold (\<lambda>b. upd (\<lambda>bs. bs @ [b])) bs)"
proof (rule reads_each)
  fix b
  show "reads flds (elem_bytes tag b) (upd (\<lambda>bs. bs @ [b]))"
    using assms(1) assms(2) [unfolded repeated_bytes_def] by (rule reads_elem) simp
qed

lemma reads_repeated_strings:
  assumes "tag_of n 2 tag" "flds n = Some (repeated_strings upd)"
  shows "reads flds (concat (map (elem_bytes tag) (map bytes_of ss))) (fold (\<lambda>s. upd (\<lambda>ss. ss @ [s])) ss)"
  unfolding map_map comp_def
proof (rule reads_each)
  fix s
  show "reads flds (elem_bytes tag (bytes_of s)) (upd (\<lambda>ss. ss @ [s]))"
    using assms(1) assms(2) [unfolded repeated_strings_def] by (rule reads_elem) simp
qed

lemma fold_append:
  assumes "\<And>f g m. upd f (upd g m) = upd (\<lambda>x. f (g x)) m" and "\<And>m. upd (\<lambda>x. x) m = m"
  shows "fold (\<lambda>b. upd (\<lambda>bs. bs @ [b])) bs m = upd (\<lambda>cs. cs @ bs) m"
  by (induction bs arbitrary: m) (simp_all add: assms)

lemma tags:
  "tag_of 1 2 0x0a" "tag_of 2 2 0x12" "tag_of 3 2 0x1a" "tag_of 4 2 0x22" "tag_of 5 2 0x2a"
  "tag_of 6 2 0x32" "tag_of 7 2 0x3a" "tag_of 8 2 0x42" "tag_of 9 2 0x4a" "tag_of 10 2 0x52"
  "tag_of 1 0 0x08" "tag_of 2 0 0x10"
  by (simp_all add: tag_of_def)

end
