(* ===== verification/MessageSpec.thy ===== *)
theory MessageSpec
  imports Messages WireSpec
begin

section \<open>Every message is written exactly and read back\<close>

text \<open>
  The contract of the codec of one message is the locale \<open>wire_message\<close>; it is interpreted for every
  message.  The size is the length of what is written, so that \<open>Marshal\<close> never writes outside its
  buffer and leaves no byte of it unwritten; and what is written is read back.
\<close>

locale wire_message =
  fixes size_of :: "'m \<Rightarrow> nat" and to_buffer :: "'m \<Rightarrow> bytes \<Rightarrow> err + bytes \<times> nat"
    and flds :: "int \<Rightarrow> 'm field_reader option" and blank :: 'm and wire :: "'m \<Rightarrow> bytes"
  assumes writes: "\<exists>f. to_buffer m = sized_buffer f \<and> puts f (wire m)"
    and size_wire: "size_of m = length (wire m)"
    and restores: "\<exists>g. reads flds (wire m) g \<and> g blank = m"
begin

lemma puts_embedded: "puts (put_message tag (to_buffer m)) (elem_bytes tag (wire m))"
  using writes [of m] puts_message by auto

lemma marshal_wire: "marshal (size_of m) (to_buffer m) = Inr (wire m)"
  using writes [of m] marshal_puts size_wire by auto

lemma unmarshal_wire: "size_of m < 2 ^ 63 \<Longrightarrow> unmarshal flds (wire m) blank = Inr m"
proof -
  assume "size_of m < 2 ^ 63"
  then have l: "length (wire m) < 2 ^ 63" by (simp add: size_wire)
  obtain g where g: "reads flds (wire m) g" "g blank = m" using restores by blast
  from unmarshal_reads [OF g(1) l, of blank] g(2) show ?thesis by simp
qed

text \<open>Fields the message does not know, after it, are skipped.\<close>

lemma unmarshal_extended:
  assumes us: "\<forall>u \<in> set us. unknown_ok u \<and> flds (uint (unknown_number u)) = None"
    and l: "length (wire m @ concat (map unknown_bytes us)) < 2 ^ 63"
  shows "unmarshal flds (wire m @ concat (map unknown_bytes us)) blank = Inr m"
proof -
  obtain g where g: "reads flds (wire m) g" "g blank = m" using restores by blast
  have "reads flds (concat (map unknown_bytes us)) (fold (\<lambda>_ m. m) us)"
    by (rule reads_each) (use us in \<open>auto intro: reads_unknown\<close>)
  moreover have "fold (\<lambda>_ m. m) us = (\<lambda>m :: 'm. m)" by (induction us) (simp_all add: fun_eq_iff)
  ultimately have "reads flds (concat (map unknown_bytes us)) (\<lambda>m. m)" by simp
  from unmarshal_reads [OF reads_append [OF g(1) this] l, of blank] g(2) show ?thesis by simp
qed

lemma roundtrip:
  "size_of m < 2 ^ 63 \<Longrightarrow>
    bindE (marshal (size_of m) (to_buffer m)) (\<lambda>bz. unmarshal flds bz blank) = Inr m"
  by (simp add: marshal_wire unmarshal_wire)

lemma wire_inj:
  assumes "size_of m < 2 ^ 63" and eq: "wire m = wire m'"
  shows "m = m'"
proof -
  have "size_of m' < 2 ^ 63" using assms(1) unfolding size_wire eq .
  from unmarshal_wire [OF this] unmarshal_wire [OF assms(1)] show ?thesis unfolding eq by simp
qed

end

lemma length_elem_bytes: "length (elem_bytes tag b) = elem_size (length b)"
  by (simp add: elem_bytes_def elem_size_def sovTx_length)

lemma length_field_bytes: "length (field_bytes tag b) = field_size (length b)"
  by (simp add: field_bytes_def field_size_def elem_bytes_def sovTx_length)

lemma length_number_bytes: "length (number_bytes tag v) = number_size v"
  by (simp add: number_bytes_def number_size_def sovTx_length)

lemma length_packed_bytes: "length (packed_bytes tag nums) = packed_size nums"
proof -
  have "(\<Sum>e\<leftarrow>nums. sovTx e) = length (concat (map enc_varint nums))"
    by (induction nums) (simp_all add: sovTx_length)
  then show ?thesis
    by (cases "nums = []") (simp_all add: packed_bytes_def packed_size_def field_bytes_def elem_bytes_def
        packed_bytes_empty Let_def sovTx_length [of "of_nat l" for l] del: concat_eq_Nil_conv length_concat)
qed

lemmas lengths = length_elem_bytes length_field_bytes length_number_bytes length_packed_bytes
  length_concat map_map comp_def length_bytes_of

lemma puts_as: "puts f w \<Longrightarrow> w = w' \<Longrightarrow> puts f w'"
  by simp

subsection \<open>\<open>Params\<close>\<close>

definition Params_wire :: "params \<Rightarrow> bytes" where
  "Params_wire m =
     number_bytes 0x08 (ucast (TreeDepth m)) @
     number_bytes 0x10 (ucast (RegTreeDepth m)) @
     field_bytes 0x1a (AuditorPubKey m) @
     concat (map (elem_bytes 0x22) (map bytes_of (SupportedDenoms m))) @
     field_bytes 0x2a (ChainBinding m)"

lemma Params_known:
  "Params_fields 1 = Some (Read32 (\<lambda>v. TreeDepth_update (\<lambda>_. v)))"
  "Params_fields 2 = Some (Read32 (\<lambda>v. RegTreeDepth_update (\<lambda>_. v)))"
  "Params_fields 3 = Some (bytes_field AuditorPubKey_update)"
  "Params_fields 4 = Some (repeated_strings SupportedDenoms_update)"
  "Params_fields 5 = Some (bytes_field ChainBinding_update)"
  by (simp_all add: Params_fields_def)

lemma Params_puts:
  "\<exists>f. Params_MarshalToSizedBuffer m = sized_buffer f \<and> puts f (Params_wire m)"
  unfolding Params_MarshalToSizedBuffer_def Params_wire_def
  by (rule exI, rule conjI, rule refl, rule puts_as, (rule puts_then puts_intros)+)
    (simp only: append_assoc)

lemma Params_reads: "\<exists>g. reads Params_fields (Params_wire m) g \<and> g Params_blank = m"
  unfolding Params_wire_def
  by (rule exI, rule conjI, (rule reads_append
      reads_number32 [where flds = Params_fields, OF tags(11) Params_known(1)]
      reads_number32 [where flds = Params_fields, OF tags(12) Params_known(2)]
      reads_bytes [where flds = Params_fields, OF tags(3) Params_known(3)]
      reads_repeated_strings [where flds = Params_fields, OF tags(4) Params_known(4)]
      reads_bytes [where flds = Params_fields, OF tags(5) Params_known(5)])+)
    (cases m, simp add: Params_blank_def unless_eq fold_append)

interpretation ParamsWire: wire_message Params_Size Params_MarshalToSizedBuffer Params_fields Params_blank Params_wire
proof
  show "\<exists>f. Params_MarshalToSizedBuffer m = sized_buffer f \<and> puts f (Params_wire m)" for m
    by (rule Params_puts)
  show "Params_Size m = length (Params_wire m)" for m
    by (simp add: Params_Size_def Params_wire_def lengths)
  show "\<exists>g. reads Params_fields (Params_wire m) g \<and> g Params_blank = m" for m
    by (rule Params_reads)
qed

subsection \<open>\<open>OutputNote\<close>\<close>

definition OutputNote_wire :: "OutputNote \<Rightarrow> bytes" where
  "OutputNote_wire m =
     field_bytes 0x0a (NoteHash m) @
     field_bytes 0x12 (EphemeralX m) @
     field_bytes 0x1a (EphemeralY m) @
     field_bytes 0x22 (EncAmount m) @
     field_bytes 0x2a (EncSalt m) @
     field_bytes 0x32 (AuditorEnc m) @
     field_bytes 0x3a (AuditorAuthKeyX m) @
     field_bytes 0x42 (AuditorAuthKeyY m) @
     field_bytes 0x4a (AuditorEncRecipient m)"

lemma OutputNote_known:
  "OutputNote_fields 1 = Some (bytes_field NoteHash_update)"
  "OutputNote_fields 2 = Some (bytes_field EphemeralX_update)"
  "OutputNote_fields 3 = Some (bytes_field EphemeralY_update)"
  "OutputNote_fields 4 = Some (bytes_field EncAmount_update)"
  "OutputNote_fields 5 = Some (bytes_field EncSalt_update)"
  "OutputNote_fields 6 = Some (bytes_field AuditorEnc_update)"
  "OutputNote_fields 7 = Some (bytes_field AuditorAuthKeyX_update)"
  "OutputNote_fields 8 = Some (bytes_field AuditorAuthKeyY_update)"
  "OutputNote_fields 9 = Some (bytes_field AuditorEncRecipient_update)"
  by (simp_all add: OutputNote_fields_def)

lemma OutputNote_puts:
  "\<exists>f. OutputNote_MarshalToSizedBuffer m = sized_buffer f \<and> puts f (OutputNote_wire m)"
  unfolding OutputNote_MarshalToSizedBuffer_def OutputNote_wire_def
  by (rule exI, rule conjI, rule refl, rule puts_as, (rule puts_then puts_intros)+)
    (simp only: append_assoc)

lemma OutputNote_reads: "\<exists>g. reads OutputNote_fields (OutputNote_wire m) g \<and> g OutputNote_blank = m"
  unfolding OutputNote_wire_def
  by (rule exI, rule conjI, (rule reads_append
      reads_bytes [where flds = OutputNote_fields, OF tags(1) OutputNote_known(1)]
      reads_bytes [where flds = OutputNote_fields, OF tags(2) OutputNote_known(2)]
      reads_bytes [where flds = OutputNote_fields, OF tags(3) OutputNote_known(3)]
      reads_bytes [where flds = OutputNote_fields, OF tags(4) OutputNote_known(4)]
      reads_bytes [where flds = OutputNote_fields, OF tags(5) OutputNote_known(5)]
      reads_bytes [where flds = OutputNote_fields, OF tags(6) OutputNote_known(6)]
      reads_bytes [where flds = OutputNote_fields, OF tags(7) OutputNote_known(7)]
      reads_bytes [where flds = OutputNote_fields, OF tags(8) OutputNote_known(8)]
      reads_bytes [where flds = OutputNote_fields, OF tags(9) OutputNote_known(9)])+)
    (cases m, simp add: OutputNote_blank_def unless_eq fold_append)

interpretation OutputNoteWire: wire_message OutputNote_Size OutputNote_MarshalToSizedBuffer OutputNote_fields OutputNote_blank OutputNote_wire
proof
  show "\<exists>f. OutputNote_MarshalToSizedBuffer m = sized_buffer f \<and> puts f (OutputNote_wire m)" for m
    by (rule OutputNote_puts)
  show "OutputNote_Size m = length (OutputNote_wire m)" for m
    by (simp add: OutputNote_Size_def OutputNote_wire_def lengths)
  show "\<exists>g. reads OutputNote_fields (OutputNote_wire m) g \<and> g OutputNote_blank = m" for m
    by (rule OutputNote_reads)
qed

subsection \<open>\<open>MsgRegister\<close>\<close>

definition MsgRegister_wire :: "MsgRegister \<Rightarrow> bytes" where
  "MsgRegister_wire m =
     field_bytes 0x0a (bytes_of (reg_Sender m)) @
     field_bytes 0x12 (reg_IdentityCommitment m) @
     field_bytes 0x1a (reg_Proof m) @
     field_bytes 0x22 (reg_PublicInputs m) @
     field_bytes 0x2a (reg_AuditorEncryptedData m)"

lemma MsgRegister_known:
  "MsgRegister_fields 1 = Some (string_field reg_Sender_update)"
  "MsgRegister_fields 2 = Some (bytes_field reg_IdentityCommitment_update)"
  "MsgRegister_fields 3 = Some (bytes_field reg_Proof_update)"
  "MsgRegister_fields 4 = Some (bytes_field reg_PublicInputs_update)"
  "MsgRegister_fields 5 = Some (bytes_field reg_AuditorEncryptedData_update)"
  by (simp_all add: MsgRegister_fields_def)

lemma MsgRegister_puts:
  "\<exists>f. MsgRegister_MarshalToSizedBuffer m = sized_buffer f \<and> puts f (MsgRegister_wire m)"
  unfolding MsgRegister_MarshalToSizedBuffer_def MsgRegister_wire_def
  by (rule exI, rule conjI, rule refl, rule puts_as, (rule puts_then puts_intros)+)
    (simp only: append_assoc)

lemma MsgRegister_reads: "\<exists>g. reads MsgRegister_fields (MsgRegister_wire m) g \<and> g MsgRegister_blank = m"
  unfolding MsgRegister_wire_def
  by (rule exI, rule conjI, (rule reads_append
      reads_string [where flds = MsgRegister_fields, OF tags(1) MsgRegister_known(1)]
      reads_bytes [where flds = MsgRegister_fields, OF tags(2) MsgRegister_known(2)]
      reads_bytes [where flds = MsgRegister_fields, OF tags(3) MsgRegister_known(3)]
      reads_bytes [where flds = MsgRegister_fields, OF tags(4) MsgRegister_known(4)]
      reads_bytes [where flds = MsgRegister_fields, OF tags(5) MsgRegister_known(5)])+)
    (cases m, simp add: MsgRegister_blank_def unless_eq fold_append)

interpretation MsgRegisterWire: wire_message MsgRegister_Size MsgRegister_MarshalToSizedBuffer MsgRegister_fields MsgRegister_blank MsgRegister_wire
proof
  show "\<exists>f. MsgRegister_MarshalToSizedBuffer m = sized_buffer f \<and> puts f (MsgRegister_wire m)" for m
    by (rule MsgRegister_puts)
  show "MsgRegister_Size m = length (MsgRegister_wire m)" for m
    by (simp add: MsgRegister_Size_def MsgRegister_wire_def lengths)
  show "\<exists>g. reads MsgRegister_fields (MsgRegister_wire m) g \<and> g MsgRegister_blank = m" for m
    by (rule MsgRegister_reads)
qed

subsection \<open>\<open>MsgDeposit\<close>\<close>

definition MsgDeposit_wire :: "MsgDeposit \<Rightarrow> bytes" where
  "MsgDeposit_wire m =
     field_bytes 0x0a (bytes_of (dep_Sender m)) @
     field_bytes 0x12 (bytes_of (dep_Denom m)) @
     field_bytes 0x1a (bytes_of (dep_Amount m)) @
     field_bytes 0x22 (dep_NoteCommitment m) @
     field_bytes 0x2a (dep_Proof m) @
     field_bytes 0x32 (dep_PublicInputs m) @
     field_bytes 0x3a (dep_AuditorEncryptedData m)"

lemma MsgDeposit_known:
  "MsgDeposit_fields 1 = Some (string_field dep_Sender_update)"
  "MsgDeposit_fields 2 = Some (string_field dep_Denom_update)"
  "MsgDeposit_fields 3 = Some (string_field dep_Amount_update)"
  "MsgDeposit_fields 4 = Some (bytes_field dep_NoteCommitment_update)"
  "MsgDeposit_fields 5 = Some (bytes_field dep_Proof_update)"
  "MsgDeposit_fields 6 = Some (bytes_field dep_PublicInputs_update)"
  "MsgDeposit_fields 7 = Some (bytes_field dep_AuditorEncryptedData_update)"
  by (simp_all add: MsgDeposit_fields_def)

lemma MsgDeposit_puts:
  "\<exists>f. MsgDeposit_MarshalToSizedBuffer m = sized_buffer f \<and> puts f (MsgDeposit_wire m)"
  unfolding MsgDeposit_MarshalToSizedBuffer_def MsgDeposit_wire_def
  by (rule exI, rule conjI, rule refl, rule puts_as, (rule puts_then puts_intros)+)
    (simp only: append_assoc)

lemma MsgDeposit_reads: "\<exists>g. reads MsgDeposit_fields (MsgDeposit_wire m) g \<and> g MsgDeposit_blank = m"
  unfolding MsgDeposit_wire_def
  by (rule exI, rule conjI, (rule reads_append
      reads_string [where flds = MsgDeposit_fields, OF tags(1) MsgDeposit_known(1)]
      reads_string [where flds = MsgDeposit_fields, OF tags(2) MsgDeposit_known(2)]
      reads_string [where flds = MsgDeposit_fields, OF tags(3) MsgDeposit_known(3)]
      reads_bytes [where flds = MsgDeposit_fields, OF tags(4) MsgDeposit_known(4)]
      reads_bytes [where flds = MsgDeposit_fields, OF tags(5) MsgDeposit_known(5)]
      reads_bytes [where flds = MsgDeposit_fields, OF tags(6) MsgDeposit_known(6)]
      reads_bytes [where flds = MsgDeposit_fields, OF tags(7) MsgDeposit_known(7)])+)
    (cases m, simp add: MsgDeposit_blank_def unless_eq fold_append)

interpretation MsgDepositWire: wire_message MsgDeposit_Size MsgDeposit_MarshalToSizedBuffer MsgDeposit_fields MsgDeposit_blank MsgDeposit_wire
proof
  show "\<exists>f. MsgDeposit_MarshalToSizedBuffer m = sized_buffer f \<and> puts f (MsgDeposit_wire m)" for m
    by (rule MsgDeposit_puts)
  show "MsgDeposit_Size m = length (MsgDeposit_wire m)" for m
    by (simp add: MsgDeposit_Size_def MsgDeposit_wire_def lengths)
  show "\<exists>g. reads MsgDeposit_fields (MsgDeposit_wire m) g \<and> g MsgDeposit_blank = m" for m
    by (rule MsgDeposit_reads)
qed

subsection \<open>\<open>MsgTransact\<close>\<close>

definition MsgTransact_wire :: "MsgTransact \<Rightarrow> bytes" where
  "MsgTransact_wire m =
     field_bytes 0x0a (bytes_of (tx_Sender m)) @
     concat (map (elem_bytes 0x12) (Nullifiers m)) @
     concat (map (elem_bytes 0x1a) (MerkleRoots m)) @
     concat (map (\<lambda>x. elem_bytes 0x22 (OutputNote_wire x)) (Outputs m)) @
     field_bytes 0x2a (bytes_of (WithdrawAmount m)) @
     field_bytes 0x32 (bytes_of (WithdrawAddress m)) @
     field_bytes 0x3a (bytes_of (tx_Denom m)) @
     field_bytes 0x42 (RegistrationRoot m) @
     field_bytes 0x4a (bytes_of (RelayerFee m)) @
     field_bytes 0x52 (tx_Proof m)"

lemma MsgTransact_known:
  "MsgTransact_fields 1 = Some (string_field tx_Sender_update)"
  "MsgTransact_fields 2 = Some (repeated_bytes Nullifiers_update)"
  "MsgTransact_fields 3 = Some (repeated_bytes MerkleRoots_update)"
  "MsgTransact_fields 4 = Some (ReadLen (\<lambda>b m. bindE (OutputNote_Unmarshal b OutputNote_blank)
         (\<lambda>x. Inr (m\<lparr>Outputs := Outputs m @ [x]\<rparr>))))"
  "MsgTransact_fields 5 = Some (string_field WithdrawAmount_update)"
  "MsgTransact_fields 6 = Some (string_field WithdrawAddress_update)"
  "MsgTransact_fields 7 = Some (string_field tx_Denom_update)"
  "MsgTransact_fields 8 = Some (bytes_field RegistrationRoot_update)"
  "MsgTransact_fields 9 = Some (string_field RelayerFee_update)"
  "MsgTransact_fields 10 = Some (bytes_field tx_Proof_update)"
  by (simp_all add: MsgTransact_fields_def)

lemma MsgTransact_reads_Outputs:
  "reads MsgTransact_fields (concat (map (\<lambda>x. elem_bytes 0x22 (OutputNote_wire x)) xs))
     (fold (\<lambda>x. Outputs_update (\<lambda>xs. xs @ [x])) xs)"
proof (rule reads_each)
  fix x
  show "reads MsgTransact_fields (elem_bytes 0x22 (OutputNote_wire x)) (Outputs_update (\<lambda>xs. xs @ [x]))"
  proof (rule reads_elem [where flds = MsgTransact_fields, OF tags(4) MsgTransact_known(4)])
    fix m :: MsgTransact
    assume "length (OutputNote_wire x) < 2 ^ 63"
    then show "bindE (OutputNote_Unmarshal (OutputNote_wire x) OutputNote_blank)
        (\<lambda>x. Inr (m\<lparr>Outputs := Outputs m @ [x]\<rparr>)) = Inr (Outputs_update (\<lambda>xs. xs @ [x]) m)"
      by (cases m) (simp add: OutputNote_Unmarshal_def OutputNoteWire.unmarshal_wire OutputNoteWire.size_wire)
  qed
qed

lemma MsgTransact_puts:
  "\<exists>f. MsgTransact_MarshalToSizedBuffer m = sized_buffer f \<and> puts f (MsgTransact_wire m)"
  unfolding MsgTransact_MarshalToSizedBuffer_def MsgTransact_wire_def
  by (rule exI, rule conjI, rule refl, rule puts_as, (rule puts_then puts_intros puts_each [OF OutputNoteWire.puts_embedded])+)
    (simp only: append_assoc)

lemma MsgTransact_reads: "\<exists>g. reads MsgTransact_fields (MsgTransact_wire m) g \<and> g MsgTransact_blank = m"
  unfolding MsgTransact_wire_def
  by (rule exI, rule conjI, (rule reads_append
      reads_string [where flds = MsgTransact_fields, OF tags(1) MsgTransact_known(1)]
      reads_repeated_bytes [where flds = MsgTransact_fields, OF tags(2) MsgTransact_known(2)]
      reads_repeated_bytes [where flds = MsgTransact_fields, OF tags(3) MsgTransact_known(3)]
      MsgTransact_reads_Outputs
      reads_string [where flds = MsgTransact_fields, OF tags(5) MsgTransact_known(5)]
      reads_string [where flds = MsgTransact_fields, OF tags(6) MsgTransact_known(6)]
      reads_string [where flds = MsgTransact_fields, OF tags(7) MsgTransact_known(7)]
      reads_bytes [where flds = MsgTransact_fields, OF tags(8) MsgTransact_known(8)]
      reads_string [where flds = MsgTransact_fields, OF tags(9) MsgTransact_known(9)]
      reads_bytes [where flds = MsgTransact_fields, OF tags(10) MsgTransact_known(10)])+)
    (cases m, simp add: MsgTransact_blank_def unless_eq fold_append)

interpretation MsgTransactWire: wire_message MsgTransact_Size MsgTransact_MarshalToSizedBuffer MsgTransact_fields MsgTransact_blank MsgTransact_wire
proof
  show "\<exists>f. MsgTransact_MarshalToSizedBuffer m = sized_buffer f \<and> puts f (MsgTransact_wire m)" for m
    by (rule MsgTransact_puts)
  show "MsgTransact_Size m = length (MsgTransact_wire m)" for m
    by (simp add: MsgTransact_Size_def MsgTransact_wire_def lengths OutputNoteWire.size_wire)
  show "\<exists>g. reads MsgTransact_fields (MsgTransact_wire m) g \<and> g MsgTransact_blank = m" for m
    by (rule MsgTransact_reads)
qed

subsection \<open>\<open>MsgUpdateParams\<close>\<close>

definition MsgUpdateParams_wire :: "MsgUpdateParams \<Rightarrow> bytes" where
  "MsgUpdateParams_wire m =
     field_bytes 0x0a (bytes_of (up_Authority m)) @
     (case up_Params m of None \<Rightarrow> [] | Some x \<Rightarrow> elem_bytes 0x12 (Params_wire x))"

lemma MsgUpdateParams_known:
  "MsgUpdateParams_fields 1 = Some (string_field up_Authority_update)"
  "MsgUpdateParams_fields 2 = Some (ReadLen (\<lambda>b m. bindE (Params_Unmarshal b (case up_Params m of None \<Rightarrow> Params_blank | Some x \<Rightarrow> x))
         (\<lambda>x. Inr (m\<lparr>up_Params := Some x\<rparr>))))"
  by (simp_all add: MsgUpdateParams_fields_def)

lemma puts_params:
  "puts (case p of None \<Rightarrow> Inr | Some x \<Rightarrow> put_message 0x12 (Params_MarshalToSizedBuffer x))
     (case p of None \<Rightarrow> [] | Some x \<Rightarrow> elem_bytes 0x12 (Params_wire x))"
  by (cases p) (simp_all add: puts_skip ParamsWire.puts_embedded)

lemma MsgUpdateParams_reads_params:
  "\<exists>g. reads MsgUpdateParams_fields
      (case p of None \<Rightarrow> [] | Some x \<Rightarrow> elem_bytes 0x12 (Params_wire x)) g \<and>
    (\<forall>m. up_Params m = None \<longrightarrow> g m = m\<lparr>up_Params := p\<rparr>)"
proof (cases p)
  case None
  then show ?thesis by (intro exI [of _ "\<lambda>m. m"]) (simp add: reads_nothing)
next
  case (Some x)
  obtain h where h: "reads Params_fields (Params_wire x) h" "h Params_blank = x"
    using ParamsWire.restores by blast
  let ?g = "\<lambda>m. m\<lparr>up_Params := Some (h (case up_Params m of None \<Rightarrow> Params_blank | Some y \<Rightarrow> y))\<rparr>"
  have "reads MsgUpdateParams_fields (elem_bytes 0x12 (Params_wire x)) ?g"
    by (rule reads_elem [where flds = MsgUpdateParams_fields, OF tags(2) MsgUpdateParams_known(2)])
      (simp add: Params_Unmarshal_def unmarshal_reads [OF h(1)])
  with Some h(2) show ?thesis by (intro exI [of _ ?g]) simp
qed

lemma MsgUpdateParams_puts:
  "\<exists>f. MsgUpdateParams_MarshalToSizedBuffer m = sized_buffer f \<and> puts f (MsgUpdateParams_wire m)"
  unfolding MsgUpdateParams_MarshalToSizedBuffer_def MsgUpdateParams_wire_def
  by (rule exI, rule conjI, rule refl, rule puts_as, (rule puts_then puts_intros puts_params)+)
    (simp only: append_assoc)

lemma MsgUpdateParams_reads: "\<exists>g. reads MsgUpdateParams_fields (MsgUpdateParams_wire m) g \<and> g MsgUpdateParams_blank = m"
proof -
  obtain g where g: "reads MsgUpdateParams_fields
      (case up_Params m of None \<Rightarrow> [] | Some x \<Rightarrow> elem_bytes 0x12 (Params_wire x)) g"
    "\<forall>m'. up_Params m' = None \<longrightarrow> g m' = m'\<lparr>up_Params := up_Params m\<rparr>"
    using MsgUpdateParams_reads_params by blast
  have "reads MsgUpdateParams_fields (MsgUpdateParams_wire m)
      (\<lambda>x. g (unless (up_Authority m = []) (up_Authority_update (\<lambda>_. up_Authority m)) x))"
    unfolding MsgUpdateParams_wire_def
    by (rule reads_append [OF reads_string [where flds = MsgUpdateParams_fields,
            OF tags(1) MsgUpdateParams_known(1)] g(1)])
  moreover have "g (unless (up_Authority m = []) (up_Authority_update (\<lambda>_. up_Authority m))
      MsgUpdateParams_blank) = m"
    using g(2) by (cases m) (simp add: MsgUpdateParams_blank_def unless_eq)
  ultimately show ?thesis by blast
qed

interpretation MsgUpdateParamsWire: wire_message MsgUpdateParams_Size MsgUpdateParams_MarshalToSizedBuffer MsgUpdateParams_fields MsgUpdateParams_blank MsgUpdateParams_wire
proof
  show "\<exists>f. MsgUpdateParams_MarshalToSizedBuffer m = sized_buffer f \<and> puts f (MsgUpdateParams_wire m)" for m
    by (rule MsgUpdateParams_puts)
  show "MsgUpdateParams_Size m = length (MsgUpdateParams_wire m)" for m
    by (simp add: MsgUpdateParams_Size_def MsgUpdateParams_wire_def lengths ParamsWire.size_wire split: option.splits)
  show "\<exists>g. reads MsgUpdateParams_fields (MsgUpdateParams_wire m) g \<and> g MsgUpdateParams_blank = m" for m
    by (rule MsgUpdateParams_reads)
qed

subsection \<open>\<open>MsgSetVerificationKey\<close>\<close>

definition MsgSetVerificationKey_wire :: "MsgSetVerificationKey \<Rightarrow> bytes" where
  "MsgSetVerificationKey_wire m =
     field_bytes 0x0a (bytes_of (svk_Authority m)) @
     field_bytes 0x12 (bytes_of (CircuitName m)) @
     field_bytes 0x1a (VkData m)"

lemma MsgSetVerificationKey_known:
  "MsgSetVerificationKey_fields 1 = Some (string_field svk_Authority_update)"
  "MsgSetVerificationKey_fields 2 = Some (string_field CircuitName_update)"
  "MsgSetVerificationKey_fields 3 = Some (bytes_field VkData_update)"
  by (simp_all add: MsgSetVerificationKey_fields_def)

lemma MsgSetVerificationKey_puts:
  "\<exists>f. MsgSetVerificationKey_MarshalToSizedBuffer m = sized_buffer f \<and> puts f (MsgSetVerificationKey_wire m)"
  unfolding MsgSetVerificationKey_MarshalToSizedBuffer_def MsgSetVerificationKey_wire_def
  by (rule exI, rule conjI, rule refl, rule puts_as, (rule puts_then puts_intros)+)
    (simp only: append_assoc)

lemma MsgSetVerificationKey_reads: "\<exists>g. reads MsgSetVerificationKey_fields (MsgSetVerificationKey_wire m) g \<and> g MsgSetVerificationKey_blank = m"
  unfolding MsgSetVerificationKey_wire_def
  by (rule exI, rule conjI, (rule reads_append
      reads_string [where flds = MsgSetVerificationKey_fields, OF tags(1) MsgSetVerificationKey_known(1)]
      reads_string [where flds = MsgSetVerificationKey_fields, OF tags(2) MsgSetVerificationKey_known(2)]
      reads_bytes [where flds = MsgSetVerificationKey_fields, OF tags(3) MsgSetVerificationKey_known(3)])+)
    (cases m, simp add: MsgSetVerificationKey_blank_def unless_eq fold_append)

interpretation MsgSetVerificationKeyWire: wire_message MsgSetVerificationKey_Size MsgSetVerificationKey_MarshalToSizedBuffer MsgSetVerificationKey_fields MsgSetVerificationKey_blank MsgSetVerificationKey_wire
proof
  show "\<exists>f. MsgSetVerificationKey_MarshalToSizedBuffer m = sized_buffer f \<and> puts f (MsgSetVerificationKey_wire m)" for m
    by (rule MsgSetVerificationKey_puts)
  show "MsgSetVerificationKey_Size m = length (MsgSetVerificationKey_wire m)" for m
    by (simp add: MsgSetVerificationKey_Size_def MsgSetVerificationKey_wire_def lengths)
  show "\<exists>g. reads MsgSetVerificationKey_fields (MsgSetVerificationKey_wire m) g \<and> g MsgSetVerificationKey_blank = m" for m
    by (rule MsgSetVerificationKey_reads)
qed

subsection \<open>\<open>MsgRegisterResponse\<close>\<close>

definition MsgRegisterResponse_wire :: "MsgRegisterResponse \<Rightarrow> bytes" where
  "MsgRegisterResponse_wire m =
     number_bytes 0x08 (rr_LeafIndex m) @
     field_bytes 0x12 (rr_MerkleRoot m)"

lemma MsgRegisterResponse_known:
  "MsgRegisterResponse_fields 1 = Some (Read64 (\<lambda>v. rr_LeafIndex_update (\<lambda>_. v)))"
  "MsgRegisterResponse_fields 2 = Some (bytes_field rr_MerkleRoot_update)"
  by (simp_all add: MsgRegisterResponse_fields_def)

lemma MsgRegisterResponse_puts:
  "\<exists>f. MsgRegisterResponse_MarshalToSizedBuffer m = sized_buffer f \<and> puts f (MsgRegisterResponse_wire m)"
  unfolding MsgRegisterResponse_MarshalToSizedBuffer_def MsgRegisterResponse_wire_def
  by (rule exI, rule conjI, rule refl, rule puts_as, (rule puts_then puts_intros)+)
    (simp only: append_assoc)

lemma MsgRegisterResponse_reads: "\<exists>g. reads MsgRegisterResponse_fields (MsgRegisterResponse_wire m) g \<and> g MsgRegisterResponse_blank = m"
  unfolding MsgRegisterResponse_wire_def
  by (rule exI, rule conjI, (rule reads_append
      reads_number64 [where flds = MsgRegisterResponse_fields, OF tags(11) MsgRegisterResponse_known(1)]
      reads_bytes [where flds = MsgRegisterResponse_fields, OF tags(2) MsgRegisterResponse_known(2)])+)
    (cases m, simp add: MsgRegisterResponse_blank_def unless_eq fold_append)

interpretation MsgRegisterResponseWire: wire_message MsgRegisterResponse_Size MsgRegisterResponse_MarshalToSizedBuffer MsgRegisterResponse_fields MsgRegisterResponse_blank MsgRegisterResponse_wire
proof
  show "\<exists>f. MsgRegisterResponse_MarshalToSizedBuffer m = sized_buffer f \<and> puts f (MsgRegisterResponse_wire m)" for m
    by (rule MsgRegisterResponse_puts)
  show "MsgRegisterResponse_Size m = length (MsgRegisterResponse_wire m)" for m
    by (simp add: MsgRegisterResponse_Size_def MsgRegisterResponse_wire_def lengths)
  show "\<exists>g. reads MsgRegisterResponse_fields (MsgRegisterResponse_wire m) g \<and> g MsgRegisterResponse_blank = m" for m
    by (rule MsgRegisterResponse_reads)
qed

subsection \<open>\<open>MsgDepositResponse\<close>\<close>

definition MsgDepositResponse_wire :: "MsgDepositResponse \<Rightarrow> bytes" where
  "MsgDepositResponse_wire m =
     number_bytes 0x08 (dr_LeafIndex m) @
     field_bytes 0x12 (dr_MerkleRoot m)"

lemma MsgDepositResponse_known:
  "MsgDepositResponse_fields 1 = Some (Read64 (\<lambda>v. dr_LeafIndex_update (\<lambda>_. v)))"
  "MsgDepositResponse_fields 2 = Some (bytes_field dr_MerkleRoot_update)"
  by (simp_all add: MsgDepositResponse_fields_def)

lemma MsgDepositResponse_puts:
  "\<exists>f. MsgDepositResponse_MarshalToSizedBuffer m = sized_buffer f \<and> puts f (MsgDepositResponse_wire m)"
  unfolding MsgDepositResponse_MarshalToSizedBuffer_def MsgDepositResponse_wire_def
  by (rule exI, rule conjI, rule refl, rule puts_as, (rule puts_then puts_intros)+)
    (simp only: append_assoc)

lemma MsgDepositResponse_reads: "\<exists>g. reads MsgDepositResponse_fields (MsgDepositResponse_wire m) g \<and> g MsgDepositResponse_blank = m"
  unfolding MsgDepositResponse_wire_def
  by (rule exI, rule conjI, (rule reads_append
      reads_number64 [where flds = MsgDepositResponse_fields, OF tags(11) MsgDepositResponse_known(1)]
      reads_bytes [where flds = MsgDepositResponse_fields, OF tags(2) MsgDepositResponse_known(2)])+)
    (cases m, simp add: MsgDepositResponse_blank_def unless_eq fold_append)

interpretation MsgDepositResponseWire: wire_message MsgDepositResponse_Size MsgDepositResponse_MarshalToSizedBuffer MsgDepositResponse_fields MsgDepositResponse_blank MsgDepositResponse_wire
proof
  show "\<exists>f. MsgDepositResponse_MarshalToSizedBuffer m = sized_buffer f \<and> puts f (MsgDepositResponse_wire m)" for m
    by (rule MsgDepositResponse_puts)
  show "MsgDepositResponse_Size m = length (MsgDepositResponse_wire m)" for m
    by (simp add: MsgDepositResponse_Size_def MsgDepositResponse_wire_def lengths)
  show "\<exists>g. reads MsgDepositResponse_fields (MsgDepositResponse_wire m) g \<and> g MsgDepositResponse_blank = m" for m
    by (rule MsgDepositResponse_reads)
qed

subsection \<open>\<open>MsgTransactResponse\<close>\<close>

definition MsgTransactResponse_wire :: "MsgTransactResponse \<Rightarrow> bytes" where
  "MsgTransactResponse_wire m =
     packed_bytes 0x0a (tr_LeafIndices m) @
     field_bytes 0x12 (tr_MerkleRoot m)"

lemma MsgTransactResponse_known:
  "MsgTransactResponse_fields 1 = Some (ReadPacked (\<lambda>v. tr_LeafIndices_update (\<lambda>vs. vs @ [v])))"
  "MsgTransactResponse_fields 2 = Some (bytes_field tr_MerkleRoot_update)"
  by (simp_all add: MsgTransactResponse_fields_def)

lemma MsgTransactResponse_puts:
  "\<exists>f. MsgTransactResponse_MarshalToSizedBuffer m = sized_buffer f \<and> puts f (MsgTransactResponse_wire m)"
  unfolding MsgTransactResponse_MarshalToSizedBuffer_def MsgTransactResponse_wire_def
  by (rule exI, rule conjI, rule refl, rule puts_as, (rule puts_then puts_intros)+)
    (simp only: append_assoc)

lemma MsgTransactResponse_reads: "\<exists>g. reads MsgTransactResponse_fields (MsgTransactResponse_wire m) g \<and> g MsgTransactResponse_blank = m"
  unfolding MsgTransactResponse_wire_def
  by (rule exI, rule conjI, (rule reads_append
      reads_packed [where flds = MsgTransactResponse_fields, OF tags(1) MsgTransactResponse_known(1)]
      reads_bytes [where flds = MsgTransactResponse_fields, OF tags(2) MsgTransactResponse_known(2)])+)
    (cases m, simp add: MsgTransactResponse_blank_def unless_eq fold_append)

interpretation MsgTransactResponseWire: wire_message MsgTransactResponse_Size MsgTransactResponse_MarshalToSizedBuffer MsgTransactResponse_fields MsgTransactResponse_blank MsgTransactResponse_wire
proof
  show "\<exists>f. MsgTransactResponse_MarshalToSizedBuffer m = sized_buffer f \<and> puts f (MsgTransactResponse_wire m)" for m
    by (rule MsgTransactResponse_puts)
  show "MsgTransactResponse_Size m = length (MsgTransactResponse_wire m)" for m
    by (simp add: MsgTransactResponse_Size_def MsgTransactResponse_wire_def lengths)
  show "\<exists>g. reads MsgTransactResponse_fields (MsgTransactResponse_wire m) g \<and> g MsgTransactResponse_blank = m" for m
    by (rule MsgTransactResponse_reads)
qed

end
