(* ===== verification/Admission.thy ===== *)
theory Admission
  imports Wallet Instances MessageSpec
begin

section \<open>Untrusted input does not panic\<close>

text \<open>
  Indexing and slicing panic out of range; a panic in a handler is caught far outside the module.
  The decoder of messages, the parsers of byte strings and addresses check lengths before they
  slice; the stateless checks make every index of the handler's fields valid.
\<close>

definition no_panic :: "err + 'a \<Rightarrow> bool" where
  "no_panic r \<longleftrightarrow> (case r of Inl e \<Rightarrow> \<not> is_panic e | Inr x \<Rightarrow> True)"

lemma no_panic_simps [simp]:
  "no_panic (Inr x)" "no_panic (Inl (Nix n))" "no_panic (Inl (Std t))" "no_panic (Inl (Ext t))"
  "\<not> no_panic (Inl (Panic t))"
  by (simp_all add: no_panic_def)

lemma no_panic_bind [intro!]:
  "no_panic r \<Longrightarrow> (\<And>x. r = Inr x \<Longrightarrow> no_panic (f x)) \<Longrightarrow> no_panic (bindE r f)"
  by (cases r) (simp_all add: no_panic_def)

lemma no_panic_mapE: "(\<And>x. x \<in> set xs \<Longrightarrow> no_panic (f x)) \<Longrightarrow> no_panic (mapE f xs)"
  by (induction xs) auto

lemma no_panic_index: "i < length xs \<Longrightarrow> no_panic (index_at xs i)"
  by (simp add: index_at_def)

lemma no_panic_rewrap: "no_panic r \<Longrightarrow> no_panic (rewrapE t r)"
  by (cases r) (simp_all add: rewrapE_def no_panic_def)

lemma no_panic_amount: "no_panic (amount_element E v)"
  by (simp add: amount_element_def split: option.split)

lemma no_panic_slice: "i \<le> j \<Longrightarrow> j \<le> length d \<Longrightarrow> no_panic (go_slice d i j)"
  by simp

lemma no_panic_Assemble:
  assumes "length (Nullifiers msg) = 2" "length (MerkleRoots msg) = 2" "length (Outputs msg) = 2"
  shows "no_panic (AssembleTransactPublicInputs E msg p a)"
  unfolding AssembleTransactPublicInputs_def Let_def
  by (intro no_panic_bind no_panic_index no_panic_amount) (use assms no_panic_amount in auto)

lemma no_panic_auditor: "no_panic (verifyAuditorPublicInputs x y key)"
  unfolding verifyAuditorPublicInputs_def Let_def by (auto intro!: no_panic_slice)

lemma no_panic_bindings:
  "no_panic (VerifyRegisterPublicInputs xs commitment p)"
  "no_panic (VerifyDepositPublicInputs E xs commitment amount denom p)"
  unfolding VerifyRegisterPublicInputs_def VerifyDepositPublicInputs_def
  by (auto simp: pi_counts pi_positions intro!: no_panic_index no_panic_auditor)

lemma no_panic_Parse: "no_panic (ParsePublicInputs data)"
  unfolding ParsePublicInputs_def Let_def
  by (auto simp: parse_input_def intro!: no_panic_mapE no_panic_slice)

lemma no_panic_hexByte: "no_panic (hexByte c d)"
  unfolding hexByte_def hexNibble_def by auto

lemma no_panic_hex32: "no_panic (hexToBytes32 s)"
  unfolding hexToBytes32_def Let_def by (auto intro!: no_panic_mapE no_panic_index no_panic_hexByte)

lemma no_panic_New: "no_panic (NewGrumpkinPubKey C key)"
  by (auto simp: NewGrumpkinPubKey_def PointFromRawXY_def PubKeySize_def Let_def no_panic_def)

lemma no_panic_Decode: "no_panic (DecodeNixAddress C a)"
  unfolding DecodeNixAddress_def Let_def
  by (auto simp: PubKey_Commitment_def hexToBytes32_iff NewGrumpkinPubKey_iff
      prefix_def intro!: no_panic_rewrap no_panic_hex32 no_panic_New no_panic_index no_panic_slice)

subsection \<open>Decoding bytes\<close>

lemma no_panic_varint: "no_panic (varint_loop d shift v i)"
proof (induction d shift v i rule: varint_loop.induct)
  case (1 d shift v i)
  then show ?case by (subst varint_loop.simps) (auto simp: Let_def intro!: no_panic_index)
qed

lemma no_panic_length: "no_panic (read_length d i)"
  unfolding read_length_def by (auto intro!: no_panic_varint)

lemma length_bounds: "read_length d i = Inr (j, post) \<Longrightarrow> j \<le> post \<and> post \<le> length d"
  by (auto simp: read_length_def bindE_Inr_iff split: if_splits)

lemma no_panic_packed: "no_panic (packed_from f d post i m)"
proof (induction f d post i m rule: packed_from.induct)
  case (1 f d post i m)
  show ?case
  proof (cases "i < post")
    case True
    then show ?thesis
      using "1.IH" [OF True _ refl] by (subst packed_from.simps) (auto intro!: no_panic_varint)
  next
    case False
    then show ?thesis by (subst packed_from.simps) simp
  qed
qed

lemma no_panic_skip_value: "no_panic (skip_value d depth wt i)"
  by (auto simp: skip_value_def intro!: no_panic_varint)

lemma no_panic_skip: "no_panic (skip_from d depth i)"
proof (induction d depth i rule: skip_from.induct)
  case (1 d depth i)
  show ?case
  proof (cases "i < length d")
    case True
    then show ?thesis
      using "1.IH" [OF True _ refl _ refl]
      by (subst skip_from.simps) (auto intro!: no_panic_varint no_panic_skip_value)
  next
    case False
    then show ?thesis by (subst skip_from.simps) simp
  qed
qed

text \<open>The readers of embedded messages must not panic; the others cannot.\<close>

fun reader_safe :: "'m field_reader \<Rightarrow> bool" where
  "reader_safe (ReadLen f) \<longleftrightarrow> (\<forall>b m. no_panic (f b m))"
| "reader_safe _ \<longleftrightarrow> True"

lemma no_panic_read_field: "reader_safe rd \<Longrightarrow> no_panic (read_field rd wt d i m)"
  by (cases rd) (auto simp: go_slice_def dest: length_bounds
      intro!: no_panic_length no_panic_varint no_panic_packed)

lemma no_panic_round:
  assumes "\<And>n rd. flds n = Some rd \<Longrightarrow> reader_safe rd"
  shows "no_panic (unmarshal_round flds d i m)"
  unfolding unmarshal_round_def Let_def skipTx_def
  by (auto split: option.split intro!: no_panic_varint no_panic_slice no_panic_skip no_panic_read_field assms
      dest!: varint_bounds)

lemma no_panic_unmarshal:
  assumes "\<And>n rd. flds n = Some rd \<Longrightarrow> reader_safe rd"
  shows "no_panic (unmarshal flds d m)"
proof -
  have "no_panic (unmarshal_from flds d i m)" for i
    using assms
  proof (induction flds d i m rule: unmarshal_from.induct)
    case (1 flds d i m)
    show ?case
    proof (cases "i < length d")
      case True
      then show ?thesis
        using "1.IH" [OF True _ refl] "1.prems" no_panic_round [of flds]
        by (subst unmarshal_from.simps) auto
    next
      case False
      then show ?thesis by (subst unmarshal_from.simps) simp
    qed
  qed
  then show ?thesis by (simp add: unmarshal_def)
qed

lemma reader_safe_kinds [simp]:
  "reader_safe (bytes_field u)" "reader_safe (string_field v)" "reader_safe (repeated_bytes w)"
  "reader_safe (repeated_strings x)"
  by (simp_all add: bytes_field_def string_field_def repeated_bytes_def repeated_strings_def)

lemma no_panic_OutputNote: "no_panic (OutputNote_Unmarshal bz m)"
  unfolding OutputNote_Unmarshal_def
  by (rule no_panic_unmarshal) (auto simp: OutputNote_fields_def split: if_splits)

lemma no_panic_Params: "no_panic (Params_Unmarshal bz m)"
  unfolding Params_Unmarshal_def
  by (rule no_panic_unmarshal) (auto simp: Params_fields_def split: if_splits)

lemma no_panic_messages:
  "no_panic (MsgRegister_Unmarshal bz m1)" "no_panic (MsgDeposit_Unmarshal bz m2)"
  "no_panic (MsgTransact_Unmarshal bz m3)" "no_panic (MsgUpdateParams_Unmarshal bz m4)"
  "no_panic (MsgSetVerificationKey_Unmarshal bz m5)"
  unfolding MsgRegister_Unmarshal_def MsgDeposit_Unmarshal_def MsgTransact_Unmarshal_def
    MsgUpdateParams_Unmarshal_def MsgSetVerificationKey_Unmarshal_def
  by (rule no_panic_unmarshal, force simp: MsgRegister_fields_def MsgDeposit_fields_def
      MsgTransact_fields_def MsgUpdateParams_fields_def MsgSetVerificationKey_fields_def
      split: if_splits intro: no_panic_OutputNote no_panic_Params)+

lemma small_sizes:
  assumes "l < 128"
  shows "elem_size l = l + 2" and "field_size l = (if l = 0 then 0 else l + 2)"
proof -
  have "unat (of_nat l :: u64) = l" using assms by (intro unat_of_nat_u64) simp
  with assms have "sovTx (of_nat l) = 1"
    by (simp add: sovTx_length enc_varint.simps [of "of_nat l"] word_le_nat_alt)
  then show "elem_size l = l + 2" and "field_size l = (if l = 0 then 0 else l + 2)"
    by (simp_all add: elem_size_def field_size_def)
qed

lemma transact1_size: "MsgTransact_Size transact1 < 2 ^ 63"
  by (simp add: MsgTransact_Size_def transact1_def small_sizes OutputNote_Size_def no_output_def elem32_def
      zero32_def)

subsection \<open>Untrusted input\<close>

text \<open>C31: Input from outside never panics.  Every index and every slice of these functions panics out of
  range, as it does in Go.  The decoder of every message returns a message or an error on every byte
  string.  For a transact that passes the stateless checks the assembly of the public inputs
  returns a vector or an error, and a vector as soon as a chain binding is configured.  The parser of public
  inputs, the checks that bind them to a deposit or a registration for an auditor key of any length, and the decoder of
  addresses return a value or an error on every input.\<close>

theorem admitted_input_never_panics:
  assumes "MsgTransact_ValidateBasic E msg = Inr ()"
  shows "no_panic (AssembleTransactPublicInputs E msg p a) \<and>
    (ChainBinding p = [] \<or> (\<exists>xs. AssembleTransactPublicInputs E msg p a = Inr xs)) \<and>
    no_panic (MsgRegister_Unmarshal data MsgRegister_blank) \<and> no_panic (MsgDeposit_Unmarshal data MsgDeposit_blank) \<and>
    no_panic (MsgTransact_Unmarshal data MsgTransact_blank) \<and>
    no_panic (MsgUpdateParams_Unmarshal data MsgUpdateParams_blank) \<and>
    no_panic (MsgSetVerificationKey_Unmarshal data MsgSetVerificationKey_blank) \<and>
    no_panic (ParsePublicInputs data) \<and> no_panic (VerifyRegisterPublicInputs ys commitment p) \<and>
    no_panic (VerifyDepositPublicInputs E ys commitment amount denom p) \<and> no_panic (DecodeNixAddress C addr)"
proof -
  have w: "transact_wellformed E msg" using assms by (simp add: ValidateBasic_transact_iff)
  then have len: "length (Nullifiers msg) = 2" "length (MerkleRoots msg) = 2" "length (Outputs msg) = 2"
    and amts: "amount_ok E (WithdrawAmount msg)" "amount_ok E (RelayerFee msg)"
    by (simp_all add: transact_wellformed_def)
  have "\<exists>x. amount_element E v = Inr x" if "amount_ok E v" for v
    using that by (auto simp: amount_ok_def amount_element_def)
  with amts have "\<exists>x. amount_element E (WithdrawAmount msg) = Inr x" "\<exists>x. amount_element E (RelayerFee msg) = Inr x"
    by blast+
  then have "ChainBinding p = [] \<or> (\<exists>xs. AssembleTransactPublicInputs E msg p a = Inr xs)"
    using len by (auto simp: Assemble_iff)
  then show ?thesis
    by (intro conjI no_panic_Assemble [OF len] no_panic_Parse no_panic_bindings no_panic_Decode no_panic_messages)
qed

theorem admitted_input_never_panics_witness:
  "\<exists>bz xs. MsgTransact_Unmarshal bz MsgTransact_blank = Inr transact1 \<and>
    AssembleTransactPublicInputs ext1 transact1 params1 [1] = Inr xs"
proof -
  have "MsgTransact_Unmarshal (MsgTransact_wire transact1) MsgTransact_blank = Inr transact1"
    unfolding MsgTransact_Unmarshal_def by (rule MsgTransactWire.unmarshal_wire [OF transact1_size])
  with admitted_input_never_panics [OF transact1_valid, of params1 "[1]"] show ?thesis
    by (auto simp: params1_def)
qed

end
