(* ===== verification/ErrorPaths.thy ===== *)
theory ErrorPaths
  imports Exact
begin

section \<open>Failing messages\<close>

text \<open>
  A handler that fails returns the state it had reached; undoing it is the work of the transaction
  runner.  Here the order of the checks is enough: before the proof is accepted no handler moves
  a coin or writes a tree, and the marks a transact sets before its proof is checked are the only
  writes.
\<close>

text \<open>A call that fails, and leaves a state in the given relation to the one it started in.\<close>

definition fails_within :: "('b chain \<Rightarrow> 'b chain \<Rightarrow> bool) \<Rightarrow> 'b chain \<Rightarrow> ('b chain, 'a) M \<Rightarrow> bool" where
  "fails_within R c m \<longleftrightarrow> isl (fst (m c)) \<and> R c (snd (m c))"

definition same_state :: "'b chain \<Rightarrow> 'b chain \<Rightarrow> bool" where
  "same_state c c' \<longleftrightarrow> kv c' = kv c \<and> bank c' = bank c"

definition marks_only :: "'b chain \<Rightarrow> 'b chain \<Rightarrow> bool" where
  "marks_only c c' \<longleftrightarrow> touches (range KNullifier) (kv c) (kv c') \<and> bank c' = bank c"

lemma same_state_refl [simp]: "same_state c c"
  by (simp add: same_state_def)

lemma marks_only_refl [simp]: "marks_only c c"
  by (simp add: marks_only_def touch.R_refl)

lemma marks_only_trans: "marks_only a b \<Longrightarrow> marks_only b c \<Longrightarrow> marks_only a c"
  unfolding marks_only_def by (metis touch.R_trans)

lemma same_marks: "same_state c c' \<Longrightarrow> marks_only c c'"
  by (simp add: same_state_def marks_only_def touch.R_refl)

lemma fails_throw: "R c c \<Longrightarrow> fails_within R c (throwM e)"
  by (simp add: fails_within_def)

text \<open>A step that only reads, then the rest.\<close>

definition reads :: "'b chain \<Rightarrow> ('b chain, 'a) M \<Rightarrow> bool" where
  "reads c m \<longleftrightarrow> snd (m c) = c"

lemma fails_read:
  assumes "reads c m" "R c c" "\<And>x. m c = (Inr x, c) \<Longrightarrow> fails_within R c (f x)"
  shows "fails_within R c (bindM m f)"
proof (cases "m c")
  case (Pair r c1)
  with assms(1) have "c1 = c" by (simp add: reads_def)
  with Pair assms(2,3) show ?thesis by (cases r) (auto simp: fails_within_def bindM_def)
qed

lemma reads_simps [simp]:
  "reads c (liftE r)" "reads c (readM g)" "reads c (readKV h)" "reads c (returnM x)" "reads c (throwM e)"
  by (simp_all add: reads_def)

lemma reads_enforceAuditor [simp]: "reads c (enforceAuditor E b)"
  by (auto simp: reads_def enforceAuditor_def bindM_readKV split: sum.split)

lemma reads_option [simp]: "reads c (case v of None \<Rightarrow> throwM e | Some a \<Rightarrow> returnM a)"
  by (cases v) simp_all

text \<open>The verification: when it does not accept, only gas is charged.\<close>

lemma VerifyProof_rejects:
  assumes "\<not> proof_accepted E (kv c) n p xs"
  shows "fails_within same_state c (bindM (VerifyProof E n p xs) f)"
proof -
  obtain r c' where run: "VerifyProof E n p xs c = (r, c')" by (cases "VerifyProof E n p xs c")
  have "r \<noteq> Inr u" for u using assms run by (auto simp: VerifyProof_Inr_iff)
  then obtain e where "r = Inl e" by (cases r) auto
  moreover have "same_state c c'"
    using run by (auto simp: VerifyProof_def bindM_def same_state_def readKV_eval ConsumeGas_eval guardE_def
        wrapM_def split: sum.splits if_splits prod.splits)
  ultimately show ?thesis using run by (simp add: fails_within_def bindM_def)
qed

subsection \<open>The three handlers\<close>

definition register_proved :: "('vk, 'b) ext \<Rightarrow> MsgRegister \<Rightarrow> store \<Rightarrow> bool" where
  "register_proved E msg s \<longleftrightarrow> (\<exists>xs. ParsePublicInputs (reg_PublicInputs msg) = Inr xs \<and>
     proof_accepted E s ''registration'' (reg_Proof msg) xs)"

definition deposit_proved :: "('vk, 'b) ext \<Rightarrow> MsgDeposit \<Rightarrow> store \<Rightarrow> bool" where
  "deposit_proved E msg s \<longleftrightarrow> (\<exists>xs. ParsePublicInputs (dep_PublicInputs msg) = Inr xs \<and>
     proof_accepted E s ''deposit'' (dep_Proof msg) xs)"

definition transact_proved :: "('vk, 'b) ext \<Rightarrow> MsgTransact \<Rightarrow> store \<Rightarrow> bool" where
  "transact_proved E msg s \<longleftrightarrow> (\<exists>p xs. GetParams E s = Inr p \<and>
     AssembleTransactPublicInputs E msg p (moduleAddress E) = Inr xs \<and>
     proof_accepted E s ''transact'' (tx_Proof msg) xs)"

lemma wrap_liftE_Inr: "liftE (wrapE e r) c = (Inr x, c) \<Longrightarrow> r = Inr x"
  by simp

lemma Register_unproved:
  assumes "\<not> register_proved E msg (kv c)"
  shows "fails_within same_state c (Register E msg)"
  unfolding Register_def
  by (intro fails_read VerifyProof_rejects) (use assms in \<open>auto simp: register_proved_def\<close>)

lemma fails_if: "(b \<Longrightarrow> fails_within R c m) \<Longrightarrow> (\<not> b \<Longrightarrow> fails_within R c m') \<Longrightarrow> fails_within R c (if b then m else m')"
  by simp

lemma Deposit_unproved:
  assumes "\<not> deposit_proved E msg (kv c)"
  shows "fails_within same_state c (Deposit E msg)"
  unfolding Deposit_def
  by (intro fails_read fails_if fails_throw VerifyProof_rejects) (use assms in \<open>auto simp: deposit_proved_def\<close>)

lemma consume_marks_only: "consume_nullifier E msg i c = (r, c') \<Longrightarrow> marks_only c c'"
  by (auto simp: consume_nullifier_def marks_only_def MarkNullifierSpent_def run_simps touch.R_refl
      split: if_splits sum.splits)

lemma consume_both_marks_only:
  assumes "forM [0, 1] (consume_nullifier E msg) c = (r, c')"
  shows "marks_only c c'"
proof -
  obtain r1 c1 where 1: "consume_nullifier E msg 0 c = (r1, c1)" by (cases "consume_nullifier E msg 0 c")
  obtain r2 c2 where 2: "consume_nullifier E msg 1 c1 = (r2, c2)" by (cases "consume_nullifier E msg 1 c1")
  have "c' = c1 \<or> c' = c2"
    using assms 1 2 by (cases r1; cases r2) (auto simp: bindM_def)
  then show ?thesis
    using consume_marks_only [OF 1] marks_only_trans [OF consume_marks_only [OF 1] consume_marks_only [OF 2]] by blast
qed

lemma fails_mono: "fails_within R c m \<Longrightarrow> (\<And>c'. R c c' \<Longrightarrow> R' c c') \<Longrightarrow> fails_within R' c m"
  by (simp add: fails_within_def)

lemma transact_rest_unproved:
  assumes "\<not> transact_proved E msg (kv c)"
  shows "fails_within same_state c (transact_rest E msg)"
  unfolding transact_rest_def
  by (intro fails_read VerifyProof_rejects) (use assms in \<open>auto simp: transact_proved_def\<close>)

lemma transact_proved_frame:
  assumes "touches (range KNullifier) s t"
  shows "transact_proved E msg t = transact_proved E msg s"
proof -
  have "GetParams E t = GetParams E s" by (rule GetParams_frame [OF assms]) auto
  moreover have "proof_accepted E t n p xs = proof_accepted E s n p xs" for n p xs
    by (rule proof_frame [OF assms]) auto
  ultimately show ?thesis by (simp add: transact_proved_def)
qed

lemma Transact_unproved:
  assumes no: "\<not> transact_proved E msg (kv c)"
  shows "fails_within marks_only c (Transact E msg)"
proof -
  have eq: "Transact E msg = bindM (readKV (\<lambda>s. Inr (IsValidRegRoot E s (RegistrationRoot msg))))
      (\<lambda>valid. if \<not> valid then throwM (Nix ErrInvalidMerkleRoot)
         else bindM (forM [0, 1] (consume_nullifier E msg)) (\<lambda>_. transact_rest E msg))"
    by (simp only: Transact_def transact_rest_def)
  have "fails_within marks_only c (bindM (forM [0, 1] (consume_nullifier E msg)) (\<lambda>_. transact_rest E msg))"
  proof -
    obtain r c1 where run: "forM [0, 1] (consume_nullifier E msg) c = (r, c1)"
      by (cases "forM [0, 1] (consume_nullifier E msg) c")
    note m1 = consume_both_marks_only [OF run]
    show ?thesis
    proof (cases r)
      case (Inl e)
      with run m1 show ?thesis by (simp add: fails_within_def bindM_def del: forM.simps)
    next
      case (Inr u)
      have "\<not> transact_proved E msg (kv c1)"
        using no transact_proved_frame m1 unfolding marks_only_def by metis
      from fails_mono [OF transact_rest_unproved [OF this] same_marks]
      have "fails_within marks_only c1 (transact_rest E msg)" .
      with Inr run marks_only_trans [OF m1] show ?thesis
        by (simp add: fails_within_def bindM_def del: forM.simps)
    qed
  qed
  note rest = this [unfolded One_nat_def]
  show ?thesis
    unfolding eq
    by (rule fails_read [OF _ _ fails_if [OF fails_throw]]) (simp_all add: rest del: forM.simps)
qed

subsection \<open>Properties\<close>

text \<open>C5: Nothing happens without a proof.  If the verifier has not accepted the proof of a message
  for its public inputs, under the key and the parameters of the store, then the handler fails, a
  registration and a deposit leave the store and the bank exactly as they were, and a transact
  has at most marked nullifiers: no tree, no parameter and no balance changed, even before the
  transaction is rolled back.\<close>

theorem nothing_without_proof:
  "(\<not> register_proved E rm (kv c) \<longrightarrow>
      (\<exists>e c'. Register E rm c = (Inl e, c') \<and> kv c' = kv c \<and> bank c' = bank c)) \<and>
   (\<not> deposit_proved E dm (kv c) \<longrightarrow>
      (\<exists>e c'. Deposit E dm c = (Inl e, c') \<and> kv c' = kv c \<and> bank c' = bank c)) \<and>
   (\<not> transact_proved E tm (kv c) \<longrightarrow>
      (\<exists>e c'. Transact E tm c = (Inl e, c') \<and> touches (range KNullifier) (kv c) (kv c') \<and> bank c' = bank c))"
proof -
  have fails: "\<exists>e c'. m c = (Inl e, c') \<and> R c c'" if "fails_within R c m" for R and m :: "('b chain, 'x) M"
    using that by (cases "m c") (auto simp: fails_within_def isl_def)
  show ?thesis
    using fails [OF Register_unproved] fails [OF Transact_unproved] fails [OF Deposit_unproved]
    unfolding same_state_def marks_only_def by blast
qed

text \<open>With an empty proof, which the verifier of the instance refuses.\<close>

theorem nothing_without_proof_witness:
  "(\<exists>e c'. Register ext1 (register1\<lparr>reg_Proof := []\<rparr>) chain1 = (Inl e, c') \<and> kv c' = store1 \<and> bank c' = []) \<and>
   (\<exists>e c'. Deposit ext1 (deposit1\<lparr>dep_Proof := []\<rparr>) chain1 = (Inl e, c') \<and> kv c' = store1 \<and> bank c' = []) \<and>
   (\<exists>e c'. Transact ext1 (transact1\<lparr>tx_Proof := []\<rparr>) chain1 = (Inl e, c') \<and>
      touches (range KNullifier) store1 (kv c') \<and> bank c' = [])"
proof -
  have v: "\<not> proof_accepted ext1 s n [] xs" for s n xs by (simp add: proof_accepted_def ext1_def)
  have "\<not> register_proved ext1 (register1\<lparr>reg_Proof := []\<rparr>) (kv chain1)"
    "\<not> deposit_proved ext1 (deposit1\<lparr>dep_Proof := []\<rparr>) (kv chain1)"
    "\<not> transact_proved ext1 (transact1\<lparr>tx_Proof := []\<rparr>) (kv chain1)"
    by (simp_all add: register_proved_def deposit_proved_def transact_proved_def v)
  moreover have "bank chain1 = []" by (simp add: chain1_def)
  ultimately show ?thesis
    using nothing_without_proof [of ext1 "register1\<lparr>reg_Proof := []\<rparr>" chain1 "deposit1\<lparr>dep_Proof := []\<rparr>"
        "transact1\<lparr>tx_Proof := []\<rparr>"] by (simp only: chain1_kv) blast
qed

end
