(* ===== verification/Limbs.thy ===== *)
theory Limbs
  imports Instances
begin

section \<open>Strings as field elements: the loop at the width of its counter\<close>

text \<open>
  \<open>stringToFieldElement\<close> (\<open>keeper/verify.go\<close>) cuts a string into limbs with a loop over an \<open>int\<close>, and
  hashes the length and the limbs.  The handlers use its recursive form \<open>string_limbs\<close>; here is the
  loop itself: the counter is a 64-bit word read as signed, so that it may wrap, and the slice
  \<open>b[i:end]\<close> panics out of range.  The limbs it returns are determined position by position.
\<close>

definition int_slice :: "bytes \<Rightarrow> u64 \<Rightarrow> u64 \<Rightarrow> err + bytes" where
  "int_slice b i j =
     (if sint i < 0 \<or> sint j < 0 then Inl (Panic ''slice bounds out of range'')
      else go_slice b (nat (sint i)) (nat (sint j)))"

lemma int_slice_bounds: "int_slice b i j = Inr c \<Longrightarrow> 0 \<le> sint i \<and> sint i \<le> sint j"
  by (auto simp: int_slice_def split: if_splits)

function limb_loop :: "bytes \<Rightarrow> u64 \<Rightarrow> fr list \<Rightarrow> err + fr list" where
  "limb_loop b i limbs =
     (if sint i < int (length b) then
        let stop = i + 31;
            stop = (if sint stop > int (length b) then of_nat (length b) else stop)
        in bindE (int_slice b i stop) (\<lambda>c. limb_loop b (i + 31) (limbs @ [SetBytes c]))
      else Inr limbs)"
  by pat_completeness auto

termination
proof (relation "measure (\<lambda>(b, i, limbs). nat (int (length b) - sint i))")
  fix b :: bytes and i :: u64 and limbs :: "fr list" and stop stop' c
  assume i: "sint i < int (length b)" and stop: "stop = i + 31"
    "stop' = (if sint stop > int (length b) then of_nat (length b) else stop)" "int_slice b i stop' = Inr c"
  have "sint (i + 31) \<noteq> sint i" by (simp flip: word_eq_iff_signed)
  then have "sint i < sint (i + 31)"
    using i stop int_slice_bounds [OF stop(3)] by (cases "sint stop > int (length b)") simp_all
  with i show "((b, i + 31, limbs @ [SetBytes c]), b, i, limbs) \<in> measure (\<lambda>(b, i, limbs). nat (int (length b) - sint i))"
    by simp
qed simp

declare limb_loop.simps [simp del]

definition text_limbs :: "string \<Rightarrow> err + fr list" where
  "text_limbs s =
     (let b = bytes_of s in limb_loop b 0 [fr_of_int (uint (of_nat (length b) :: u64))])"

lemma sint_of_nat: "n < 2 ^ 63 \<Longrightarrow> sint (of_nat n :: u64) = int n"
  by (simp add: sint_uint uint_nat unat_of_nat_u64 signed_take_bit_int_eq_self)

lemma limbs31_count: "length (limbs31 b) = (length b + 30) div 31"
proof (induction b rule: limbs31.induct)
  case (2 x xs)
  show ?case
  proof (cases "length (x # xs) \<le> 31")
    case True
    with 2 show ?thesis by (simp add: div_nat_eqI)
  next
    case False
    then have "length (x # xs) + 30 = (length (x # xs) - 31 + 30) + 31" by simp
    with 2 show ?thesis by (metis add.commute div_add_self2 length_Cons length_drop limbs31.simps(2) plus_1_eq_Suc zero_neq_numeral)
  qed
qed simp

lemma limbs31_nth: "k < length (limbs31 b) \<Longrightarrow> limbs31 b ! k = take 31 (drop (31 * k) b)"
proof (induction b arbitrary: k rule: limbs31.induct)
  case (2 x xs)
  have "drop (31 * Suc n) (x # xs) = drop (31 * n) (drop 31 (x # xs))" for n
    by (simp only: drop_drop mult_Suc_right add.commute)
  with 2 show ?case by (cases k) (simp_all only: limbs31.simps nth_Cons_0 nth_Cons_Suc list.size, simp_all)
qed simp

lemma limb_loop_value:
  assumes "length b + 31 < 2 ^ 63" and "i < 2 ^ 63"
  shows "limb_loop b (of_nat i) limbs = Inr (limbs @ map SetBytes (limbs31 (drop i b)))"
  using assms(2)
proof (induction "length b - i" arbitrary: i limbs rule: less_induct)
  case less
  show ?case
  proof (cases "i < length b")
    case False
    then show ?thesis using less.prems by (subst limb_loop.simps) (simp add: sint_of_nat)
  next
    case True
    then have i: "i < 2 ^ 63" "i + 31 < 2 ^ 63" using assms(1) by simp_all
    have succ: "(of_nat i + 31 :: u64) = of_nat (i + 31)" by simp
    let ?stop = "if i + 31 > length b then length b else i + 31"
    have "int_slice b (of_nat i) (of_nat ?stop) = Inr (take 31 (drop i b))"
      using True assms(1) i by (simp add: int_slice_def sint_of_nat)
    moreover have "limbs31 (drop i b) = take 31 (drop i b) # limbs31 (drop (i + 31) b)"
      using True by (subst limbs31_step) (simp_all add: add.commute)
    moreover have "limb_loop b (of_nat (i + 31)) (limbs @ [SetBytes (take 31 (drop i b))]) =
        Inr ((limbs @ [SetBytes (take 31 (drop i b))]) @ map SetBytes (limbs31 (drop (i + 31) b)))"
      using True i(2) by (intro less.hyps) simp_all
    ultimately show ?thesis
      using True i assms(1)
      by (subst limb_loop.simps) (simp add: Let_def succ sint_of_nat del: of_nat_add split: if_splits)
  qed
qed

subsection \<open>The property\<close>

lemma string_limbs_word:
  assumes "length v < 2 ^ 63"
  shows "text_limbs v = limb_loop (bytes_of v) (of_nat 0) [fr_of_int (int (length v))]"
proof -
  have "length v < 2 ^ 64" using assms by simp
  then have "uint (of_nat (length v) :: u64) = int (length v)"
    unfolding uint_nat by (simp only: unat_of_nat_u64)
  then show ?thesis by (simp add: text_limbs_def Let_def)
qed

lemma text_limbs_value: "length v + 31 < 2 ^ 63 \<Longrightarrow> text_limbs v = Inr (string_limbs v)"
  using limb_loop_value [of "bytes_of v" 0]
  by (simp add: string_limbs_word string_limbs_def Let_def del: of_nat_0)

text \<open>C17: How a string becomes a field element, for every string that an \<open>int\<close> can index (31 bytes
  short of \<open>2\<^sup>6\<^sup>3\<close>): the loop stops, its counter does not wrap and its slices are in range; what is
  hashed is the length and then one element for every 31 bytes or part of them, whose value is the number
  these bytes are, big-endian, without reduction; and no other such string has these elements.\<close>

theorem text_limbs_exact:
  assumes "length v + 31 < 2 ^ 63"
  shows "\<exists>ls. text_limbs v = Inr ls \<and> stringToFieldElement E v = hashN E ls \<and>
    length ls = Suc ((length v + 30) div 31) \<and> fr_val (ls ! 0) = int (length v) \<and>
    (\<forall>k < (length v + 30) div 31.
      fr_val (ls ! Suc k) = int (be_nat (take 31 (drop (31 * k) (bytes_of v))))) \<and>
    (\<forall>w. length w + 31 < 2 ^ 63 \<and> text_limbs w = Inr ls \<longrightarrow> w = v)"
proof -
  let ?ls = "string_limbs v"
  have small: "int (length w) < fr_modulus" if "length w + 31 < 2 ^ 63" for w :: string
  proof -
    have "int (length w) < 2 ^ 63" using that by simp
    also have "(2 :: int) ^ 63 < fr_modulus" by (simp add: fr_modulus_def)
    finally show ?thesis .
  qed
  have "fr_val (?ls ! 0) = int (length v)"
    using small [OF assms] by (simp add: string_limbs_def Let_def fr_val_of_int)
  moreover have "fr_val (?ls ! Suc k) = int (be_nat (take 31 (drop (31 * k) (bytes_of v))))"
    if "k < (length v + 30) div 31" for k
    using that be_nat_31 [of "take 31 (drop (31 * k) (bytes_of v))"]
    by (simp add: string_limbs_def Let_def limbs31_count limbs31_nth fr_val_SetBytes)
  moreover have "w = v" if "length w + 31 < 2 ^ 63" "text_limbs w = Inr ?ls" for w
    using that text_limbs_value [OF that(1)] string_limbs_inj [OF small small, of w v] assms by simp
  ultimately show ?thesis
    using text_limbs_value [OF assms]
    by (intro exI [of _ ?ls]) (simp add: stringToFieldElement_def string_limbs_def Let_def limbs31_count)
qed

text \<open>An address of forty characters has two limbs.\<close>

theorem text_limbs_exact_witness:
  "\<exists>ls. text_limbs (replicate 40 CHR ''a'') = Inr ls \<and>
    stringToFieldElement ext1 (replicate 40 CHR ''a'') = hashN ext1 ls \<and> length ls = 3 \<and> fr_val (ls ! 0) = 40 \<and>
    fr_val (ls ! 2) = int (be_nat (replicate 9 97))"
proof -
  have "length (replicate 40 CHR ''a'') + 31 < 2 ^ 63" by simp
  from text_limbs_exact [OF this, of ext1] obtain ls where "text_limbs (replicate 40 CHR ''a'') = Inr ls"
    "stringToFieldElement ext1 (replicate 40 CHR ''a'') = hashN ext1 ls"
    "length ls = 3" "fr_val (ls ! 0) = 40"
    "\<forall>k < 2. fr_val (ls ! Suc k) = int (be_nat (take 31 (drop (31 * k) (bytes_of (replicate 40 CHR ''a'')))))"
    by auto
  moreover from this(5) have "fr_val (ls ! Suc 1) = int (be_nat (replicate 9 97))"
    unfolding bytes_of_def map_replicate by (simp only:) simp
  ultimately show ?thesis by (intro exI [of _ ls]) (simp add: numeral_2_eq_2)
qed

end
