(* ===== verification/Escrow.thy ===== *)
theory Escrow
  imports Exact
begin

section \<open>The escrow account\<close>

text \<open>
  What the pool holds, in numbers.  The bank module is outside the repository: \<open>bal\<close> reads the
  balance of the pool's account off its state, and \<open>bank_laws\<close> is what its documentation says of the
  two transfers and of \<open>sdk.NewCoins\<close>.  Between the messages of the pool the rest of the chain may do
  anything that leaves the pool's store and balance alone.
\<close>

definition coins_of :: "(string \<times> int) list \<Rightarrow> string \<Rightarrow> int" where
  "coins_of coins d = sum_list (map snd (filter (\<lambda>(denom, _). denom = d) coins))"

text \<open>A transfer between the pool's account and itself moves nothing.\<close>

definition moved :: "('vk, 'b) ext \<Rightarrow> bytes \<Rightarrow> int \<Rightarrow> int" where
  "moved E account n = (if account = moduleAddress E then 0 else n)"

definition bank_laws :: "('vk, 'b) ext \<Rightarrow> ('b \<Rightarrow> string \<Rightarrow> int) \<Rightarrow> bool" where
  "bank_laws E bal \<longleftrightarrow>
     (\<forall>denom n coins d. newCoins E denom n = Inr coins \<longrightarrow> coins_of coins d = (if denom = d then n else 0)) \<and>
     (\<forall>sender coins b b' d. sendToModule E sender ModuleName coins b = (Inr (), b') \<longrightarrow>
        bal b' d = bal b d + moved E sender (coins_of coins d)) \<and>
     (\<forall>recipient coins b b' d. sendFromModule E ModuleName recipient coins b = (Inr (), b') \<longrightarrow>
        bal b' d = bal b d - moved E recipient (coins_of coins d))"

text \<open>The numbers of a message: what its amount strings say, in its denomination.\<close>

definition amount_of :: "('vk, 'b) ext \<Rightarrow> string \<Rightarrow> int" where
  "amount_of E v = (case parseInt E v of None \<Rightarrow> 0 | Some n \<Rightarrow> n)"

definition payment :: "('vk, 'b) ext \<Rightarrow> string \<Rightarrow> string \<Rightarrow> string \<Rightarrow> string \<Rightarrow> int" where
  "payment E d v denom addr =
     (if denom \<noteq> d \<or> v = '''' \<or> v = ''0'' \<or> accAddress E addr = Inr (moduleAddress E) then 0
      else amount_of E v)"

fun message_in :: "('vk, 'b) ext \<Rightarrow> string \<Rightarrow> message \<Rightarrow> int" where
  "message_in E d (TxDeposit m) =
     (if dep_Denom m \<noteq> d \<or> accAddress E (dep_Sender m) = Inr (moduleAddress E) then 0
      else amount_of E (dep_Amount m))"
| "message_in E d _ = 0"

fun message_out :: "('vk, 'b) ext \<Rightarrow> string \<Rightarrow> message \<Rightarrow> int" where
  "message_out E d (TxTransact m) =
     payment E d (WithdrawAmount m) (tx_Denom m) (WithdrawAddress m) +
     payment E d (RelayerFee m) (tx_Denom m) (tx_Sender m)"
| "message_out E d _ = 0"

inductive chain_runs ::
  "('vk, 'b) ext \<Rightarrow> ('b \<Rightarrow> string \<Rightarrow> int) \<Rightarrow> message list \<Rightarrow> 'b chain \<Rightarrow> 'b chain \<Rightarrow> bool" for E bal where
  chain_nil: "chain_runs E bal [] c c"
| chain_cons: "step E m c c1 \<Longrightarrow> kv c2 = kv c1 \<Longrightarrow> bal (bank c2) = bal (bank c1) \<Longrightarrow>
    chain_runs E bal ms c2 t \<Longrightarrow> chain_runs E bal (m # ms) c t"

subsection \<open>One message\<close>

lemma paid_balance:
  assumes laws: "bank_laws E bal" and pay: "paid E s v denom addr b b'"
  shows "bal b' d = bal b d - payment E d v denom addr"
proof (cases "v = '''' \<or> v = ''0''")
  case True
  with pay show ?thesis by (auto simp: paid_def payment_def)
next
  case False
  with pay obtain n recipient coins where "parseInt E v = Some n" "accAddress E addr = Inr recipient"
    "newCoins E denom n = Inr coins" "sendFromModule E ModuleName recipient coins b = (Inr (), b')"
    by (auto simp: paid_def)
  with laws False show ?thesis by (auto simp: bank_laws_def payment_def amount_of_def moved_def)
qed

lemma deposit_balance:
  assumes laws: "bank_laws E bal" and run: "Deposit E m c = (Inr r, c')"
  shows "bal (bank c') d = bal (bank c) d + message_in E d (TxDeposit m)"
proof -
  obtain idx root where "Deposit E m c = (Inr (idx, root), c')" using run by (cases r) auto
  then obtain amt sender coins where "parseInt E (dep_Amount m) = Some amt"
    "accAddress E (dep_Sender m) = Inr sender" "newCoins E (dep_Denom m) amt = Inr coins"
    "sendToModule E sender ModuleName coins (bank c) = (Inr (), bank c')"
    by (rule Deposit_success) blast
  with laws show ?thesis by (auto simp: bank_laws_def amount_of_def moved_def)
qed

lemma transact_balance:
  assumes laws: "bank_laws E bal" and run: "Transact E m c = (Inr r, c')"
  shows "bal (bank c') d = bal (bank c) d - message_out E d (TxTransact m)"
proof -
  obtain b where "paid E (kv c) (WithdrawAmount m) (tx_Denom m) (WithdrawAddress m) (bank c) b"
    "paid E (kv c) (RelayerFee m) (tx_Denom m) (tx_Sender m) b (bank c')"
    using run by (rule Transact_success) blast
  from paid_balance [OF laws this(1), of d] paid_balance [OF laws this(2), of d] show ?thesis by simp
qed

lemma governance_bank:
  "UpdateParams E u c = (Inr x, c') \<Longrightarrow> bank c' = bank c"
  "Msg_SetVerificationKey E v c = (Inr x, c') \<Longrightarrow> bank c' = bank c"
  by (auto simp: UpdateParams_Inr_iff SetVK_Inr_iff)

lemma register_bank:
  assumes "Register E m c = (Inr r, c')"
  shows "bank c' = bank c"
proof -
  obtain idx root where "Register E m c = (Inr (idx, root), c')" using assms by (cases r) auto
  then show ?thesis by (rule Register_success)
qed

lemma step_balance:
  assumes "bank_laws E bal" "step E m c c'"
  shows "bal (bank c') d = bal (bank c) d + message_in E d m - message_out E d m"
  using assms(2)
  by (cases rule: step.cases)
    (use assms(1) deposit_balance transact_balance register_bank governance_bank in fastforce)+

subsection \<open>Properties\<close>

text \<open>C2: The escrow is conserved.  Over any run of messages the balance of the pool's account in any
  denomination changes by exactly what the successful deposits brought in minus what the
  successful transacts paid out as withdrawals and fees; no other message moves a coin, and if the
  bank never lets the balance become negative, no more is paid out than was held and deposited.\<close>

theorem escrow_conserved:
  assumes "chain_runs E bal ms c t" and "bank_laws E bal"
  shows "bal (bank t) d = bal (bank c) d + (\<Sum>m\<leftarrow>ms. message_in E d m) - (\<Sum>m\<leftarrow>ms. message_out E d m) \<and>
    (0 \<le> bal (bank t) d \<longrightarrow> (\<Sum>m\<leftarrow>ms. message_out E d m) \<le> bal (bank c) d + (\<Sum>m\<leftarrow>ms. message_in E d m))"
proof -
  from assms(1)
  have "bal (bank t) d = bal (bank c) d + (\<Sum>m\<leftarrow>ms. message_in E d m) - (\<Sum>m\<leftarrow>ms. message_out E d m)"
  proof (induction rule: chain_runs.induct)
    case (chain_nil c)
    then show ?case by simp
  next
    case (chain_cons m c c1 c2 ms t)
    with step_balance [OF assms(2) chain_cons.hyps(1), of d] show ?case by simp
  qed
  then show ?thesis by simp
qed

text \<open>The ledger of payments, read as a balance; a pool that holds a hundred coins.\<close>

definition ledger_balance :: "ledger \<Rightarrow> string \<Rightarrow> int" where
  "ledger_balance b d = sum_list (map (\<lambda>(dir, account, coins).
     if account = moduleAddress ext1 then 0 else if dir = ''in'' then coins_of coins d else - coins_of coins d) b)"

definition funded1 :: "ledger chain" where
  "funded1 = chain1\<lparr>bank := [(''in'', bytes_of ''ann'', [(''anix'', 100)])]\<rparr>"

lemma ext1_bank: "bank_laws ext1 ledger_balance"
  by (simp add: bank_laws_def ext1_calls ledger_balance_def coins_of_def moved_def)

lemma bob_relay: "bytes_of ''bob'' \<noteq> moduleAddress ext1" "bytes_of ''relay'' \<noteq> moduleAddress ext1"
  "bytes_of ''ann'' \<noteq> moduleAddress ext1"
  by (simp_all add: ext1_def bytes_of_def)

lemma store1_empty_pool: "represents ext1 3 store1 empty_pool"
  using ext1_laws store1_depth store1_forest store1_reg
  by (simp add: represents_def nullifier_spent_def store1_has empty_pool_def)

lemma transact1_accepted: "pool_accepts ext1 3 (TxTransact transact1) empty_pool"
proof -
  have "zero32 = frBytes (roots_of ext1 reg_depth [])"
    using store1_reg transact1_reg by (simp add: reg_ok_def IsValidRegRoot_def)
  then show ?thesis
    by (simp add: empty_pool_def spends_def output_notes_def elem32_not_zero root_known_def zero_root1 less_2_cases_iff)
qed

lemma transact1_backed: "transact_backed ext1 transact1 (chain1\<lparr>bank := b\<rparr>)"
proof -
  obtain xs where xs: "AssembleTransactPublicInputs ext1 transact1 params1 (moduleAddress ext1) = Inr xs"
    using transact1_assemble by blast
  have den: "''anix'' \<in> set (SupportedDenoms params1)" by (simp add: params1_def)
  have gas: "gasOk ext1 g" for g by (simp add: ext1_def)
  show ?thesis
    unfolding transact_backed_def
    using params1_read xs store1_vk [of "''transact''"] den
    by (simp add: paid_def ext1_calls gas)
qed

theorem escrow_conserved_witness:
  "\<exists>t. chain_runs ext1 ledger_balance [TxTransact transact1] funded1 t \<and> ledger_balance (bank t) ''anix'' = 93"
proof -
  have "represents ext1 3 (kv funded1) empty_pool"
    using store1_empty_pool by (simp add: funded1_def)
  moreover have "transact_backed ext1 transact1 funded1" using transact1_backed by (simp add: funded1_def)
  ultimately obtain r t where "Transact ext1 transact1 funded1 = (Inr r, t)"
    using Transact_succeeds [OF _ _ transact1_accepted] by (fastforce simp: empty_pool_def tree_bound_def)
  then have run: "chain_runs ext1 ledger_balance [TxTransact transact1] funded1 t"
    by (intro chain_cons [OF step_transact _ _ chain_nil]) simp_all
  have "ledger_balance (bank funded1) ''anix'' = 100"
    using bob_relay by (simp add: ledger_balance_def funded1_def coins_of_def)
  moreover have "message_out ext1 ''anix'' (TxTransact transact1) = 7"
    using bob_relay by (simp add: payment_def ext1_calls amount_of_def)
  ultimately have "ledger_balance (bank t) ''anix'' = 93"
    using escrow_conserved [OF run ext1_bank, of "''anix''"] by simp
  with run show ?thesis by blast
qed

end
