(* ===== verification/Refinement.thy ===== *)
theory Refinement
  imports Escrow Lifecycle
begin

section \<open>The handlers implement the abstract pool\<close>

text \<open>
  The statements that join the handlers and the abstract pool of \<open>Pool\<close>: a run of messages is a run
  of the abstract machine; a message succeeds exactly if the machine accepts it and its proof,
  parameters and payments are in order; how long the root of a deposit stays good for a spend.
\<close>

subsection \<open>Every run is an abstract run\<close>

text \<open>C3: As long as no message changes the depth of the trees, the pool refines its specification.  On
  a store that represents an abstract pool, with room for two more trees for each message below
  \<open>2\<^sup>5\<^sup>6\<close>, any run of such messages is a run of the abstract machine: every message was acceptable
  to it, the final store represents the pool it ends in, and what the store answers is what that
  pool says: the nullifiers that are spent, the commitments in use, the registered identities, the
  valid registration root and the valid note roots.  (C26 shows a change of the depth after which
  the store represents no pool.)\<close>

theorem pool_refined:
  assumes "runs E ms s t" and "represents E d s P" and "\<forall>m \<in> set ms. keeps_depth E d m"
    and "length (trees P) + 2 * length ms < tree_bound"
  shows "\<exists>Q. pool_exec E d ms P = Some Q \<and> represents E d t Q \<and>
    (\<forall>n. IsNullifierSpent t n \<longleftrightarrow> SetBytes n \<in> spent Q) \<and>
    (\<forall>x. note_used t x \<longleftrightarrow> x \<in> SetBytes ` set (concat (trees Q))) \<and>
    (\<forall>x. identity_used t x \<longleftrightarrow> x \<in> SetBytes ` set (identities Q)) \<and>
    (\<forall>root. IsValidRegRoot E t root \<longleftrightarrow> root = frBytes (roots_of E reg_depth (identities Q))) \<and>
    (\<forall>root. IsValidRootAnyTree E t root = Inr (root_known E d Q root))"
proof -
  obtain Q where ex: "pool_exec E d ms P = Some Q" and rep: "represents E d t Q"
    using poolMachine.runs_refine [OF assms] by blast
  have f: "forest_ok E d t (trees Q)" and g: "reg_ok E t (identities Q)"
    and sp: "\<forall>x. nullifier_spent t x \<longleftrightarrow> x \<in> spent Q" using rep by (simp_all add: represents_def)
  have "\<forall>x. note_used t x \<longleftrightarrow> x \<in> SetBytes ` set (concat (trees Q))"
    using f by (simp add: forest_ok_def note_used_def)
  moreover have "\<forall>x. identity_used t x \<longleftrightarrow> x \<in> SetBytes ` set (identities Q)"
    "\<forall>root. IsValidRegRoot E t root \<longleftrightarrow> root = frBytes (roots_of E reg_depth (identities Q))"
    using g by (auto simp: reg_ok_def identity_used_def IsValidRegRoot_def)
  moreover have "\<forall>root. IsValidRootAnyTree E t root = Inr (root_known E d Q root)"
    using valid_roots_window [OF f] by (simp add: root_known_def)
  ultimately show ?thesis using ex rep sp by (auto simp: IsNullifierSpent_eq)
qed

theorem pool_refined_witness:
  "\<exists>Q. pool_exec ext1 3 [TxTransact transact1] empty_pool = Some Q \<and> represents ext1 3 (kv chain1') Q \<and>
    (\<forall>root. IsValidRootAnyTree ext1 (kv chain1') root = Inr (root_known ext1 3 Q root))"
proof -
  have run: "runs ext1 [TxTransact transact1] store1 (kv chain1')"
    by (rule runs_cons [OF chain1_kv step_transact [OF transact1_runs] runs_nil])
  have "length (trees empty_pool) + 2 * length [TxTransact transact1] < tree_bound"
    by (simp add: empty_pool_def tree_bound_def)
  note room = this
  have keep: "\<forall>m \<in> set [TxTransact transact1]. keeps_depth ext1 3 m" by simp
  show ?thesis using pool_refined [OF run store1_empty_pool keep room] by (elim exE conjE) (intro exI conjI)
qed

subsection \<open>Exactly when a message succeeds\<close>

text \<open>What a message needs besides the state of the pool.\<close>

fun message_backed :: "('vk, 'b) ext \<Rightarrow> message \<Rightarrow> 'b chain \<Rightarrow> bool" where
  "message_backed E (TxRegister m) c \<longleftrightarrow> register_backed E m c"
| "message_backed E (TxDeposit m) c \<longleftrightarrow> deposit_backed E m c"
| "message_backed E (TxTransact m) c \<longleftrightarrow> transact_backed E m c"
| "message_backed E (TxUpdateParams u) c \<longleftrightarrow> addrToBytes E (up_Authority u) = Inr (authority E) \<and>
     (\<exists>p bz. up_Params u = Some p \<and> Params_Validate p = Inr () \<and> marshalParams E p = Inr bz)"
| "message_backed E (TxSetVK v) c \<longleftrightarrow> addrToBytes E (svk_Authority v) = Inr (authority E) \<and>
     validCircuitNames (CircuitName v) \<and> (\<exists>bz. NormalizeVKData E (VkData v) = Inr bz)"

lemma step_governance_iff:
  "(\<exists>c'. step E (TxUpdateParams u) c c') \<longleftrightarrow> message_backed E (TxUpdateParams u) c"
  "(\<exists>c'. step E (TxSetVK v) c c') \<longleftrightarrow> message_backed E (TxSetVK v) c"
  by (auto simp: step_simps UpdateParams_Inr_iff SetVK_Inr_iff)

text \<open>C8: Exactly when a message succeeds.  On a store that represents an abstract pool a message of
  any of the five kinds succeeds if and only if the pool accepts it (its notes, identity and
  nullifiers are new and its roots known) and it is backed: public inputs that parse and match,
  a proof the verifier accepts, gas for one verification, the configured auditor and chain
  binding, a supported denomination and a bank that makes the payments; for the messages of
  governance the authority and valid contents.  So nothing else can block a message, and none of
  these can be missing.\<close>

theorem succeeds_exactly_when:
  assumes "represents E d (kv c) P" and "Suc (Suc (length (trees P))) < tree_bound"
  shows "(\<exists>c'. step E m c c') \<longleftrightarrow> pool_accepts E d m P \<and> message_backed E m c"
proof (cases m)
  case (TxRegister rm)
  with Register_iff [OF assms(1), of rm] show ?thesis by (auto simp only: step_simps message_backed.simps)
next
  case (TxDeposit dm)
  have "Suc (length (trees P)) < tree_bound" using assms(2) by simp
  from Deposit_iff [OF assms(1) this, of dm] TxDeposit show ?thesis by (auto simp only: step_simps message_backed.simps)
next
  case (TxTransact tm)
  with Transact_iff [OF assms, of tm] show ?thesis by (auto simp only: step_simps message_backed.simps)
qed (simp_all add: step_governance_iff del: message_backed.simps)

theorem succeeds_exactly_when_witness:
  "\<exists>t. step ext1 (TxTransact transact1) funded1 t"
proof -
  have rep: "represents ext1 3 (kv funded1) empty_pool" using store1_empty_pool by (simp add: funded1_def)
  have "Suc (Suc (length (trees empty_pool))) < tree_bound" by (simp add: empty_pool_def tree_bound_def)
  from succeeds_exactly_when [OF rep this, of "TxTransact transact1"] transact1_accepted
    transact1_backed [of "[(''in'', bytes_of ''ann'', [(''anix'', 100)])]"]
  show ?thesis by (simp add: funded1_def)
qed

subsection \<open>How long a root can be spent against\<close>

lemma last_forest_insert:
  "forest_insert d css c \<noteq> [] \<and> last (forest_insert d css c) \<noteq> []"
  by (simp add: forest_insert_def Let_def)

text \<open>C9: How long a depositor can spend against the root of the deposit, as long as no message changes
  the depth of the trees (and there is room for the trees).  The root a deposit returns stays valid
  through any run of such messages that inserts fewer than a hundred notes.  It stays valid through
  all such runs when the leaf is among the last hundred places of its tree, because a full tree does not
  evict its roots; raising the depth would make the tree go on.\<close>

theorem root_lifetime:
  assumes "Deposit E msg c = (Inr (idx, root), c')" and "represents E d (kv c) P"
    and "runs E ms (kv c') t" and "\<forall>m \<in> set ms. keeps_depth E d m"
    and "length (trees P) + 2 * length ms + 2 < tree_bound"
    and "notes_in ms < 100 \<or> 2 ^ d < unat idx + 101"
  shows "IsValidRootAnyTree E t root = Inr True"
proof -
  let ?P = "pool_step d (TxDeposit msg) P" and ?css = "forest_insert d (trees P) (dep_NoteCommitment msg)"
  let ?k = "length ?css - 1"
  have rep: "zero_hash_laws E" "depth_is E (kv c) d" "forest_ok E d (kv c) (trees P)"
    using assms(2) by (simp_all add: represents_def)
  have "Suc (length (trees P)) < tree_bound" using assms(5) by simp
  note dep = Deposit_forest [OF assms(1) rep(3,2,1) this]
  have rep': "represents E d (kv c') ?P"
    using represents_step [OF step_deposit [OF assms(1)] assms(2)] assms(5) by simp
  have "length (trees ?P) + 2 * length ms < tree_bound"
    using pool_step_trees [of d "TxDeposit msg" P] assms(5) by simp
  from poolMachine.runs_refine [OF assms(3) rep' assms(4) this] obtain Q where
    ex: "pool_exec E d ms ?P = Some Q" and repQ: "represents E d t Q" by blast
  note some = last_forest_insert [of d "trees P" "dep_NoteCommitment msg"]
  have k: "?k < length (trees ?P)" and last: "trees ?P ! ?k = last ?css" using some by (simp_all add: last_conv_nth)
  have ne: "trees ?P ! ?k \<noteq> []" unfolding last using some by blast
  have len: "length (last ?css) \<le> 2 ^ d" using tree_length [OF dep(1), of ?k] k last by simp
  have "d < 64" using rep(2) by (simp add: depth_is_def)
  then have "(2 :: nat) ^ d < 2 ^ 64" by (rule power_strict_increasing) simp
  with len have "length (last ?css) - 1 < 2 ^ 64" by linarith
  then have "unat idx = length (last ?css) - 1" unfolding dep(3) by (rule unat_of_nat_u64)
  with ne last have "length (trees ?P ! ?k) = Suc (unat idx)" by (cases "last ?css") simp_all
  with assms(6) have "notes_in ms < 100 \<or> 2 ^ d < length (trees ?P ! ?k) + 100" by linarith
  from root_stays_known [OF ex k ne repQ this] show ?thesis by (simp only: dep(2) last)
qed

text \<open>A second deposit after the first.\<close>

lemma two_deposits:
  assumes "Deposit ext1 deposit1 chain1 = (Inr (idx, root), c')"
  shows "\<exists>r c''. Deposit ext1 (deposit_of 7) c' = (Inr r, c'')"
proof -
  have st: "step ext1 (TxDeposit deposit1) chain1 c'" using assms by (rule step_deposit)
  note t = step_touches [OF st]
  have rep0: "represents ext1 3 (kv chain1) empty_pool" using store1_empty_pool by simp
  have rep: "represents ext1 3 (kv c') (pool_step 3 (TxDeposit deposit1) empty_pool)"
    using represents_step [OF st rep0] by (simp add: empty_pool_def tree_bound_def)
  have p: "GetParams ext1 (kv c') = Inr params1"
    using GetParams_frame [OF t, of ext1] params1_read by auto
  have vk: "GetVerificationKeyFromState (kv c') ''deposit'' = Some [9]"
    using touches_get [OF t, of "KVK ''deposit''"] by (auto simp: GetVerificationKeyFromState_def store1_get)
  let ?css = "forest_insert 3 [] (dep_NoteCommitment deposit1)"
  have f: "forest_ok ext1 3 (kv c') ?css" "depth_is ext1 (kv c') 3"
    using rep by (simp_all add: represents_def empty_pool_def)
  have "fr_of_int 7 \<notin> SetBytes ` set (concat ?css)"
    by (simp add: forest_insert_def deposit1_def fr_of_int_eq_iff fr_modulus_def)
  moreover have "Suc (length ?css) < tree_bound" by (simp add: forest_insert_def tree_bound_def)
  ultimately show ?thesis using deposit_of_runs [OF _ p _ vk f] by blast
qed

theorem root_lifetime_witness:
  "\<exists>idx root c' r c''. Deposit ext1 deposit1 chain1 = (Inr (idx, root), c') \<and>
    Deposit ext1 (deposit_of 7) c' = (Inr r, c'') \<and> runs ext1 [TxDeposit (deposit_of 7)] (kv c') (kv c'') \<and>
    IsValidRootAnyTree ext1 (kv c'') root = Inr True"
proof -
  obtain idx root c' where run: "Deposit ext1 deposit1 chain1 = (Inr (idx, root), c')"
    using deposit1_runs by blast
  obtain r c'' where next2: "Deposit ext1 (deposit_of 7) c' = (Inr r, c'')" using two_deposits [OF run] by blast
  have rep: "represents ext1 3 (kv chain1) empty_pool" using store1_empty_pool by simp
  have runs: "runs ext1 [TxDeposit (deposit_of 7)] (kv c') (kv c'')"
    by (rule runs_cons [OF refl step_deposit [OF next2] runs_nil])
  have "IsValidRootAnyTree ext1 (kv c'') root = Inr True"
    by (rule root_lifetime [OF run rep runs]) (simp_all add: empty_pool_def tree_bound_def notes_in_def)
  with run next2 runs show ?thesis by blast
qed

end
