(* ===== verification/Client.thy ===== *)
theory Client
  imports Cli Refinement
begin

section \<open>What a user sees of the pool\<close>

text \<open>
  The query commands of the client against a node: the command line is decoded, the query server
  reads the store, the answer is printed.  On a store that represents an abstract pool the printed
  text is the text of that pool.
\<close>

definition tree_info_text :: "('vk, 'b) ext \<Rightarrow> nat \<Rightarrow> bytes list list \<Rightarrow> string" where
  "tree_info_text E d css =
     ''Root: '' @ fmt_hex (frBytes (roots_of E d (last css))) @ newline @
     ''NextIndex: '' @ fmt_nat (length (last css)) @ newline @
     ''Depth: '' @ fmt_nat 20 @ newline @
     ''ActiveTreeId: '' @ fmt_nat (length css - 1) @ newline @
     ''TreeCount: '' @ fmt_nat (length css) @ newline"

lemma tree_words:
  assumes f: "forest_ok E d s css" and dep: "depth_is E s d" and ne: "css \<noteq> []"
  shows "unat (of_nat (length (last css)) :: u64) = length (last css)"
    "unat (of_nat (length css) :: u64) = length css" "unat (of_nat (length css - 1) :: u64) = length css - 1"
proof -
  have "d < 64" using dep by (simp add: depth_is_def)
  then have "(2 :: nat) ^ d < 2 ^ 64" by (rule power_strict_increasing) simp
  moreover have "length (last css) \<le> 2 ^ d"
    using tree_length [OF f, of "length css - 1"] ne by (simp add: last_conv_nth)
  ultimately show "unat (of_nat (length (last css)) :: u64) = length (last css)"
    by (intro unat_of_nat_u64) linarith
  have "length css < 2 ^ 64" using f by (simp add: forest_ok_def tree_bound_def)
  then show "unat (of_nat (length css) :: u64) = length css"
    "unat (of_nat (length css - 1) :: u64) = length css - 1" by (intro unat_of_nat_u64; linarith)+
qed

lemma rewrap_ok: "rewrapE t (Inr v) = Inr v"
  by simp

text \<open>C32: What the query commands print is the pool.  Against a node whose store represents an
  abstract pool, \<open>nullifier-status\<close> of any bytes in hexadecimal says whether their field element is
  in the spent set, \<open>registration-root\<close> prints the Merkle root of the registered identities, \<open>root\<close>
  and \<open>tree-info\<close> the Merkle root, size and number of the last tree and the number of trees; the
  depth printed is always 20, whatever depth the trees have.\<close>

theorem client_sees_pool:
  assumes "represents E d s P" and "queryContext env = Inr ()" and "trees P \<noteq> []"
  shows "CmdQueryNullifierStatus (node_client E sp s) env [fmt_hex n] =
      Inr (''Spent: '' @ (if SetBytes n \<in> spent P then ''true'' else ''false'') @ newline) \<and>
    CmdQueryRegistrationRoot (node_client E sp s) env [] =
      Inr (''RegistrationRoot: '' @ fmt_hex (frBytes (roots_of E reg_depth (identities P))) @ newline) \<and>
    CmdQueryRoot (node_client E sp s) env [] =
      Inr (''Root: '' @ fmt_hex (frBytes (roots_of E d (last (trees P)))) @ newline) \<and>
    CmdQueryTreeInfo (node_client E sp s) env [] = Inr (tree_info_text E d (trees P))"
proof -
  have f: "forest_ok E d s (trees P)" and dep: "depth_is E s d" and g: "reg_ok E s (identities P)"
    and spent: "nullifier_spent s x \<longleftrightarrow> x \<in> spent P" for x using assms(1) by (simp_all add: represents_def)
  have sp: "IsNullifierSpent s n \<longleftrightarrow> SetBytes n \<in> spent P" by (simp only: IsNullifierSpent_eq spent)
  have args: "ExactArgs k args = Inr ()" if "length args = k" for k and args :: "string list"
    using that by simp
  note info = TreeInfo_forest [OF f assms(3)] and words = tree_words [OF f dep assms(3)]
  have "GetMerkleRoot E s = Inr (frBytes (roots_of E d (last (trees P))))"
    using active_tree [OF f assms(3)] by (simp add: GetMerkleRoot_def GetTreeRoot_def note_tree_def)
  then have root: "Query_Root E s = Inr (frBytes (roots_of E d (last (trees P))))" by (simp add: Query_Root_def)
  have reg: "Query_RegistrationRoot E s = Inr (frBytes (roots_of E reg_depth (identities P)))"
    using g by (simp add: Query_RegistrationRoot_def reg_ok_def)
  have dep20: "unat DefaultTreeDepth = 20" by (simp add: DefaultTreeDepth_def)
  show ?thesis
    by (simp only: CmdQueryNullifierStatus_def CmdQueryRegistrationRoot_def CmdQueryRoot_def
        CmdQueryTreeInfo_def node_client_def query_client.simps assms(2) args bindE_simps info root reg
        QueryTreeInfoResponse.simps words dep20 tree_info_text_def list.size nth_Cons_0 rewrap_ok
        hexCodec.dec_enc Query_NullifierStatus_def sp)
qed

definition node_env :: cli_env where
  "node_env = \<lparr>txContext = Inr ''ann'', queryContext = Inr (), readFile = (\<lambda>f. Inr []),
     flagGiven = (\<lambda>f. None), jsonFlag = False, unmarshalNotes = (\<lambda>b. Inr []), marshalIndent = (\<lambda>m. Inr '''')\<rparr>"

theorem client_sees_pool_witness:
  "\<exists>idx root c'. Deposit ext1 deposit1 chain1 = (Inr (idx, root), c') \<and>
    CmdQueryNullifierStatus (node_client ext1 (\<lambda>p. []) (kv c')) node_env [fmt_hex [8]] =
      Inr (''Spent: '' @ ''false'' @ newline) \<and>
    CmdQueryTreeInfo (node_client ext1 (\<lambda>p. []) (kv c')) node_env [] =
      Inr (tree_info_text ext1 3 [[frBytes (fr_of_int 6)]])"
proof -
  let ?P = "pool_step 3 (TxDeposit deposit1) empty_pool"
  obtain idx root c' where run: "Deposit ext1 deposit1 chain1 = (Inr (idx, root), c')"
    using deposit1_runs by blast
  have base: "represents ext1 3 (kv chain1) empty_pool" using store1_empty_pool by simp
  have rep: "represents ext1 3 (kv c') ?P"
    using represents_step [OF step_deposit [OF run] base] by (simp add: empty_pool_def tree_bound_def)
  have env: "queryContext node_env = Inr ()" by (simp add: node_env_def)
  have P: "trees ?P = [[frBytes (fr_of_int 6)]]" "spent ?P = {}"
    by (simp_all add: empty_pool_def forest_insert_def deposit1_def)
  have "trees ?P \<noteq> []" unfolding P by simp
  from client_sees_pool [OF rep env this, of "\<lambda>p. []" "[8]"] run show ?thesis
    unfolding P empty_iff if_False by blast
qed

end
