(* ===== verification/Wiring.thy ===== *)
theory Wiring
  imports Module Cli Safety
begin

section \<open>What the application gets: services, registered messages, commands\<close>

text \<open>
  \<open>NewMsgServerImpl\<close> and \<open>NewQueryServerImpl\<close>, \<open>RegisterServices\<close> and the rest of
  \<open>module/module.go\<close> and \<open>types/codec.go\<close>: the services are the records of their methods, a
  registration is the list of what it registers.  A message the SDK delivers reaches the method
  of its type, and the steps of \<open>Safety\<close> are the deliveries that succeed.
\<close>

subsection \<open>The two services\<close>

record 'b msg_server =
  msRegister :: "MsgRegister \<Rightarrow> ('b chain, u64 \<times> bytes) M"
  msDeposit :: "MsgDeposit \<Rightarrow> ('b chain, u64 \<times> bytes) M"
  msTransact :: "MsgTransact \<Rightarrow> ('b chain, u64 list \<times> bytes) M"
  msUpdateParams :: "MsgUpdateParams \<Rightarrow> ('b chain, unit) M"
  msSetVerificationKey :: "MsgSetVerificationKey \<Rightarrow> ('b chain, unit) M"

definition NewMsgServerImpl :: "('vk, 'b) ext \<Rightarrow> 'b msg_server" where
  "NewMsgServerImpl keeper = \<lparr>msRegister = Register keeper, msDeposit = Deposit keeper,
     msTransact = Transact keeper, msUpdateParams = UpdateParams keeper,
     msSetVerificationKey = Msg_SetVerificationKey keeper\<rparr>"

record query_server =
  qsRoot :: "store \<Rightarrow> err + bytes"
  qsNullifierStatus :: "store \<Rightarrow> bytes \<Rightarrow> err + bool"
  qsTreeInfo :: "store \<Rightarrow> err + QueryTreeInfoResponse"
  qsParams :: "store \<Rightarrow> err + params"
  qsRegistrationRoot :: "store \<Rightarrow> err + bytes"
  qsAuditorKey :: "store \<Rightarrow> err + bytes"
  qsSupportedDenoms :: "store \<Rightarrow> err + string list"

definition NewQueryServerImpl :: "('vk, 'b) ext \<Rightarrow> query_server" where
  "NewQueryServerImpl keeper = \<lparr>qsRoot = Query_Root keeper, qsNullifierStatus = Query_NullifierStatus,
     qsTreeInfo = Query_TreeInfo keeper, qsParams = Query_Params keeper,
     qsRegistrationRoot = Query_RegistrationRoot keeper, qsAuditorKey = Query_AuditorKey keeper,
     qsSupportedDenoms = Query_SupportedDenoms keeper\<rparr>"

subsection \<open>The module\<close>

text \<open>The codec and the bank keeper are held and never used; the keeper is the environment.\<close>

record ('cdc, 'bank, 'vk, 'b) AppModule =
  am_cdc :: 'cdc
  am_keeper :: "('vk, 'b) ext"
  am_bankKeeper :: 'bank

definition NewAppModule :: "'cdc \<Rightarrow> ('vk, 'b) ext \<Rightarrow> 'bank \<Rightarrow> ('cdc, 'bank, 'vk, 'b) AppModule" where
  "NewAppModule cdc keeper bankKeeper =
     \<lparr>am_cdc = cdc, am_keeper = keeper, am_bankKeeper = bankKeeper\<rparr>"

text \<open>What the module is built from and what it provides.  The store service, the bank and the other
  packages are the environment, whose authority \<open>ProvideModule\<close> sets; \<open>newModuleAddress\<close> and
  \<open>moduleOrBech32\<close> are \<open>authtypes.NewModuleAddress\<close> and \<open>NewModuleAddressOrBech32Address\<close>.\<close>

record ('cdc, 'bank, 'vk, 'b) ModuleInputs =
  in_Authority :: string
  in_StoreService :: "('vk, 'b) ext"
  in_Cdc :: 'cdc
  in_AddressCodec :: "bytes \<Rightarrow> err + string"
  in_BankKeeper :: 'bank

record ('cdc, 'bank, 'vk, 'b) ModuleOutputs =
  out_NixKeeper :: "('vk, 'b) ext"
  out_Module :: "('cdc, 'bank, 'vk, 'b) AppModule"

definition ProvideModule ::
    "(string \<Rightarrow> bytes) \<Rightarrow> (string \<Rightarrow> bytes) \<Rightarrow> ('cdc, 'bank, 'vk, 'b) ModuleInputs \<Rightarrow>
      err + ('cdc, 'bank, 'vk, 'b) ModuleOutputs" where
  "ProvideModule newModuleAddress moduleOrBech32 inp =
     (let auth = (if in_Authority inp \<noteq> '''' then moduleOrBech32 (in_Authority inp)
                  else newModuleAddress GovModuleName)
      in bindE (NewKeeper (in_AddressCodec inp) auth (in_StoreService inp)) (\<lambda>k.
         Inr \<lparr>out_NixKeeper = k, out_Module = NewAppModule (in_Cdc inp) k (in_BankKeeper inp)\<rparr>))"

definition RegisterServices :: "('cdc, 'bank, 'vk, 'b) AppModule \<Rightarrow> err + 'b msg_server \<times> query_server" where
  "RegisterServices am = Inr (NewMsgServerImpl (am_keeper am), NewQueryServerImpl (am_keeper am))"

text \<open>The types registered as implementations of \<open>sdk.Msg\<close>, by name.\<close>

definition RegisterInterfaces :: "string list" where
  "RegisterInterfaces = [''MsgRegister'', ''MsgDeposit'', ''MsgTransact'', ''MsgUpdateParams'',
     ''MsgSetVerificationKey'']"

definition AppModule_RegisterLegacyAminoCodec :: "string list" where
  "AppModule_RegisterLegacyAminoCodec = RegisterLegacyAminoCodec"

definition AppModule_RegisterInterfaces :: "string list" where
  "AppModule_RegisterInterfaces = RegisterInterfaces"

definition AppModule_GetTxCmd :: "string list" where
  "AppModule_GetTxCmd = GetTxCmd"

definition AppModule_GetQueryCmd :: "string list" where
  "AppModule_GetQueryCmd = GetQueryCmd"

text \<open>No route is registered with the gateway.\<close>

definition RegisterGRPCGatewayRoutes :: "string list" where
  "RegisterGRPCGatewayRoutes = []"

subsection \<open>Deliveries\<close>

text \<open>The outcome of delivering a message to a server, without the response.\<close>

fun deliver :: "'b msg_server \<Rightarrow> message \<Rightarrow> 'b chain \<Rightarrow> (err + unit) \<times> 'b chain" where
  "deliver S (TxRegister m) c = apfst (map_sum id (\<lambda>_. ())) (msRegister S m c)"
| "deliver S (TxDeposit m) c = apfst (map_sum id (\<lambda>_. ())) (msDeposit S m c)"
| "deliver S (TxTransact m) c = apfst (map_sum id (\<lambda>_. ())) (msTransact S m c)"
| "deliver S (TxUpdateParams m) c = msUpdateParams S m c"
| "deliver S (TxSetVK m) c = msSetVerificationKey S m c"

lemma drop_response:
  "apfst (map_sum id (\<lambda>_. ())) x = (Inr (), c) \<longleftrightarrow> (\<exists>r. x = (Inr r, c))"
proof (cases x)
  case (Pair r d)
  then show ?thesis by (cases r) auto
qed

lemma step_deliver:
  assumes "RegisterServices am = Inr (S, Q)"
  shows "step (am_keeper am) m c c' \<longleftrightarrow> deliver S m c = (Inr (), c')"
proof -
  have S: "S = NewMsgServerImpl (am_keeper am)" using assms by (simp add: RegisterServices_def)
  show ?thesis unfolding S
    by (cases m) (auto simp only: NewMsgServerImpl_def msg_server.simps deliver.simps drop_response
        step_simps)
qed

text \<open>The authority the module is provided with is the configured one, or that of governance: a
  governance message delivered to it succeeds only if it carries this address.\<close>

lemma provided_authority:
  assumes "ProvideModule newAddr orBech32 inp = Inr out"
    and "RegisterServices (out_Module out) = Inr (S, Q)" and "deliver S m c = (Inr (), c')"
    and "m = TxUpdateParams u \<and> a = up_Authority u \<or> m = TxSetVK v \<and> a = svk_Authority v"
  shows "addrToBytes (in_StoreService inp) a =
    Inr (if in_Authority inp \<noteq> '''' then orBech32 (in_Authority inp) else newAddr GovModuleName)"
    (is "_ = Inr ?auth")
proof -
  have k: "am_keeper (out_Module out) = in_StoreService inp\<lparr>authority := ?auth\<rparr>"
    using assms(1)
    by (auto simp: ProvideModule_def NewKeeper_def NewAppModule_def Let_def bindE_Inr_iff
        split: sum.splits if_splits)
  have "addrToBytes (am_keeper (out_Module out)) a = Inr (authority (am_keeper (out_Module out)))"
    using assms(2-4)
    by (auto simp: RegisterServices_def NewMsgServerImpl_def SetVK_Inr_iff UpdateParams_Inr_iff)
  then show ?thesis by (simp add: k)
qed

end
