(* ===== verification/Delivery.thy ===== *)
theory Delivery
  imports Wiring MessageSpec Admission
begin

section \<open>From the wire to a handler\<close>

text \<open>
  The method handlers of the generated service (\<open>types/tx.pb.go\<close>): a request is decoded into a new
  message and handed to the server, through the interceptor when there is one.  With the codec of
  \<open>Messages\<close> as the decoder, the bytes a client writes reach the handler as the message they were
  written from, and no byte string makes the decoder panic.
\<close>

type_synonym ('b, 'm, 'r) interceptor = "string \<Rightarrow> ('m \<Rightarrow> ('b chain, 'r) M) \<Rightarrow> 'm \<Rightarrow> ('b chain, 'r) M"

definition Msg_Register_Handler ::
    "'b msg_server \<Rightarrow> (MsgRegister \<Rightarrow> err + MsgRegister) \<Rightarrow> ('b, MsgRegister, u64 \<times> bytes) interceptor option \<Rightarrow>
      ('b chain, u64 \<times> bytes) M" where
  "Msg_Register_Handler srv dec interceptor =
     bindM (liftE (dec MsgRegister_blank)) (\<lambda>req.
     case interceptor of
       None \<Rightarrow> msRegister srv req
     | Some call \<Rightarrow> call ''/nixprotocol.privacy.v1.Msg/Register'' (msRegister srv) req)"

definition Msg_Deposit_Handler ::
    "'b msg_server \<Rightarrow> (MsgDeposit \<Rightarrow> err + MsgDeposit) \<Rightarrow> ('b, MsgDeposit, u64 \<times> bytes) interceptor option \<Rightarrow>
      ('b chain, u64 \<times> bytes) M" where
  "Msg_Deposit_Handler srv dec interceptor =
     bindM (liftE (dec MsgDeposit_blank)) (\<lambda>req.
     case interceptor of
       None \<Rightarrow> msDeposit srv req
     | Some call \<Rightarrow> call ''/nixprotocol.privacy.v1.Msg/Deposit'' (msDeposit srv) req)"

definition Msg_Transact_Handler ::
    "'b msg_server \<Rightarrow> (MsgTransact \<Rightarrow> err + MsgTransact) \<Rightarrow>
      ('b, MsgTransact, u64 list \<times> bytes) interceptor option \<Rightarrow> ('b chain, u64 list \<times> bytes) M" where
  "Msg_Transact_Handler srv dec interceptor =
     bindM (liftE (dec MsgTransact_blank)) (\<lambda>req.
     case interceptor of
       None \<Rightarrow> msTransact srv req
     | Some call \<Rightarrow> call ''/nixprotocol.privacy.v1.Msg/Transact'' (msTransact srv) req)"

definition Msg_UpdateParams_Handler ::
    "'b msg_server \<Rightarrow> (MsgUpdateParams \<Rightarrow> err + MsgUpdateParams) \<Rightarrow>
      ('b, MsgUpdateParams, unit) interceptor option \<Rightarrow> ('b chain, unit) M" where
  "Msg_UpdateParams_Handler srv dec interceptor =
     bindM (liftE (dec MsgUpdateParams_blank)) (\<lambda>req.
     case interceptor of
       None \<Rightarrow> msUpdateParams srv req
     | Some call \<Rightarrow> call ''/nixprotocol.privacy.v1.Msg/UpdateParams'' (msUpdateParams srv) req)"

definition Msg_SetVerificationKey_Handler ::
    "'b msg_server \<Rightarrow> (MsgSetVerificationKey \<Rightarrow> err + MsgSetVerificationKey) \<Rightarrow>
      ('b, MsgSetVerificationKey, unit) interceptor option \<Rightarrow> ('b chain, unit) M" where
  "Msg_SetVerificationKey_Handler srv dec interceptor =
     bindM (liftE (dec MsgSetVerificationKey_blank)) (\<lambda>req.
     case interceptor of
       None \<Rightarrow> msSetVerificationKey srv req
     | Some call \<Rightarrow> call ''/nixprotocol.privacy.v1.Msg/SetVerificationKey'' (msSetVerificationKey srv) req)"

text \<open>The methods of the service by name, on the bytes of a request and without their responses; a
  name that is none of them is not served.\<close>

definition no_response :: "('s, 'r) M \<Rightarrow> ('s, unit) M" where
  "no_response h c = apfst (map_sum id (\<lambda>_. ())) (h c)"

definition Msg_serviceDesc :: "'b msg_server \<Rightarrow> string \<Rightarrow> bytes \<Rightarrow> ('b chain, unit) M" where
  "Msg_serviceDesc srv name bz =
     (if name = ''Register'' then no_response (Msg_Register_Handler srv (MsgRegister_Unmarshal bz) None)
      else if name = ''Deposit'' then no_response (Msg_Deposit_Handler srv (MsgDeposit_Unmarshal bz) None)
      else if name = ''Transact'' then no_response (Msg_Transact_Handler srv (MsgTransact_Unmarshal bz) None)
      else if name = ''UpdateParams'' then Msg_UpdateParams_Handler srv (MsgUpdateParams_Unmarshal bz) None
      else if name = ''SetVerificationKey'' then
        Msg_SetVerificationKey_Handler srv (MsgSetVerificationKey_Unmarshal bz) None
      else throwM (Ext ''unknown method''))"

text \<open>A message of any type: its method, its size, its bytes.\<close>

fun method_of :: "message \<Rightarrow> string" where
  "method_of (TxRegister m) = ''Register''"
| "method_of (TxDeposit m) = ''Deposit''"
| "method_of (TxTransact m) = ''Transact''"
| "method_of (TxUpdateParams m) = ''UpdateParams''"
| "method_of (TxSetVK m) = ''SetVerificationKey''"

fun message_Size :: "message \<Rightarrow> nat" where
  "message_Size (TxRegister m) = MsgRegister_Size m"
| "message_Size (TxDeposit m) = MsgDeposit_Size m"
| "message_Size (TxTransact m) = MsgTransact_Size m"
| "message_Size (TxUpdateParams m) = MsgUpdateParams_Size m"
| "message_Size (TxSetVK m) = MsgSetVerificationKey_Size m"

fun message_Marshal :: "message \<Rightarrow> err + bytes" where
  "message_Marshal (TxRegister m) = MsgRegister_Marshal m"
| "message_Marshal (TxDeposit m) = MsgDeposit_Marshal m"
| "message_Marshal (TxTransact m) = MsgTransact_Marshal m"
| "message_Marshal (TxUpdateParams m) = MsgUpdateParams_Marshal m"
| "message_Marshal (TxSetVK m) = MsgSetVerificationKey_Marshal m"

lemmas marshal_defs = MsgRegister_Marshal_def MsgDeposit_Marshal_def MsgTransact_Marshal_def
  MsgUpdateParams_Marshal_def MsgSetVerificationKey_Marshal_def

lemmas marshal_wires = MsgRegisterWire.marshal_wire MsgDepositWire.marshal_wire
  MsgTransactWire.marshal_wire MsgUpdateParamsWire.marshal_wire MsgSetVerificationKeyWire.marshal_wire

lemmas size_wires = MsgRegisterWire.size_wire MsgDepositWire.size_wire
  MsgTransactWire.size_wire MsgUpdateParamsWire.size_wire MsgSetVerificationKeyWire.size_wire

lemmas unmarshal_wires = MsgRegisterWire.unmarshal_wire MsgDepositWire.unmarshal_wire
  MsgTransactWire.unmarshal_wire MsgUpdateParamsWire.unmarshal_wire
  MsgSetVerificationKeyWire.unmarshal_wire

lemmas unmarshal_defs = MsgRegister_Unmarshal_def MsgDeposit_Unmarshal_def MsgTransact_Unmarshal_def
  MsgUpdateParams_Unmarshal_def MsgSetVerificationKey_Unmarshal_def

text \<open>C34: \<open>Marshal\<close> is exact for every message: it allocates \<open>Size\<close> bytes, writes from the end, never
  leaves the buffer and fills it completely, so it returns exactly that many bytes; in
  particular the formula for the size of a varint is right for every number.\<close>

theorem marshal_exact:
  "\<exists>bz. message_Marshal m = Inr bz \<and> length bz = message_Size m"
  by (cases m) (auto simp: marshal_defs marshal_wires simp flip: size_wires)

lemmas unmarshal_extendeds = MsgRegisterWire.unmarshal_extended MsgDepositWire.unmarshal_extended
  MsgTransactWire.unmarshal_extended MsgUpdateParamsWire.unmarshal_extended
  MsgSetVerificationKeyWire.unmarshal_extended

text \<open>The fields a message has.\<close>

fun has_field :: "message \<Rightarrow> int \<Rightarrow> bool" where
  "has_field (TxRegister m) n \<longleftrightarrow> MsgRegister_fields n \<noteq> None"
| "has_field (TxDeposit m) n \<longleftrightarrow> MsgDeposit_fields n \<noteq> None"
| "has_field (TxTransact m) n \<longleftrightarrow> MsgTransact_fields n \<noteq> None"
| "has_field (TxUpdateParams m) n \<longleftrightarrow> MsgUpdateParams_fields n \<noteq> None"
| "has_field (TxSetVK m) n \<longleftrightarrow> MsgSetVerificationKey_fields n \<noteq> None"

text \<open>C40: What a client writes is what a handler gets: the bytes of a message, sent to the method of
  its type, have exactly the outcome of delivering the message, on every state of the chain.  So
  they have when any number of fields follow that the message does not have: of any field number
  that fits an \<open>int32\<close> and any wire type, a varint, eight or four bytes, a length-delimited value, or
  a group, whose fields may be groups in turn.  All of them are skipped.  The whole is shorter
  than \<open>2 ^ 63\<close> bytes.\<close>

theorem wire_delivery:
  assumes "message_Marshal m = Inr bz"
    and "\<forall>u \<in> set us. unknown_ok u \<and> \<not> has_field m (uint (unknown_number u))"
    and "length (bz @ concat (map unknown_bytes us)) < 2 ^ 63"
  shows "Msg_serviceDesc srv (method_of m) (bz @ concat (map unknown_bytes us)) c = deliver srv m c"
  using assms
  by (cases m) (auto simp: marshal_defs marshal_wires Msg_serviceDesc_def unmarshal_defs unmarshal_extendeds
      Msg_Register_Handler_def Msg_Deposit_Handler_def Msg_Transact_Handler_def
      Msg_UpdateParams_Handler_def Msg_SetVerificationKey_Handler_def no_response_def bindM_def liftE_def
      simp del: length_append length_concat)

definition unknowns1 :: "unknown list" where
  "unknowns1 = [UVarint 31 300, UFixed64 32 [1, 2, 3, 4, 5, 6, 7, 8], ULen 33 [1, 2, 3],
     UGroup 34 [UVarint 1 7, UGroup 2 [], UFixed32 3 [9, 9, 9, 9]], UFixed32 35 [1, 2, 3, 4]]"

lemma unknowns1_small: "length (concat (map unknown_bytes unknowns1)) \<le> 200"
  using length_enc_varint [of "wire_tag 31 0"] length_enc_varint [of 300] length_enc_varint [of "wire_tag 32 1"]
    length_enc_varint [of "wire_tag 33 2"] length_enc_varint [of 3] length_enc_varint [of "wire_tag 34 3"]
    length_enc_varint [of "wire_tag 1 0"] length_enc_varint [of 7] length_enc_varint [of "wire_tag 2 3"]
    length_enc_varint [of "wire_tag 2 4"] length_enc_varint [of "wire_tag 3 5"]
    length_enc_varint [of "wire_tag 34 4"] length_enc_varint [of "wire_tag 35 5"]
  by (simp add: unknowns1_def)

theorem wire_delivery_witness:
  "\<exists>bz. message_Marshal (TxTransact transact1) = Inr bz \<and>
    Msg_serviceDesc (NewMsgServerImpl ext1) ''Transact'' (bz @ concat (map unknown_bytes unknowns1)) chain1 =
      (Inr (), chain1')"
proof -
  let ?bz = "MsgTransact_wire transact1"
  have bz: "message_Marshal (TxTransact transact1) = Inr ?bz" by (simp add: marshal_defs marshal_wires)
  have "length ?bz < 2000"
    by (simp add: MsgTransactWire.size_wire [symmetric] small_sizes MsgTransact_Size_def
        transact1_def OutputNote_Size_def no_output_def elem32_def zero32_def)
  then have "length (?bz @ concat (map unknown_bytes unknowns1)) < 2 ^ 63"
    using unknowns1_small by simp
  moreover have "\<forall>u \<in> set unknowns1. unknown_ok u \<and> \<not> has_field (TxTransact transact1) (uint (unknown_number u))"
    by (simp add: unknowns1_def MsgTransact_fields_def)
  moreover have "deliver (NewMsgServerImpl ext1) (TxTransact transact1) chain1 = (Inr (), chain1')"
    using transact1_runs by (simp add: NewMsgServerImpl_def)
  ultimately show ?thesis
    using wire_delivery [OF bz, of unknowns1 "NewMsgServerImpl ext1" chain1] bz by auto
qed

end
