(* ===== verification/Spec2Isabelle.thy ===== *)
theory Spec2Isabelle
  imports Governance DepthChange Admission ErrorPaths Limbs Client Delivery
begin

text \<open>
  \<^bold>\<open>cosmos-nixpool: a privacy pool as a Cosmos SDK module\<close>

  The program keeps shielded notes.  A deposit escrows coins and appends a note commitment to a
  Merkle tree; a transact consumes up to two notes by publishing their nullifiers with a
  zero-knowledge proof against known roots, appends up to two new notes and may pay coins out and a
  fee to the relayer; a registration appends an identity commitment to a tree of its own;
  governance sets the parameters and the verification keys.  This development models the Go code
  of \<open>types\<close>, \<open>keeper\<close>, \<open>crypto\<close>, \<open>client/cli\<close> and \<open>module\<close> and proves what the pool relies on.

  \<^bold>\<open>Theories, in the order of the code.\<close>
  \<^item> \<open>Prelude\<close>, \<open>Text\<close>, \<open>Field\<close>: bytes, errors (\<open>types/errors.go\<close>), the error-state monad with the
    locale \<open>step_relation\<close> for frames; hexadecimal, splitting and trimming as \<open>fmt\<close>, \<open>encoding/hex\<close>
    and \<open>strings\<close> do it; the elements of the BN254 scalar field with \<open>SetBytes\<close> and \<open>Bytes\<close>.
  \<^item> \<open>Keys\<close> (\<open>types/keys.go\<close>), \<open>Types\<close> (\<open>params.go\<close>, \<open>genesis.go\<close>, the message structs), \<open>Msgs\<close>
    (\<open>msgs.go\<close>): the key layout, the data, the stateless checks.
  \<^item> \<open>KVStore\<close>, \<open>Ext\<close>, \<open>Context\<close>: the store of the SDK as an ordered map of byte strings behind the
    locale \<open>kv_interface\<close>; the packages outside the repository as the fields of \<open>ext\<close>; what a
    handler sees of \<open>sdk.Context\<close> and the bank.
  \<^item> \<open>Keeper\<close> (\<open>keeper.go\<close>), \<open>RootIndex\<close>, \<open>Forest\<close>, \<open>Registration\<close> (\<open>merkle.go\<close>), \<open>Verify\<close>
    (\<open>verify.go\<close>), \<open>MsgServer\<close> (\<open>msg_server.go\<close>), \<open>Query\<close> (\<open>query_server.go\<close>), \<open>Genesis\<close>
    (\<open>genesis.go\<close>): one definition per function, with the checks, writes and early returns in the
    order of the code; a handler that fails returns the state it had reached.
  \<^item> \<open>Wire\<close>, \<open>Messages\<close> (\<open>types/tx.pb.go\<close>, \<open>types/types.pb.go\<close>): the generated codec, with its buffer
    written from the end, its varint loops and its dispatch on field numbers; one group of
    definitions for each message.  \<open>Delivery\<close>: the method handlers of the generated service.
  \<^item> \<open>Grumpkin\<close>, \<open>ECIES\<close>, \<open>NixAddress\<close> (\<open>crypto\<close>), \<open>Cli\<close> (\<open>client/cli\<close>), \<open>Module\<close> and
    \<open>Wiring\<close> (\<open>module/module.go\<close>, \<open>depinject.go\<close>, \<open>types/codec.go\<close>): keys, encryption, addresses,
    commands, the entry points of the SDK, the services and what is registered.

  \<^bold>\<open>What the lemmas show.\<close>
  \<^item> \<open>MerkleSpec\<close> defines Merkle trees on lists of leaves and the climb along a frontier;
    \<open>Forest\<close>, \<open>ForestInv\<close>, \<open>NoteForest\<close> and \<open>Registration\<close> show that the stored trees refine
    append-only lists: \<open>forest_ok E d s css\<close> reads: the store \<open>s\<close> represents the trees \<open>css\<close> of
    depth \<open>d\<close>.  \<open>RootWindow\<close> says which roots are known: the current ones and the last hundred of
    each tree.
  \<^item> \<open>RootIndex\<close> and \<open>IndexInv\<close>: the reverse index holds for every root the number of slots that hold
    it, through every message, and so answers as a scan over all slots does.
  \<^item> \<open>Frames\<close>, \<open>Handlers\<close>, \<open>HandlerSpec\<close>: what each handler may write, what its success implies, what
    it does to the represented trees, when a deposit succeeds.
  \<^item> \<open>Safety\<close>: messages as steps and runs of messages; nullifiers, note commitments and identities
    are marks that a run sets at most once (one interpretation each of the locale
    \<open>one_time_marks\<close>); parameters and keys change by governance only.
  \<^item> \<open>Pool\<close> is the abstract specification: trees and identities as append-only lists, spent nullifiers
    as a set, one step for each message (the locale \<open>abstract_machine\<close>).  \<open>Exact\<close> gives for each
    handler the condition under which it succeeds, \<open>ErrorPaths\<close> what a failing handler may have
    done, \<open>Escrow\<close> what the pool's account holds after any messages, \<open>Refinement\<close> that every run
    of the handlers that keeps the tree depth is a run of the abstract pool, and how long a root is good.
  \<^item> \<open>WireSpec\<close> gives the bytes of varints and fields as lists, and how writers and readers compose;
    \<open>MessageSpec\<close> interprets the locale \<open>wire_message\<close> for every message: its size is exact and it is
    read back, also with unknown fields of every wire type behind it.  \<open>Delivery\<close> carries this to the
    handlers.  Indexing and slicing panic out of range (\<open>index_at\<close>, \<open>go_slice\<close>); \<open>Admission\<close> shows that no
    bytes make a decoder or a parser panic.
  \<^item> \<open>Limbs\<close>: the loop of \<open>stringToFieldElement\<close> with its counter as a signed 64-bit word and slices
    that panic; which elements it gives for a string.  \<open>Client\<close>: the text the query commands print
    for a node that represents an abstract pool.
  \<^item> \<open>GenesisSpec\<close>, \<open>GenesisIndex\<close>: what each stage of the import writes; export followed by import
    restores the represented state when its frontier slots can be stored; the imported index is exact
    whatever was imported.
  \<^item> \<open>Wallet\<close>, \<open>Lifecycle\<close>, \<open>Governance\<close>, \<open>DepthChange\<close>, \<open>Admission\<close> and this theory: the
    properties that join components, each with an application at a concrete input from
    \<open>Instances\<close>.  \<open>DepthChange\<close> shows a defect: raising the tree depth by one while the active tree is
    exactly full makes the next insertion publish a wrong root.

  \<^bold>\<open>Parameters and hypotheses.\<close>  Code outside the repository is a field of \<open>ext\<close>, \<open>curve\<close>, \<open>cli_env\<close>
  or \<open>genesis_json\<close>: Poseidon2, the UltraHonk verifier, the bank keeper, number, denomination and
  address parsing, JSON, the curve, the file system.  Where a theorem needs their documented
  behaviour it says so: \<open>zero_hash_laws\<close> (the zero subtrees are the hashes of zeros),
  \<open>prefix_end_law\<close>, \<open>json_law\<close>, \<open>key_laws\<close>, \<open>ecdh_law\<close>, \<open>bank_laws\<close> (a transfer moves the coins it
  names); each is satisfied by an instance of \<open>Instances\<close>, \<open>Lifecycle\<close>, \<open>Wallet\<close> or \<open>Escrow\<close>.

  \<^bold>\<open>Bounds.\<close>  Indices, tree numbers and counters are \<open>64 word\<close>, levels \<open>32 word\<close>; theorems about
  forests assume fewer than \<open>tree_bound = 2\<^sup>5\<^sup>6\<close> trees (for a run: at its end, two more for each
  message at most) and a depth below 64, the index theorems at
  most \<open>2\<^sup>5\<^sup>5\<close> messages: far more than a chain can hold, and small enough that no counter wraps
  (a hundred and one slots for each tree stay below \<open>2\<^sup>6\<^sup>4\<close>).  A message shorter than \<open>2\<^sup>6\<^sup>3\<close>
  bytes, as every Go slice is, is read back.  All loops are over lists, levels, string lengths or the indices of a
  buffer, so there is no fuel: each is a total function whose measure is what is left to run through.

  \<^bold>\<open>Not modelled.\<close>  The generated codec of queries, genesis and the module configuration, getters
  and descriptors, what the SDK does with the commands, services and codecs registered with it
  (the model has what is registered), gas charged by the SDK's store wrapper, the rollback of a
  failed transaction and the soundness of the proof system.  Interfaces
  (\<open>types/interfaces.go\<close>) appear as the fields that stand for them.
\<close>

section \<open>Properties\<close>

subsection \<open>Instances\<close>

lemma store1_run: "runs ext1 [TxTransact transact1] store1 (kv chain1')"
  by (rule runs_cons [OF chain1_kv step_transact [OF transact1_runs] runs_nil])

lemma store1_index: "forest_index store1 0"
proof -
  have "slot_root store1 = (\<lambda>_. None)"
  proof
    fix sl show "slot_root store1 sl = None"
      by (cases sl) (simp_all add: slot_root_def store1_get)
  qed
  moreover have "slice (kv_get store1 (skey_bytes (slot_skey sl))) = []" for sl
    by (cases sl) (simp_all add: store1_get)
  ultimately show ?thesis
    by (simp add: forest_index_def index_inv_def index_ok_def index_is_def index_entry_def holders_def
        root_slots_in_def roots_canonical_def GetTreeCount_def GetActiveTreeId_def kv_u64_def store1_get)
qed

subsection \<open>Double spending\<close>

text \<open>C1: In every run of messages no nullifier is spent twice: the field elements of the non-zero
  nullifiers of all successful transacts are pairwise different, whatever byte encodings the
  messages use, none was spent before the run, and after it exactly these and those spent before
  are spent.\<close>

theorem no_double_spend:
  assumes "runs E ms s t"
  shows "distinct (concat (map message_spends ms)) \<and>
    (\<forall>x \<in> set (concat (map message_spends ms)). \<not> nullifier_spent s x) \<and>
    (\<forall>x. nullifier_spent t x \<longleftrightarrow> nullifier_spent s x \<or> x \<in> set (concat (map message_spends ms)))"
  using assms by (rule nullifierMarks.runs_marks)

theorem no_double_spend_witness:
  "distinct (message_spends (TxTransact transact1)) \<and>
   \<not> nullifier_spent store1 (SetBytes (elem32 8)) \<and> nullifier_spent (kv chain1') (SetBytes (elem32 8))"
  using no_double_spend [OF store1_run] by (simp add: spends_def elem32_not_zero)

text \<open>C18: A nullifier that is already spent is rejected under every encoding, whatever proof the
  message carries.  When the first non-zero nullifier of a transact, at either of its two places, is
  in the spent set as a field element, the handler fails and changes nothing: with
  \<open>ErrNullifierSpent\<close> if the registration root of the message is the current one, and otherwise
  with \<open>ErrInvalidMerkleRoot\<close>, which is checked before.\<close>

theorem spent_nullifier_rejected:
  assumes "i < 2" and "i < length (Nullifiers msg)" and "\<forall>j < i. isZeroBytes (Nullifiers msg ! j)"
    and "\<not> isZeroBytes (Nullifiers msg ! i)" and "nullifier_spent (kv c) (SetBytes (Nullifiers msg ! i))"
  shows "Transact E msg c =
    (Inl (Nix (if IsValidRegRoot E (kv c) (RegistrationRoot msg) then ErrNullifierSpent else ErrInvalidMerkleRoot)), c)"
proof -
  have "i = 0 \<or> i = 1" using assms(1) by auto
  then show ?thesis
    using assms(2-5)
    by (auto simp: Transact_def consume_nullifier_def IsNullifierSpent_eq run_simps bindM_assoc)
qed

text \<open>A message whose first input is a dummy and whose second is spent.\<close>

definition transact3 :: MsgTransact where
  "transact3 = transact1\<lparr>Nullifiers := [zero32, elem32 8]\<rparr>"

theorem spent_nullifier_rejected_witness:
  "Transact ext1 transact3 chain1' = (Inl (Nix ErrNullifierSpent), chain1')"
proof -
  have "nullifier_spent (kv chain1') (SetBytes (elem32 8))"
    by (simp add: nullifier_spent_def chain1'_def mark_input_def elem32_not_zero)
  moreover have "IsValidRegRoot ext1 (kv chain1') (RegistrationRoot transact3)"
    using transact1_reg
    by (simp add: transact3_def IsValidRegRoot_def GetRegMerkleRoot_def chain1'_def mark_input_def)
  ultimately show ?thesis
    using spent_nullifier_rejected [of 1 transact3 chain1' ext1]
    by (simp add: transact3_def elem32_not_zero)
qed

subsection \<open>The note forest\<close>

text \<open>C12: \<open>InsertNote\<close> implements insertion into the append-only forest: on a store that represents
  the trees \<open>css\<close>, a commitment that is in them under any encoding is refused with
  \<open>ErrDuplicateCommitment\<close> and the store is left as it was; any other is inserted, the store then
  represents \<open>forest_insert d css c\<close> (the leaf appended to the last tree, or a new tree opened when
  that is full), and the root it returns is the Merkle root of all leaves of the tree, the index
  and the tree id the position of the new leaf.\<close>

theorem InsertNote_refines:
  assumes "forest_ok E d s css" and "depth_is E s d" and "zero_hash_laws E"
    and "Suc (length css) < tree_bound"
  shows "\<exists>r s'. InsertNote E c s = (r, s') \<and>
    (if SetBytes c \<in> SetBytes ` set (concat css) then r = Inl (Nix ErrDuplicateCommitment) \<and> s' = s
     else r = Inr (frBytes (roots_of E d (last (forest_insert d css c))),
            of_nat (length (last (forest_insert d css c)) - 1),
            of_nat (length (forest_insert d css c) - 1)) \<and>
       forest_ok E d s' (forest_insert d css c) \<and> depth_is E s' d)"
proof (cases "SetBytes c \<in> SetBytes ` set (concat css)")
  case True
  with InsertNote_duplicate [OF assms(1) True] show ?thesis by (simp only: if_True) blast
next
  case False
  obtain s' where run: "InsertNote E c s =
      (Inr (frBytes (roots_of E d (last (forest_insert d css c))),
            of_nat (length (last (forest_insert d css c)) - 1),
            of_nat (length (forest_insert d css c) - 1)), s')"
    and f: "forest_ok E d s' (forest_insert d css c)" and t: "touches note_skeys s s'"
    using assms False by (rule InsertNote_ok)
  have "depth_is E s' d" using depth_is_frame [OF t, of E d] assms(2) by simp
  with run f False show ?thesis by (simp only: if_False) blast
qed

theorem InsertNote_refines_witness:
  "\<exists>s'. InsertNote ext1 [5] store1 =
      (Inr (frBytes (roots_of ext1 3 (last (forest_insert 3 [] [5]))),
            of_nat (length (last (forest_insert 3 [] [5 :: byte])) - 1),
            of_nat (length (forest_insert 3 [] [5 :: byte]) - 1)), s') \<and>
    InsertNote ext1 [0, 5] s' = (Inl (Nix ErrDuplicateCommitment), s')"
proof -
  have "Suc (length ([] :: bytes list list)) < tree_bound" by (simp add: tree_bound_def)
  from InsertNote_refines [OF store1_forest store1_depth ext1_laws this, of "[5]"] obtain s' where
    run: "InsertNote ext1 [5] store1 = (Inr (frBytes (roots_of ext1 3 (last (forest_insert 3 [] [5]))),
            of_nat (length (last (forest_insert 3 [] [5 :: byte])) - 1),
            of_nat (length (forest_insert 3 [] [5 :: byte]) - 1)), s')"
    and f: "forest_ok ext1 3 s' (forest_insert 3 [] [5])" and d: "depth_is ext1 s' 3" by auto
  have "SetBytes [0, 5] \<in> SetBytes ` set (concat (forest_insert 3 [] [5]))"
    by (simp add: forest_insert_def SetBytes_eq_iff be_nat_Cons)
  moreover have "Suc (length (forest_insert 3 [] [5 :: byte])) < tree_bound"
    by (simp add: forest_insert_def tree_bound_def)
  ultimately have "InsertNote ext1 [0, 5] s' = (Inl (Nix ErrDuplicateCommitment), s')"
    using InsertNote_refines [OF f d ext1_laws, of "[0, 5]"] by auto
  with run show ?thesis by blast
qed

text \<open>C14: In every run of messages no note commitment enters the forest twice, under whatever
  encodings; none was used before the run, and after it exactly these and those used before are
  used.\<close>

theorem no_note_twice:
  assumes "runs E ms s t"
  shows "distinct (concat (map message_notes ms)) \<and>
    (\<forall>x \<in> set (concat (map message_notes ms)). \<not> note_used s x) \<and>
    (\<forall>x. note_used t x \<longleftrightarrow> note_used s x \<or> x \<in> set (concat (map message_notes ms)))"
  using assms by (rule noteMarks.runs_marks)

theorem no_note_twice_witness:
  "\<exists>t. runs ext1 [TxDeposit deposit1] store1 t \<and>
    \<not> note_used store1 (fr_of_int 6) \<and> note_used t (fr_of_int 6)"
proof -
  obtain idx root c' where run: "Deposit ext1 deposit1 chain1 = (Inr (idx, root), c')"
    using deposit1_runs by blast
  have "runs ext1 [TxDeposit deposit1] store1 (kv c')"
    by (rule runs_cons [OF chain1_kv step_deposit [OF run] runs_nil])
  with no_note_twice [OF this] show ?thesis
    by (intro exI [of _ "kv c'"]) (simp add: deposit1_def)
qed

subsection \<open>Roots\<close>

text \<open>C11: The reverse index answers as the scan it replaced: after any run of messages, from any
  store whose index is right, \<open>IsValidRootAnyTree\<close> and the scan over every slot of every tree give
  the same result for every canonical root.\<close>

theorem index_is_scan:
  assumes "runs E ms s t" and "forest_index s n" and "n + 4 * length ms \<le> 2 * tree_bound"
    and "canonical root"
  shows "scanIsValidRootAnyTree E t root = IsValidRootAnyTree E t root"
proof -
  obtain m where m: "forest_index t m" "m \<le> n + 4 * length ms"
    using runs_index [OF assms(1-3)] by blast
  with assms(3) have "m \<le> 2 * tree_bound" by simp
  with m(1) assms(4) show ?thesis
    by (intro scan_is_index [where m = m]) (simp_all add: forest_index_def index_inv_def)
qed

theorem index_is_scan_witness:
  "scanIsValidRootAnyTree ext1 (kv chain1') (elem32 0) = IsValidRootAnyTree ext1 (kv chain1') (elem32 0)"
  by (rule index_is_scan [OF store1_run store1_index])
    (simp_all add: tree_bound_def canonical_def elem32_def be_nat_snoc)

text \<open>C10: Which roots \<open>Transact\<close> accepts: on a store that represents the trees \<open>css\<close>, a root is
  valid exactly if it is the root of the empty tree, or an encoding of a root that is current or
  was produced by one of the last \<open>MaxRootHistory\<close> insertions of some tree.  In particular a root
  expires with the hundredth insertion after it.\<close>

theorem valid_roots:
  assumes "forest_ok E d s css"
  shows "IsValidRootAnyTree E s root =
    Inr (root = zeroRootBytes E DefaultTreeDepth \<or>
         root \<noteq> [] \<and> SetBytes root \<in> set (live_roots E d css))"
  using assms by (rule valid_roots_window)

theorem valid_roots_witness:
  "IsValidRootAnyTree ext1 store1 (elem32 3) =
    Inr (elem32 3 = zeroRootBytes ext1 DefaultTreeDepth \<or>
         elem32 3 \<noteq> [] \<and> SetBytes (elem32 3) \<in> set (live_roots ext1 3 []))"
  by (rule valid_roots [OF store1_forest])

text \<open>C16: \<open>RebuildRootIndex\<close> makes the index right, whatever it held before: if the slots that hold
  roots are slots of the \<open>n\<close> trees the store counts, then afterwards the index has, for every
  root, exactly the number of slots holding it, and nothing else of the store changed.\<close>

theorem RebuildRootIndex_correct:
  assumes "prefix_end_law E" and "kv_u64 s TreeCountKey = Inr (of_nat m)" and "root_slots_in s m"
  shows "\<exists>s'. RebuildRootIndex E s = (Inr (), s') \<and> index_ok s' \<and> touches (range KRootIndex) s s'"
proof -
  obtain s' where run: "RebuildRootIndex E s = (Inr (), s')"
    and idx: "index_is s' (\<lambda>r. card {sl \<in> set (scan_slots (of_nat m)). slot_root s sl = Some r})"
    and t: "touches (range KRootIndex) s s'"
    using RebuildRootIndex_result [OF assms(1,2)] .
  have roots: "slot_root s' = slot_root s" using t by (rule touches_slot_root) auto
  have "{sl \<in> set (scan_slots (of_nat m)). slot_root s sl = Some r} = holders s' r" for r
    using assms(3) by (auto simp: holders_def roots root_slots_in_def)
  with idx have "index_ok s'" by (simp add: index_ok_def)
  with run t show ?thesis by blast
qed

theorem RebuildRootIndex_correct_witness:
  "\<exists>s'. RebuildRootIndex ext1 store1 = (Inr (), s') \<and> index_ok s' \<and>
    touches (range KRootIndex) store1 s'"
proof (rule RebuildRootIndex_correct [OF ext1_prefix_end])
  show "kv_u64 store1 TreeCountKey = Inr (of_nat 0)" by (simp add: kv_u64_def store1_get)
  show "root_slots_in store1 0" using store1_index by (simp add: forest_index_def index_inv_def)
qed

subsection \<open>Handlers\<close>

text \<open>C4: A transact pays exactly what its proof proves.  If a message passes \<open>ValidateBasic\<close> and
  its handler succeeds, then the proof was accepted by the verifier for the vector of 23 public
  inputs that carries the message's nullifiers, roots, output hashes, the hashes of withdraw
  address and denomination, the chain binding and the registration root, this root is the current
  one, every root that goes with a non-zero nullifier is valid, and the bank paid to the withdraw
  address exactly the number at position 6 and to the sender exactly the number at position 11
  (nothing for 0), in a supported denomination.\<close>

theorem transact_pays_what_it_proves:
  assumes "MsgTransact_ValidateBasic E msg = Inr ()" and "Transact E msg c = (Inr r, c')"
  shows "\<exists>p xs b. GetParams E (kv c) = Inr p \<and> ChainBinding p \<noteq> [] \<and>
    proof_accepted E (kv c) ''transact'' (tx_Proof msg) xs \<and>
    xs = transact_vector E msg p (moduleAddress E) (xs ! 6) (xs ! 11) \<and>
    GetRegMerkleRoot E (kv c) = RegistrationRoot msg \<and>
    (\<forall>i < 2. \<not> isZeroBytes (Nullifiers msg ! i) \<longrightarrow>
       IsValidRootAnyTree E (kv c) (MerkleRoots msg ! i) = Inr True) \<and>
    payout E p (tx_Denom msg) (WithdrawAddress msg) (fr_val (xs ! 6)) (bank c) b \<and>
    payout E p (tx_Denom msg) (tx_Sender msg) (fr_val (xs ! 11)) b (bank c')"
proof -
  have amounts: "amount_ok E (WithdrawAmount msg)" "amount_ok E (RelayerFee msg)"
    using ValidateBasic_transact [OF assms(1)] by (simp_all add: transact_wellformed_def)
  obtain p xs s1 s2 s3 acc b where
    reg: "GetRegMerkleRoot E (kv c) = RegistrationRoot msg"
    and roots: "\<forall>i < 2. \<not> isZeroBytes (Nullifiers msg ! i) \<longrightarrow>
      IsValidRootAnyTree E (kv c) (MerkleRoots msg ! i) = Inr True"
    and p: "GetParams E (kv c) = Inr p"
    and xs: "AssembleTransactPublicInputs E msg p (moduleAddress E) = Inr xs"
    and acc: "proof_accepted E (kv c) ''transact'' (tx_Proof msg) xs"
    and w: "paid E (kv c) (WithdrawAmount msg) (tx_Denom msg) (WithdrawAddress msg) (bank c) b"
    and f: "paid E (kv c) (RelayerFee msg) (tx_Denom msg) (tx_Sender msg) b (bank c')"
    using assms(2) by (rule Transact_success)
  obtain amt fee where cb: "ChainBinding p \<noteq> []" and amt: "amount_element E (WithdrawAmount msg) = Inr amt"
    and fee: "amount_element E (RelayerFee msg) = Inr fee"
    and vec: "xs = transact_vector E msg p (moduleAddress E) amt fee"
    using xs by (auto simp: Assemble_iff)
  have pos: "xs ! 6 = amt" "xs ! 11 = fee" by (simp_all add: vec transact_vector_def)
  have "payout E p (tx_Denom msg) (WithdrawAddress msg) (fr_val (xs ! 6)) (bank c) b"
    "payout E p (tx_Denom msg) (tx_Sender msg) (fr_val (xs ! 11)) b (bank c')"
    using paid_payout [OF w amounts(1) amt p] paid_payout [OF f amounts(2) fee p] by (simp_all only: pos)
  moreover have "xs = transact_vector E msg p (moduleAddress E) (xs ! 6) (xs ! 11)"
    unfolding pos by (rule vec)
  ultimately show ?thesis using p cb acc reg roots by blast
qed

theorem transact_pays_what_it_proves_witness:
  "\<exists>p xs b. GetParams ext1 (kv chain1) = Inr p \<and> ChainBinding p \<noteq> [] \<and>
    proof_accepted ext1 (kv chain1) ''transact'' (tx_Proof transact1) xs \<and>
    xs = transact_vector ext1 transact1 p (moduleAddress ext1) (xs ! 6) (xs ! 11) \<and>
    GetRegMerkleRoot ext1 (kv chain1) = RegistrationRoot transact1 \<and>
    (\<forall>i < 2. \<not> isZeroBytes (Nullifiers transact1 ! i) \<longrightarrow>
       IsValidRootAnyTree ext1 (kv chain1) (MerkleRoots transact1 ! i) = Inr True) \<and>
    payout ext1 p (tx_Denom transact1) (WithdrawAddress transact1) (fr_val (xs ! 6)) (bank chain1) b \<and>
    payout ext1 p (tx_Denom transact1) (tx_Sender transact1) (fr_val (xs ! 11)) b (bank chain1')"
  by (rule transact_pays_what_it_proves [OF transact1_valid transact1_runs])

text \<open>C6: A deposit is bound to its proof and escrowed.  If the handler succeeds, the public
  inputs of the message are the canonical encodings of 8 elements that carry the note commitment
  itself, the amount modulo the field, the hash of the denomination and the configured auditor
  key; the verifier accepted the proof for them; the denomination is supported, a chain binding
  is set, auditor data is there when an auditor is configured; the bank moved the amount of the
  message from the sender to the pool; and the note was inserted.\<close>

theorem deposit_bound_and_escrowed:
  assumes "Deposit E msg c = (Inr (idx, root), c')"
  shows "\<exists>p xs amt sender coins tid s'. GetParams E (kv c) = Inr p \<and> ChainBinding p \<noteq> [] \<and>
    dep_PublicInputs msg = concat (map frBytes xs) \<and> length xs = 8 \<and>
    dep_NoteCommitment msg = frBytes (xs ! 0) \<and>
    parseInt E (dep_Amount msg) = Some amt \<and> xs ! 1 = fr_of_int amt \<and>
    xs ! 2 = DenomToFieldElement E (dep_Denom msg) \<and>
    verifyAuditorPublicInputs (xs ! 3) (xs ! 4) (AuditorPubKey p) = Inr () \<and>
    (AuditorPubKey p \<noteq> [] \<longrightarrow> dep_AuditorEncryptedData msg \<noteq> []) \<and>
    proof_accepted E (kv c) ''deposit'' (dep_Proof msg) xs \<and>
    dep_Denom msg \<in> set (SupportedDenoms p) \<and> accAddress E (dep_Sender msg) = Inr sender \<and>
    newCoins E (dep_Denom msg) amt = Inr coins \<and>
    sendToModule E sender ModuleName coins (bank c) = (Inr (), bank c') \<and>
    InsertNote E (dep_NoteCommitment msg) (kv c) = (Inr (root, idx, tid), s') \<and>
    kv c' = auditor_kv E (txBytes c) (dep_AuditorEncryptedData msg) s'"
  using assms
  by (rule Deposit_success)
    (simp add: ParsePublicInputs_iff VerifyDeposit_iff auditor_served_def, blast)

theorem deposit_bound_and_escrowed_witness:
  "\<exists>idx root (c' :: ledger chain) p xs amt sender coins tid s'. GetParams ext1 (kv chain1) = Inr p \<and> ChainBinding p \<noteq> [] \<and>
    dep_PublicInputs deposit1 = concat (map frBytes xs) \<and> length xs = 8 \<and>
    dep_NoteCommitment deposit1 = frBytes (xs ! 0) \<and>
    parseInt ext1 (dep_Amount deposit1) = Some amt \<and> xs ! 1 = fr_of_int amt \<and>
    xs ! 2 = DenomToFieldElement ext1 (dep_Denom deposit1) \<and>
    verifyAuditorPublicInputs (xs ! 3) (xs ! 4) (AuditorPubKey p) = Inr () \<and>
    (AuditorPubKey p \<noteq> [] \<longrightarrow> dep_AuditorEncryptedData deposit1 \<noteq> []) \<and>
    proof_accepted ext1 (kv chain1) ''deposit'' (dep_Proof deposit1) xs \<and>
    dep_Denom deposit1 \<in> set (SupportedDenoms p) \<and> accAddress ext1 (dep_Sender deposit1) = Inr sender \<and>
    newCoins ext1 (dep_Denom deposit1) amt = Inr coins \<and>
    sendToModule ext1 sender ModuleName coins (bank chain1) = (Inr (), bank c') \<and>
    InsertNote ext1 (dep_NoteCommitment deposit1) (kv chain1) = (Inr (root, idx, tid), s') \<and>
    kv c' = auditor_kv ext1 (txBytes chain1) (dep_AuditorEncryptedData deposit1) s'"
proof -
  obtain idx root c' where run: "Deposit ext1 deposit1 chain1 = (Inr (idx, root), c')"
    using deposit1_runs by blast
  show ?thesis
using deposit_bound_and_escrowed [OF run] by (intro exI [of _ idx] exI [of _ root] exI [of _ c'])
qed

text \<open>C7: A registration is bound to its proof: if the handler succeeds, the public inputs are the
  canonical encodings of 9 elements, the first is the identity commitment that is inserted, the
  second is the chain binding, which is set, the next two are the configured auditor key if there
  is one; the verifier accepted the proof for them; the commitment was inserted into the
  registration tree and no coin moved.\<close>

theorem register_bound:
  assumes "Register E msg c = (Inr (idx, root), c')"
  shows "\<exists>p xs s'. GetParams E (kv c) = Inr p \<and>
    reg_PublicInputs msg = concat (map frBytes xs) \<and> length xs = 9 \<and>
    reg_IdentityCommitment msg = frBytes (xs ! 0) \<and>
    ChainBinding p \<noteq> [] \<and> xs ! 1 = SetBytes (ChainBinding p) \<and>
    verifyAuditorPublicInputs (xs ! 2) (xs ! 3) (AuditorPubKey p) = Inr () \<and>
    (AuditorPubKey p \<noteq> [] \<longrightarrow> reg_AuditorEncryptedData msg \<noteq> []) \<and>
    proof_accepted E (kv c) ''registration'' (reg_Proof msg) xs \<and>
    InsertRegCommitment E (reg_IdentityCommitment msg) (kv c) = (Inr (root, idx), s') \<and>
    kv c' = auditor_kv E (txBytes c) (reg_AuditorEncryptedData msg) s' \<and> bank c' = bank c"
  using assms
  by (rule Register_success)
    (simp add: ParsePublicInputs_iff VerifyRegister_iff auditor_served_def, blast)

theorem register_bound_witness:
  "\<exists>idx root (c' :: ledger chain) p xs s'. GetParams ext1 (kv chain1) = Inr p \<and>
    reg_PublicInputs register1 = concat (map frBytes xs) \<and> length xs = 9 \<and>
    reg_IdentityCommitment register1 = frBytes (xs ! 0) \<and>
    ChainBinding p \<noteq> [] \<and> xs ! 1 = SetBytes (ChainBinding p) \<and>
    verifyAuditorPublicInputs (xs ! 2) (xs ! 3) (AuditorPubKey p) = Inr () \<and>
    (AuditorPubKey p \<noteq> [] \<longrightarrow> reg_AuditorEncryptedData register1 \<noteq> []) \<and>
    proof_accepted ext1 (kv chain1) ''registration'' (reg_Proof register1) xs \<and>
    InsertRegCommitment ext1 (reg_IdentityCommitment register1) (kv chain1) = (Inr (root, idx), s') \<and>
    kv c' = auditor_kv ext1 (txBytes chain1) (reg_AuditorEncryptedData register1) s' \<and>
    bank c' = bank chain1"
proof -
  obtain idx root c' where run: "Register ext1 register1 chain1 = (Inr (idx, root), c')"
    using register1_runs by blast
  show ?thesis
    using register_bound [OF run] by (intro exI [of _ idx] exI [of _ root] exI [of _ c'])
qed

subsection \<open>Registration\<close>

text \<open>C13: \<open>InsertRegCommitment\<close> implements appending to the list of registered identities: a
  commitment that is registered under any encoding is a duplicate, with the tree full a new one is
  refused as such, both without any write; otherwise it succeeds, the store then represents the
  extended list, and the root it returns, which becomes the only valid registration root, is the
  Merkle root of all registered commitments.\<close>

theorem InsertRegCommitment_appends:
  assumes "reg_ok E s cs" and "zero_hash_laws E"
  shows "\<exists>r s'. InsertRegCommitment E c s = (r, s') \<and>
    (if SetBytes c \<in> SetBytes ` set cs then r = Inl (Nix ErrDuplicateCommitment) \<and> s' = s
     else if length cs = 2 ^ reg_depth then r = Inl (Nix ErrTreeFull) \<and> s' = s
     else r = Inr (frBytes (roots_of E reg_depth (cs @ [c])), of_nat (length cs)) \<and>
       reg_ok E s' (cs @ [c]) \<and>
       (\<forall>root. IsValidRegRoot E s' root \<longleftrightarrow> root = frBytes (roots_of E reg_depth (cs @ [c]))))"
proof (cases "SetBytes c \<in> SetBytes ` set cs \<or> length cs = 2 ^ reg_depth")
  case True
  then show ?thesis
    using InsertRegCommitment_duplicate [OF assms(1)] InsertRegCommitment_full [OF assms(1)]
    by (cases "SetBytes c \<in> SetBytes ` set cs") (simp_all only: if_True if_False simp_thms Pair_inject, blast+)
next
  case False
  with reg_length [OF assms(1)] have "length cs < 2 ^ reg_depth" "SetBytes c \<notin> SetBytes ` set cs"
    by (simp_all only: de_Morgan_disj order_le_neq_trans not_False_eq_True)
  from InsertRegCommitment_ok [OF assms this] obtain s' where
    "InsertRegCommitment E c s = (Inr (frBytes (roots_of E reg_depth (cs @ [c])), of_nat (length cs)), s')"
    "reg_ok E s' (cs @ [c])" by blast
  moreover from this(2) have
    "\<forall>root. IsValidRegRoot E s' root \<longleftrightarrow> root = frBytes (roots_of E reg_depth (cs @ [c]))"
    by (auto simp: reg_ok_def IsValidRegRoot_def)
  ultimately show ?thesis using False by (simp only: de_Morgan_disj if_False) blast
qed

theorem InsertRegCommitment_appends_witness:
  "\<exists>s. InsertRegCommitment ext1 [5] store1 =
      (Inr (frBytes (roots_of ext1 reg_depth ([] @ [[5]])), of_nat (length ([] :: bytes list))), s) \<and>
    InsertRegCommitment ext1 [0, 5] s = (Inl (Nix ErrDuplicateCommitment), s)"
proof -
  obtain s where run: "InsertRegCommitment ext1 [5] store1 =
      (Inr (frBytes (roots_of ext1 reg_depth ([] @ [[5]])), of_nat (length ([] :: bytes list))), s)"
    and r: "reg_ok ext1 s ([] @ [[5]])"
    using InsertRegCommitment_appends [OF store1_reg ext1_laws, of "[5]"] by (auto simp: reg_depth_def)
  have "SetBytes [0, 5] = SetBytes [5]" by (simp add: SetBytes_eq_iff be_nat_Cons)
  then have "SetBytes [0, 5] \<in> SetBytes ` set ([] @ [[5]])" by simp
  with InsertRegCommitment_appends [OF r ext1_laws, of "[0, 5]"] run show ?thesis by auto
qed

text \<open>C15: In every run of messages no identity commitment is registered twice, under whatever
  encodings; after it exactly these and those registered before are registered.\<close>

theorem no_identity_twice:
  assumes "runs E ms s t"
  shows "distinct (concat (map message_identities ms)) \<and>
    (\<forall>x \<in> set (concat (map message_identities ms)). \<not> identity_used s x) \<and>
    (\<forall>x. identity_used t x \<longleftrightarrow> identity_used s x \<or> x \<in> set (concat (map message_identities ms)))"
  using assms by (rule identityMarks.runs_marks)

theorem no_identity_twice_witness:
  "\<exists>t. runs ext1 [TxRegister register1] store1 t \<and>
    \<not> identity_used store1 (fr_of_int 6) \<and> identity_used t (fr_of_int 6)"
proof -
  obtain idx root c' where run: "Register ext1 register1 chain1 = (Inr (idx, root), c')"
    using register1_runs by blast
  have "runs ext1 [TxRegister register1] store1 (kv c')"
    by (rule runs_cons [OF chain1_kv step_register [OF run] runs_nil])
  with no_identity_twice [OF this] show ?thesis
    by (intro exI [of _ "kv c'"]) (simp add: register1_def)
qed

subsection \<open>Verification and public inputs\<close>


text \<open>C20: \<open>ParsePublicInputs\<close> accepts exactly the concatenations of canonical encodings, each for
  the elements it encodes: a vector has one accepted wire form.\<close>

theorem parse_inputs_exact:
  "ParsePublicInputs data = Inr xs \<longleftrightarrow> data = concat (map frBytes xs)"
  by (rule ParsePublicInputs_iff)

lemma all_less_two: "(\<forall>i < 2. P i) \<longleftrightarrow> P 0 \<and> P (1 :: nat)"
  by (auto simp: less_2_cases_iff)

text \<open>C21: What the vector of a transact binds, and what it leaves open.  If two messages, under the same
  parameters and the same pool address, assemble to the same vector, then at both places their
  nullifiers, roots, output hashes and the auditor's ciphertexts, keys and recipients are equal as
  field elements, and so are their registration roots; their two amounts are the same element; and,
  if the hash neither collides on their denominations and withdraw addresses nor maps one of them
  to zero, these are equal as strings.  The sender and the proof are not in the vector: changing them
  leaves it as it is.\<close>

theorem transact_vector_binds:
  assumes "AssembleTransactPublicInputs E m1 p a = Inr xs" and "AssembleTransactPublicInputs E m2 p a = Inr xs"
    and "V = {tx_Denom m1, tx_Denom m2, WithdrawAddress m1, WithdrawAddress m2}"
    and "inj_on (hashN E) (string_limbs ` V)" and "\<forall>v \<in> V. hashN E (string_limbs v) \<noteq> 0"
    and "\<forall>v \<in> V. length v < 2 ^ 64"
  shows "(\<forall>i < 2. SetBytes (Nullifiers m1 ! i) = SetBytes (Nullifiers m2 ! i) \<and>
      SetBytes (MerkleRoots m1 ! i) = SetBytes (MerkleRoots m2 ! i) \<and>
      (\<forall>f \<in> {NoteHash, AuditorEnc, AuditorAuthKeyX, AuditorAuthKeyY, AuditorEncRecipient}.
        SetBytes (f (Outputs m1 ! i)) = SetBytes (f (Outputs m2 ! i)))) \<and>
    SetBytes (RegistrationRoot m1) = SetBytes (RegistrationRoot m2) \<and>
    amount_element E (WithdrawAmount m1) = amount_element E (WithdrawAmount m2) \<and>
    amount_element E (RelayerFee m1) = amount_element E (RelayerFee m2) \<and>
    tx_Denom m1 = tx_Denom m2 \<and> WithdrawAddress m1 = WithdrawAddress m2 \<and>
    AssembleTransactPublicInputs E (m1\<lparr>tx_Sender := sender, tx_Proof := proof\<rparr>) p a = Inr xs"
proof -
  have inj: "text_element E u = text_element E v \<longleftrightarrow> u = v" if "u \<in> V" "v \<in> V" for u v
    by (rule text_element_inj [OF assms(4-6) that])
  from assms(1) obtain amt fee where 1: "xs = transact_vector E m1 p a amt fee"
    "amount_element E (WithdrawAmount m1) = Inr amt" "amount_element E (RelayerFee m1) = Inr fee"
    by (auto simp: Assemble_iff)
  from assms(2) obtain amt' fee' where 2: "xs = transact_vector E m2 p a amt' fee'"
    "amount_element E (WithdrawAmount m2) = Inr amt'" "amount_element E (RelayerFee m2) = Inr fee'"
    by (auto simp: Assemble_iff)
  have eq: "transact_vector E m1 p a amt fee = transact_vector E m2 p a amt' fee'"
    using 1(1) 2(1) by (rule subst)
  have free: "AssembleTransactPublicInputs E (m1\<lparr>tx_Sender := sender, tx_Proof := proof\<rparr>) p a = Inr xs"
    using assms(1) by (simp add: Assemble_iff transact_vector_def)
  from eq 1(2,3) 2(2,3) show ?thesis
    by (intro conjI free) (simp_all add: transact_vector_def less_2_cases_iff inj assms(3) all_less_two)
qed

definition relayed1 :: MsgTransact where
  "relayed1 = transact1\<lparr>tx_Sender := ''eve''\<rparr>"

lemma text_hashes1:
  "fr_val (hashN ext1 (string_limbs ''anix'')) = 1634625916"
  "fr_val (hashN ext1 (string_limbs ''bob'')) = 6451045"
  by (simp_all add: ext1_def string_limbs_def Let_def bytes_of_def plus_fr.rep_eq fr_val_of_int
      fr_val_SetBytes be_nat_Cons fr_modulus_def)

theorem transact_vector_binds_witness:
  "\<exists>xs. AssembleTransactPublicInputs ext1 transact1 params1 [1] = Inr xs \<and>
    AssembleTransactPublicInputs ext1 relayed1 params1 [1] = Inr xs \<and>
    SetBytes (RegistrationRoot transact1) = SetBytes (RegistrationRoot relayed1) \<and>
    tx_Denom transact1 = tx_Denom relayed1 \<and> WithdrawAddress transact1 = WithdrawAddress relayed1"
proof -
  obtain xs where xs: "AssembleTransactPublicInputs ext1 transact1 params1 [1] = Inr xs"
    by (simp add: Assemble_iff amount_element_Inr_iff ext1_calls transact1_def params1_def zero32_def)
  then have xs': "AssembleTransactPublicInputs ext1 relayed1 params1 [1] = Inr xs"
    by (simp add: Assemble_iff transact_vector_def relayed1_def)
  have V: "{tx_Denom transact1, tx_Denom relayed1, WithdrawAddress transact1, WithdrawAddress relayed1}
      = {''anix'', ''bob''}"
    by (auto simp: relayed1_def)
  have neq: "hashN ext1 (string_limbs ''anix'') \<noteq> hashN ext1 (string_limbs ''bob'')"
    "hashN ext1 (string_limbs ''anix'') \<noteq> 0" "hashN ext1 (string_limbs ''bob'') \<noteq> 0"
    using text_hashes1 by (auto simp flip: fr_val_inject)
  have "inj_on (hashN ext1) (string_limbs ` {''anix'', ''bob''})"
    using neq(1) by (auto simp: inj_on_def)
  moreover have "\<forall>v \<in> {''anix'', ''bob''}. hashN ext1 (string_limbs v) \<noteq> 0" using neq by simp
  ultimately show ?thesis
    using transact_vector_binds [OF xs xs' V [symmetric]] xs xs' by simp
qed

end
